(* ===== verification/Prelude.thy ===== *)
theory Prelude
  imports Main "HOL-Library.Word" "HOL-Library.Signed_Division" "HOL-Library.Monad_Syntax"
begin

text \<open>
  Shared vocabulary of the development: bytes, Go slices, Go integer arithmetic, and the
  lemmas about lists that the component theories use.

  A Go run-time panic (index out of range, nil dereference, division by zero, send on a
  closed channel) is the value \<open>None\<close> of an option, so that a definition that can
  panic has an option result and \<open>do\<close> blocks propagate it.  A Go \<open>error\<close> value that
  is returned to the caller is a value of a component's own error datatype.

  Go \<open>int\<close> and \<open>int64\<close> values are \<open>int\<close>; where the code converts to a narrower
  unsigned type the conversion is written out with words.  Go's \<open>/\<close> and \<open>%\<close>
  truncate towards zero (\<open>sdiv\<close> and \<open>smod\<close>).
\<close>

unbundle bit_operations_syntax

section \<open>Names\<close>

type_synonym byte = "8 word"
type_synonym bytes = "byte list"
type_synonym u32 = "32 word"
type_synonym u64 = "64 word"

named_theorems go_defs \<open>definitions of the Go slice operations\<close>
named_theorems window_simps \<open>reading and writing a window of a byte list\<close>

section \<open>Go slices\<close>

definition go_index :: "'a list \<Rightarrow> int \<Rightarrow> 'a option" where
  "go_index xs i = (if 0 \<le> i \<and> i < int (length xs) then Some (xs ! nat i) else None)"

definition go_store :: "'a list \<Rightarrow> int \<Rightarrow> 'a \<Rightarrow> 'a list option" where
  "go_store xs i v = (if 0 \<le> i \<and> i < int (length xs) then Some (xs[nat i := v]) else None)"

text \<open>\<open>xs[lo:hi]\<close> of a slice whose capacity is its length.\<close>

definition go_slice :: "'a list \<Rightarrow> int \<Rightarrow> int \<Rightarrow> 'a list option" where
  "go_slice xs lo hi =
     (if 0 \<le> lo \<and> lo \<le> hi \<and> hi \<le> int (length xs)
      then Some (take (nat (hi - lo)) (drop (nat lo) xs)) else None)"

text \<open>\<open>copy(dst, src)\<close>: the destination afterwards; \<open>min\<close> of the lengths is copied.\<close>

definition go_copy :: "'a list \<Rightarrow> 'a list \<Rightarrow> 'a list" where
  "go_copy dst src = take (length dst) src @ drop (length src) dst"

text \<open>\<open>make([]T, n)\<close> with the zero value \<open>z\<close>; a negative length panics.\<close>

definition go_make :: "int \<Rightarrow> 'a \<Rightarrow> 'a list option" where
  "go_make n z = (if n < 0 then None else Some (replicate (nat n) z))"

definition go_div :: "int \<Rightarrow> int \<Rightarrow> int option" where
  "go_div a b = (if b = 0 then None else Some (a sdiv b))"

definition go_mod :: "int \<Rightarrow> int \<Rightarrow> int option" where
  "go_mod a b = (if b = 0 then None else Some (a smod b))"

lemmas [go_defs] = go_index_def go_store_def go_slice_def go_copy_def go_make_def
  go_div_def go_mod_def

lemma go_index_nat [simp]:
  "i < length xs \<Longrightarrow> go_index xs (int i) = Some (xs ! i)"
  by (simp add: go_index_def)

lemma go_store_nat [simp]:
  "i < length xs \<Longrightarrow> go_store xs (int i) v = Some (xs[i := v])"
  by (simp add: go_store_def)

lemma go_index_SomeD:
  "go_index xs i = Some v \<Longrightarrow> 0 \<le> i \<and> nat i < length xs \<and> v = xs ! nat i"
  by (auto simp: go_index_def split: if_splits)

lemma go_store_SomeD:
  "go_store xs i v = Some ys \<Longrightarrow> 0 \<le> i \<and> nat i < length xs \<and> ys = xs[nat i := v]"
  by (auto simp: go_store_def split: if_splits)

lemma length_go_copy [simp]: "length (go_copy dst src) = length dst"
  by (simp add: go_copy_def)

lemma go_copy_same [simp]: "length dst = length src \<Longrightarrow> go_copy dst src = src"
  by (simp add: go_copy_def)

lemma sdiv_nonneg: "0 \<le> a \<Longrightarrow> 0 \<le> b \<Longrightarrow> a sdiv b = a div b" for a b :: int
  by (auto simp: signed_divide_int_def sgn_if)

lemma smod_nonneg: "0 \<le> a \<Longrightarrow> 0 \<le> b \<Longrightarrow> a smod b = a mod b" for a b :: int
  by (auto simp: signed_modulo_int_def sgn_if)

lemma go_div_nonneg: "0 \<le> a \<Longrightarrow> 0 < b \<Longrightarrow> go_div a b = Some (a div b)"
  by (simp add: go_div_def sdiv_nonneg)

lemma go_mod_nonneg: "0 \<le> a \<Longrightarrow> 0 < b \<Longrightarrow> go_mod a b = Some (a mod b)"
  by (simp add: go_mod_def smod_nonneg)

section \<open>Windows of a byte list\<close>

text \<open>
  The abstract view of storage: a byte list, read and written through a window.
  \<open>window\<close> is what a read of \<open>n\<close> bytes at \<open>off\<close> sees, \<open>patch\<close> what a write leaves.
\<close>

definition window :: "'a list \<Rightarrow> nat \<Rightarrow> nat \<Rightarrow> 'a list" where
  "window xs off n = take n (drop off xs)"

definition patch :: "'a list \<Rightarrow> nat \<Rightarrow> 'a list \<Rightarrow> 'a list" where
  "patch xs off p = take off xs @ p @ drop (off + length p) xs"

lemma length_window [window_simps]:
  "off + n \<le> length xs \<Longrightarrow> length (window xs off n) = n"
  by (simp add: window_def)

lemma length_patch [window_simps]:
  "off + length p \<le> length xs \<Longrightarrow> length (patch xs off p) = length xs"
  by (simp add: patch_def)

lemma patch_Nil [simp]: "patch xs off [] = xs"
  by (simp add: patch_def)

lemma window_0 [simp]: "window xs off 0 = []"
  by (simp add: window_def)

lemma window_all: "window xs 0 (length xs) = xs"
  by (simp add: window_def)

lemma nth_patch:
  "off + length p \<le> length xs \<Longrightarrow> i < length xs \<Longrightarrow>
   patch xs off p ! i = (if off \<le> i \<and> i < off + length p then p ! (i - off) else xs ! i)"
  by (auto simp: patch_def nth_append not_less)

lemma window_patch_same [window_simps]:
  "off + length p \<le> length xs \<Longrightarrow> window (patch xs off p) off (length p) = p"
  by (simp add: window_def patch_def)

lemma window_patch_disjoint:
  assumes "off + length p \<le> length xs" "a + n \<le> off \<or> off + length p \<le> a"
  shows "window (patch xs off p) a n = window xs a n"
proof (rule nth_equalityI)
  show "length (window (patch xs off p) a n) = length (window xs a n)"
    using assms(1) by (simp add: window_def length_patch)
next
  fix i assume "i < length (window (patch xs off p) a n)"
  then have i: "i < n" "a + i < length xs"
    using assms(1) by (auto simp: window_def length_patch)
  then show "window (patch xs off p) a n ! i = window xs a n ! i"
    using assms by (auto simp: window_def nth_patch length_patch)
qed

lemma patch_append_left:
  "off + length p \<le> length xs \<Longrightarrow> patch (xs @ ys) off p = patch xs off p @ ys"
  by (simp add: patch_def)

lemma patch_append_right:
  "length xs \<le> off \<Longrightarrow> patch (xs @ ys) off p = xs @ patch ys (off - length xs) p"
  by (simp add: patch_def)

lemma patch_append_cross:
  "off \<le> length xs \<Longrightarrow> length xs \<le> off + length p \<Longrightarrow>
   patch (xs @ ys) off p =
     patch xs off (take (length xs - off) p) @ patch ys 0 (drop (length xs - off) p)"
  by (simp add: patch_def add.commute)

lemma window_append_left:
  "off + n \<le> length xs \<Longrightarrow> window (xs @ ys) off n = window xs off n"
  by (simp add: window_def)

lemma window_append_right:
  "length xs \<le> off \<Longrightarrow> window (xs @ ys) off n = window ys (off - length xs) n"
  by (simp add: window_def)

lemma window_append_cross:
  "off \<le> length xs \<Longrightarrow> length xs \<le> off + n \<Longrightarrow>
   window (xs @ ys) off n =
     window xs off (length xs - off) @ window ys 0 (off + n - length xs)"
  by (simp add: window_def add.commute)

section \<open>State machines\<close>

text \<open>
  What every event loop of the program owes its readers: one step keeps the invariant and
  relates the state before to the state after.  Then every run does.
\<close>

locale machine =
  fixes step :: "'s \<Rightarrow> 's \<Rightarrow> bool"
    and invar :: "'s \<Rightarrow> bool"
    and grows :: "'s \<Rightarrow> 's \<Rightarrow> bool"
  assumes step_inv: "invar s \<Longrightarrow> step s t \<Longrightarrow> invar t \<and> grows s t"
    and refl: "grows s s"
    and trans: "grows s t \<Longrightarrow> grows t u \<Longrightarrow> grows s u"
begin

lemma runs_inv: "step\<^sup>*\<^sup>* s t \<Longrightarrow> invar s \<Longrightarrow> invar t \<and> grows s t"
proof (induction rule: rtranclp_induct)
  case (step t u)
  then show ?case using step_inv [of t u] trans by blast
qed (simp add: refl)

end

end
