(* ===== verification/Bitset.thy ===== *)
theory Bitset
  imports Prelude
begin

text \<open>
  \<open>p2p/bitset.go\<close>: the piece map.  A big-endian bit vector over a byte slice: bit \<open>i\<close> is
  bit \<open>7 - i mod 8\<close> of byte \<open>i div 8\<close>.  \<open>elems\<close> is the set of indices a bitset stands
  for, \<open>wf_bitset\<close> the invariant (length of the slice, spare bits of the last byte clear),
  and \<open>bit_vector\<close> the interface the pieces and the session rely on.
\<close>

section \<open>The code\<close>

record bitset =
  bs_b :: bytes
  bs_n :: int
  bs_endIndex :: int
  bs_endMask :: byte

definition bit_mask :: "int \<Rightarrow> byte" where
  "bit_mask index = drop_bit (nat (index AND 7)) 128"

definition NewBitset :: "int \<Rightarrow> bitset option" where
  "NewBitset n = do {
     let endIndex = drop_bit 3 n;
     let endOffset = n AND 7;
     let endMask = (NOT (drop_bit (nat endOffset) 255) :: byte);
     let endIndex = (if endOffset = 0 then -1 else endIndex);
     b \<leftarrow> go_make (drop_bit 3 (n + 7)) 0;
     Some \<lparr>bs_b = b, bs_n = n, bs_endIndex = endIndex, bs_endMask = endMask\<rparr>
   }"

text \<open>The inner option is the returned pointer: \<open>None\<close> is \<open>nil\<close>.\<close>

definition NewBitsetFromBytes :: "int \<Rightarrow> bytes \<Rightarrow> bitset option option" where
  "NewBitsetFromBytes n data = do {
     bitset \<leftarrow> NewBitset n;
     if length (bs_b bitset) \<noteq> length data then Some None
     else do {
       let bitset = bitset\<lparr>bs_b := go_copy (bs_b bitset) data\<rparr>;
       if bs_endIndex bitset \<ge> 0 then do {
         x \<leftarrow> go_index (bs_b bitset) (bs_endIndex bitset);
         if x AND NOT (bs_endMask bitset) \<noteq> 0 then Some None else Some (Some bitset)
       } else Some (Some bitset)
     }
   }"

definition InRange :: "bitset \<Rightarrow> int \<Rightarrow> bool" where
  "InRange b index \<longleftrightarrow> 0 \<le> index \<and> index < bs_n b"

text \<open>\<open>checkRange\<close> only writes a log line; it never stops the caller.\<close>

definition BSet :: "bitset \<Rightarrow> int \<Rightarrow> bitset option" where
  "BSet b index = do {
     x \<leftarrow> go_index (bs_b b) (drop_bit 3 index);
     b' \<leftarrow> go_store (bs_b b) (drop_bit 3 index) (x OR bit_mask index);
     Some (b\<lparr>bs_b := b'\<rparr>)
   }"

definition BClear :: "bitset \<Rightarrow> int \<Rightarrow> bitset option" where
  "BClear b index = do {
     x \<leftarrow> go_index (bs_b b) (drop_bit 3 index);
     b' \<leftarrow> go_store (bs_b b) (drop_bit 3 index) (x AND NOT (bit_mask index));
     Some (b\<lparr>bs_b := b'\<rparr>)
   }"

definition IsSet :: "bitset \<Rightarrow> int \<Rightarrow> bool option" where
  "IsSet b index = do {
     x \<leftarrow> go_index (bs_b b) (drop_bit 3 index);
     Some (x AND bit_mask index \<noteq> 0)
   }"

definition Len :: "bitset \<Rightarrow> int" where
  "Len b = bs_n b"

definition IsEndValid :: "bitset \<Rightarrow> bool option" where
  "IsEndValid b =
     (if bs_endIndex b \<ge> 0 then do {
        x \<leftarrow> go_index (bs_b b) (bs_endIndex b);
        Some (x AND bs_endMask b = 0)
      } else Some True)"

function FindNextSet :: "bitset \<Rightarrow> int \<Rightarrow> int option" where
  "FindNextSet b i =
     (if i < bs_n b then
        (case go_index (bs_b b) (drop_bit 3 i) of
           None \<Rightarrow> None
         | Some x \<Rightarrow> if x AND bit_mask i \<noteq> 0 then Some i else FindNextSet b (i + 1))
      else Some (-1))"
  by pat_completeness auto
termination by (relation "measure (\<lambda>(b, i). nat (bs_n b - i))") auto

function FindNextClear :: "bitset \<Rightarrow> int \<Rightarrow> int option" where
  "FindNextClear b i =
     (if i < bs_n b then
        (case go_index (bs_b b) (drop_bit 3 i) of
           None \<Rightarrow> None
         | Some x \<Rightarrow> if x AND bit_mask i = 0 then Some i else FindNextClear b (i + 1))
      else Some (-1))"
  by pat_completeness auto
termination by (relation "measure (\<lambda>(b, i). nat (bs_n b - i))") auto

declare FindNextSet.simps [simp del] FindNextClear.simps [simp del]

definition Bytes :: "bitset \<Rightarrow> bytes" where
  "Bytes b = bs_b b"

section \<open>Bits of a byte\<close>

lemma int_and_7: "int i AND 7 = int (i mod 8)"
proof -
  have "int i AND 7 = take_bit 3 (int i)"
    by (simp add: take_bit_eq_mask mask_eq_exp_minus_1)
  then show ?thesis by (simp add: take_bit_eq_mod zmod_int)
qed

lemma int_shr_3: "drop_bit 3 (int i) = int (i div 8)"
  by (simp add: drop_bit_eq_div zdiv_int)

lemma bit_128: "bit (128 :: byte) m \<longleftrightarrow> m = 7"
proof -
  have "(128 :: byte) = 2 ^ 7" by simp
  then show ?thesis by (simp only: bit_exp_iff) auto
qed

lemma bit_255: "bit (255 :: byte) m \<longleftrightarrow> m < 8"
proof -
  have "(255 :: byte) = mask 8" by (simp add: mask_eq_exp_minus_1)
  then show ?thesis by (simp only: bit_mask_iff) auto
qed

lemma bit_bit_mask: "bit (bit_mask (int i)) j \<longleftrightarrow> j = 7 - i mod 8"
proof -
  have "bit (bit_mask (int i)) j \<longleftrightarrow> bit (128 :: byte) (i mod 8 + j)"
    by (simp only: bit_mask_def int_and_7 nat_int bit_drop_bit_eq o_apply)
  then show ?thesis unfolding bit_128 by presburger
qed

lemma and_bit_mask: "x AND bit_mask (int i) \<noteq> 0 \<longleftrightarrow> bit x (7 - i mod 8)" for x :: byte
  by (auto simp: bit_eq_iff [where ?'a = byte] bit_and_iff bit_bit_mask)

lemma and_bit_mask_0: "x AND bit_mask (int i) = 0 \<longleftrightarrow> \<not> bit x (7 - i mod 8)" for x :: byte
  using and_bit_mask by blast

lemma bit_or_bit_mask: "bit (x OR bit_mask (int i)) j \<longleftrightarrow> bit x j \<or> j = 7 - i mod 8"
  by (auto simp: bit_or_iff bit_bit_mask)

lemma bit_and_not_bit_mask:
  "bit (x AND NOT (bit_mask (int i))) j \<longleftrightarrow> bit x j \<and> j \<noteq> 7 - i mod 8"
  by (auto simp: bit_and_iff bit_not_iff bit_bit_mask dest: bit_imp_le_length)

section \<open>The set a bitset stands for\<close>

definition bit_at :: "bytes \<Rightarrow> nat \<Rightarrow> bool" where
  "bit_at bs i \<longleftrightarrow> i div 8 < length bs \<and> bit (bs ! (i div 8)) (7 - i mod 8)"

definition elems :: "bitset \<Rightarrow> nat set" where
  "elems b = {i. int i < bs_n b \<and> bit_at (bs_b b) i}"

definition wf_bitset :: "bitset \<Rightarrow> bool" where
  "wf_bitset b \<longleftrightarrow>
     0 \<le> bs_n b \<and>
     length (bs_b b) = nat (bs_n b + 7) div 8 \<and>
     bs_endIndex b = (if bs_n b mod 8 = 0 then -1 else bs_n b div 8) \<and>
     bs_endMask b = NOT (drop_bit (nat (bs_n b mod 8)) 255) \<and>
     (\<forall>i < 8 * length (bs_b b). bit_at (bs_b b) i \<longrightarrow> int i < bs_n b)"

lemma elems_bound: "elems b \<subseteq> {..<nat (bs_n b)}"
  by (auto simp: elems_def)

lemma finite_elems [simp]: "finite (elems b)"
  by (rule finite_subset [OF elems_bound]) simp

lemma eight_split: "i div 8 = k div 8 \<and> 7 - i mod 8 = 7 - k mod 8 \<longleftrightarrow> i = k" for i k :: nat
proof -
  have "i mod 8 < 8" "k mod 8 < 8" by simp_all
  then have "7 - i mod 8 = 7 - k mod 8 \<longleftrightarrow> i mod 8 = k mod 8" by linarith
  then show ?thesis by (metis div_mult_mod_eq)
qed

lemma wf_bitset_length: "wf_bitset b \<Longrightarrow> length (bs_b b) = nat (bs_n b + 7) div 8"
  unfolding wf_bitset_def by blast

lemma wf_bitset_nonneg: "wf_bitset b \<Longrightarrow> 0 \<le> bs_n b"
  unfolding wf_bitset_def by blast

lemma index_in_slice:
  assumes "wf_bitset b" "int i < bs_n b"
  shows "i div 8 < length (bs_b b)"
proof -
  have "i + 8 \<le> nat (bs_n b + 7)" using assms(2) by linarith
  then have "(i + 8) div 8 \<le> nat (bs_n b + 7) div 8" by (rule div_le_mono)
  then have "i div 8 < nat (bs_n b + 7) div 8" by simp
  with wf_bitset_length [OF assms(1)] show ?thesis by simp
qed

lemma bit_at_update:
  assumes "k div 8 < length bs"
  shows "bit_at (bs[k div 8 := x]) i \<longleftrightarrow>
    (if i div 8 = k div 8 then bit x (7 - i mod 8) else bit_at bs i)"
  using assms by (auto simp: bit_at_def)

lemma NewBitset_ok:
  assumes "0 \<le> n"
  shows "\<exists>b. NewBitset n = Some b \<and> wf_bitset b \<and> bs_n b = n \<and> elems b = {}"
proof -
  obtain k where k: "n = int k" using assms nonneg_int_cases by blast
  have len: "drop_bit 3 (int k + 7) = int ((k + 7) div 8)"
    using int_shr_3 [of "k + 7"] by simp
  have len7: "(int k + 7) div 8 = int ((k + 7) div 8)"
    using zdiv_int [of "k + 7" 8] by simp
  have d: "int k div 8 = int (k div 8)" and m: "int k mod 8 = int (k mod 8)"
    by (simp_all add: zdiv_int zmod_int)
  have nat7: "nat (int k + 7) = k + 7" by simp
  have no: "\<not> bit_at (replicate m 0) i" for m i
    by (simp add: bit_at_def)
  show ?thesis
    unfolding NewBitset_def k Let_def len go_make_def
    by (simp add: wf_bitset_def elems_def no nat7 len7 d m int_and_7 int_shr_3)
qed


lemma BSet_ok:
  assumes "wf_bitset b" "int i < bs_n b"
  shows "\<exists>b'. BSet b (int i) = Some b' \<and> wf_bitset b' \<and> bs_n b' = bs_n b \<and>
    elems b' = insert i (elems b)"
proof -
  let ?l = "(bs_b b)[i div 8 := bs_b b ! (i div 8) OR bit_mask (int i)]"
  have i8: "i div 8 < length (bs_b b)" using assms by (rule index_in_slice)
  have step: "BSet b (int i) = Some (b\<lparr>bs_b := ?l\<rparr>)"
    using i8 by (simp add: BSet_def int_shr_3)
  have at: "bit_at ?l j \<longleftrightarrow> bit_at (bs_b b) j \<or> j = i" for j
    unfolding bit_at_update [OF i8] using i8 eight_split [of j i]
    by (auto simp: bit_or_bit_mask bit_at_def)
  have "wf_bitset (b\<lparr>bs_b := ?l\<rparr>)"
    using assms unfolding wf_bitset_def by (auto simp: at)
  moreover have "elems (b\<lparr>bs_b := ?l\<rparr>) = insert i (elems b)"
    using assms(2) by (auto simp: elems_def at)
  ultimately show ?thesis using step by simp
qed

lemma BClear_ok:
  assumes "wf_bitset b" "int i < bs_n b"
  shows "\<exists>b'. BClear b (int i) = Some b' \<and> wf_bitset b' \<and> bs_n b' = bs_n b \<and>
    elems b' = elems b - {i}"
proof -
  let ?l = "(bs_b b)[i div 8 := bs_b b ! (i div 8) AND NOT (bit_mask (int i))]"
  have i8: "i div 8 < length (bs_b b)" using assms by (rule index_in_slice)
  have step: "BClear b (int i) = Some (b\<lparr>bs_b := ?l\<rparr>)"
    using i8 by (simp add: BClear_def int_shr_3)
  have at: "bit_at ?l j \<longleftrightarrow> bit_at (bs_b b) j \<and> j \<noteq> i" for j
    unfolding bit_at_update [OF i8] using i8 eight_split [of j i]
    by (auto simp: bit_and_not_bit_mask bit_at_def)
  have "wf_bitset (b\<lparr>bs_b := ?l\<rparr>)"
    using assms unfolding wf_bitset_def by (auto simp: at)
  moreover have "elems (b\<lparr>bs_b := ?l\<rparr>) = elems b - {i}"
    by (auto simp: elems_def at)
  ultimately show ?thesis using step by simp
qed

lemma IsSet_ok:
  assumes "wf_bitset b" "int i < bs_n b"
  shows "IsSet b (int i) = Some (i \<in> elems b)"
  using index_in_slice [OF assms] assms(2)
  by (simp add: IsSet_def int_shr_3 and_bit_mask elems_def bit_at_def)

section \<open>The last byte\<close>

definition fresh_bitset :: "nat \<Rightarrow> bitset" where
  "fresh_bitset k = \<lparr>bs_b = replicate ((k + 7) div 8) 0, bs_n = int k,
     bs_endIndex = (if k mod 8 = 0 then -1 else int (k div 8)),
     bs_endMask = NOT (drop_bit (k mod 8) 255)\<rparr>"

lemma NewBitset_nat: "NewBitset (int k) = Some (fresh_bitset k)"
  using int_shr_3 [of "k + 7"]
  by (simp add: NewBitset_def go_make_def fresh_bitset_def int_and_7 int_shr_3)

lemma bit_endMask:
  "bit (NOT (drop_bit r 255) :: byte) j \<longleftrightarrow> j < 8 \<and> 8 \<le> j + r"
proof -
  have "bit (NOT (drop_bit r 255) :: byte) j \<longleftrightarrow> j < 8 \<and> \<not> bit (255 :: byte) (r + j)"
    by (simp only: bit_not_iff bit_drop_bit_eq o_apply possible_bit_def) auto
  then show ?thesis unfolding bit_255 by auto
qed

lemma bit_at_byte:
  "e < length bs \<Longrightarrow> t < 8 \<Longrightarrow> bit_at bs (8 * e + t) \<longleftrightarrow> bit (bs ! e) (7 - t)"
  by (simp add: bit_at_def)

lemma byte_any:
  assumes "e < length bs"
  shows "(\<exists>j. bit (bs ! e) j \<and> Q j) \<longleftrightarrow> (\<exists>t<8. bit_at bs (8 * e + t) \<and> Q (7 - t))"
proof
  assume "\<exists>j. bit (bs ! e) j \<and> Q j"
  then obtain j where j: "bit (bs ! e) j" "Q j" by blast
  then have "j < 8" using bit_imp_le_length [OF j(1)] by simp
  then show "\<exists>t<8. bit_at bs (8 * e + t) \<and> Q (7 - t)"
    using j assms bit_at_byte [OF assms, of "7 - j"] by (intro exI [of _ "7 - j"]) simp
next
  assume "\<exists>t<8. bit_at bs (8 * e + t) \<and> Q (7 - t)"
  then show "\<exists>j. bit (bs ! e) j \<and> Q j" using assms bit_at_byte by blast
qed

lemma word_nonzero: "x \<noteq> 0 \<longleftrightarrow> (\<exists>j. bit x j)" for x :: byte
  by (metis bit_0_eq bit_word_eqI bot_apply bot_bool_def)

lemma and_endMask:
  assumes "e < length bs"
  shows "bs ! e AND NOT (drop_bit r 255) \<noteq> 0 \<longleftrightarrow> (\<exists>t<8. t < r \<and> bit_at bs (8 * e + t))"
    and "bs ! e AND NOT (NOT (drop_bit r 255)) \<noteq> 0 \<longleftrightarrow>
      (\<exists>t<8. r \<le> t \<and> bit_at bs (8 * e + t))"
proof -
  have lt: "8 \<le> 7 - t + r \<longleftrightarrow> t < r" if "t < 8" for t :: nat using that by linarith
  show "bs ! e AND NOT (drop_bit r 255) \<noteq> 0 \<longleftrightarrow> (\<exists>t<8. t < r \<and> bit_at bs (8 * e + t))"
    unfolding word_nonzero bit_and_iff bit_endMask byte_any [OF assms] using lt by auto
  have n: "bit (NOT (NOT (drop_bit r 255)) :: byte) j \<longleftrightarrow> r + j < 8" for j
    by (simp only: bit.double_compl bit_drop_bit_eq o_apply bit_255)
  have ge: "r + (7 - t) < 8 \<longleftrightarrow> r \<le> t" if "t < 8" for t :: nat using that by linarith
  show "bs ! e AND NOT (NOT (drop_bit r 255)) \<noteq> 0 \<longleftrightarrow>
      (\<exists>t<8. r \<le> t \<and> bit_at bs (8 * e + t))"
    unfolding word_nonzero bit_and_iff n byte_any [OF assms] using ge by auto
qed

lemma wf_bitset_iff:
  "wf_bitset b \<longleftrightarrow>
     (\<exists>k bs. b = (fresh_bitset k)\<lparr>bs_b := bs\<rparr> \<and> length bs = (k + 7) div 8 \<and>
       (\<forall>i. bit_at bs i \<longrightarrow> i < k))" (is "?L \<longleftrightarrow> ?R")
proof
  assume w: ?L
  obtain k where k: "bs_n b = int k"
    using wf_bitset_nonneg [OF w] nonneg_int_cases by blast
  have n7: "nat (int k + 7) = k + 7" and m: "int k mod 8 = int (k mod 8)"
    and d: "int k div 8 = int (k div 8)"
    by (simp_all add: zdiv_int zmod_int)
  have pad: "i < k" if "bit_at (bs_b b) i" for i
    using w that unfolding wf_bitset_def k by (auto simp: bit_at_def)
  have e: "bs_endIndex b = (if k mod 8 = 0 then -1 else int (k div 8))"
      "bs_endMask b = NOT (drop_bit (k mod 8) 255)"
    using w unfolding wf_bitset_def k m d by simp_all
  have "b = (fresh_bitset k)\<lparr>bs_b := bs_b b\<rparr>"
    using e k by (cases b) (simp add: fresh_bitset_def)
  moreover have "length (bs_b b) = (k + 7) div 8"
    using wf_bitset_length [OF w] by (simp only: k n7)
  ultimately show ?R using pad by blast
next
  assume ?R
  then obtain k bs where b: "b = (fresh_bitset k)\<lparr>bs_b := bs\<rparr>"
    and l: "length bs = (k + 7) div 8" and pad: "\<And>i. bit_at bs i \<Longrightarrow> i < k"
    by blast
  have n7: "nat (int k + 7) = k + 7" and m: "int k mod 8 = int (k mod 8)"
    and d: "int k div 8 = int (k div 8)"
    by (simp_all add: zdiv_int zmod_int)
  show ?L unfolding wf_bitset_def b fresh_bitset_def using l pad by (simp add: n7 m d)
qed

lemma last_byte:
  fixes k :: nat assumes "k mod 8 \<noteq> 0"
  shows "(k + 7) div 8 = Suc (k div 8)"
proof -
  have gen: "(8 * q + r) div 8 = q + r div 8" for q r :: nat by simp
  have "k + 7 = 8 * (k div 8) + (k mod 8 + 7)" by simp
  then have "(k + 7) div 8 = k div 8 + (k mod 8 + 7) div 8" by (metis gen)
  moreover have "8 \<le> k mod 8 + 7 \<and> k mod 8 + 7 < 16"
    using assms mod_less_divisor [of 8 k] by linarith
  then have "(k mod 8 + 7) div 8 = 1" by (simp add: div_nat_eqI)
  ultimately show ?thesis by linarith
qed

lemma last_byte_full: "k mod 8 = 0 \<Longrightarrow> (k + 7) div 8 = k div 8" for k :: nat
  by (auto elim!: dvdE simp flip: dvd_eq_mod_eq_0)

lemma padding_bits:
  assumes "length bs = (k + 7) div 8"
  shows "(\<exists>i. bit_at bs i \<and> k \<le> i) \<longleftrightarrow>
    k mod 8 \<noteq> 0 \<and> (\<exists>t<8. k mod 8 \<le> t \<and> bit_at bs (8 * (k div 8) + t))"
proof (cases "k mod 8 = 0")
  case True
  have "i < k" if "bit_at bs i" for i
    using that assms True by (auto simp: bit_at_def last_byte_full elim!: dvdE
        simp flip: dvd_eq_mod_eq_0)
  with True show ?thesis using not_less by blast
next
  case False
  have k: "k = 8 * (k div 8) + k mod 8" by simp
  have "\<exists>t<8. k mod 8 \<le> t \<and> bit_at bs (8 * (k div 8) + t)"
    if i: "bit_at bs i" "k \<le> i" for i
  proof -
    have "i div 8 \<le> k div 8"
      using i(1) assms last_byte [OF False] by (simp add: bit_at_def)
    with div_le_mono [OF i(2), of 8] have e: "i div 8 = k div 8" by simp
    have ii: "i = 8 * (k div 8) + i mod 8" using mult_div_mod_eq [of 8 i] e by simp
    with k i(2) have "k mod 8 \<le> i mod 8" by linarith
    moreover have "i mod 8 < 8" by simp
    ultimately show ?thesis using i(1) ii by metis
  qed
  moreover have "k \<le> 8 * (k div 8) + t" if "k mod 8 \<le> t" for t
    using k that by linarith
  ultimately show ?thesis using False by blast
qed

lemma NewBitsetFromBytes_nat:
  "NewBitsetFromBytes (int k) data =
     Some (if length data = (k + 7) div 8 \<and> (\<forall>i. bit_at data i \<longrightarrow> i < k)
           then Some ((fresh_bitset k)\<lparr>bs_b := data\<rparr>) else None)"
proof (cases "length data = (k + 7) div 8")
  case False
  then show ?thesis
    by (simp add: NewBitsetFromBytes_def NewBitset_nat) (simp add: fresh_bitset_def)
next
  case True
  show ?thesis
  proof (cases "k mod 8 = 0")
    case full: True
    have "\<forall>i. bit_at data i \<longrightarrow> i < k"
      using padding_bits [OF True] full not_less by blast
    with True full show ?thesis
      by (simp add: NewBitsetFromBytes_def NewBitset_nat) (simp add: fresh_bitset_def)
  next
    case part: False
    have e: "k div 8 < length data" using True last_byte [OF part] by simp
    have "data ! (k div 8) AND NOT (NOT (drop_bit (k mod 8) 255)) \<noteq> 0 \<longleftrightarrow>
        \<not> (\<forall>i. bit_at data i \<longrightarrow> i < k)"
      using padding_bits [OF True] part and_endMask(2) [OF e] by (auto simp: not_less)
    with True part e show ?thesis
      by (simp add: NewBitsetFromBytes_def NewBitset_nat fresh_bitset_def)
  qed
qed

section \<open>Queries\<close>

lemma NewBitsetFromBytes_roundtrip:
  "wf_bitset b \<Longrightarrow> NewBitsetFromBytes (Len b) (Bytes b) = Some (Some b)"
  by (auto simp: wf_bitset_iff Len_def Bytes_def NewBitsetFromBytes_nat fresh_bitset_def)

lemma NewBitsetFromBytes_wf:
  assumes "NewBitsetFromBytes n data = Some (Some b)" "0 \<le> n"
  shows "wf_bitset b \<and> bs_n b = n \<and> Bytes b = data"
proof -
  obtain k where "n = int k" using assms(2) nonneg_int_cases by blast
  with assms(1) show ?thesis
    by (auto simp: NewBitsetFromBytes_nat wf_bitset_iff Bytes_def fresh_bitset_def
        split: if_splits)
qed

lemma IsEndValid_eq:
  assumes "wf_bitset b"
  shows "IsEndValid b =
    Some (nat (bs_n b) mod 8 = 0 \<or> (\<forall>i \<in> elems b. i < 8 * (nat (bs_n b) div 8)))"
proof -
  from assms obtain k bs where b: "b = (fresh_bitset k)\<lparr>bs_b := bs\<rparr>"
    and l: "length bs = (k + 7) div 8" and pad: "\<And>i. bit_at bs i \<Longrightarrow> i < k"
    by (auto simp: wf_bitset_iff)
  show ?thesis
  proof (cases "k mod 8 = 0")
    case True
    then show ?thesis by (simp add: b IsEndValid_def fresh_bitset_def)
  next
    case False
    have e: "k div 8 < length bs" using l last_byte [OF False] by simp
    have kk: "k = 8 * (k div 8) + k mod 8" by simp
    have "(\<exists>t<8. t < k mod 8 \<and> bit_at bs (8 * (k div 8) + t)) \<longleftrightarrow>
        (\<exists>i. bit_at bs i \<and> \<not> i < 8 * (k div 8))" (is "?A \<longleftrightarrow> ?B")
    proof
      assume ?A then show ?B by (meson not_add_less1)
    next
      assume ?B
      then obtain i where i: "bit_at bs i" "8 * (k div 8) \<le> i" by (auto simp: not_less)
      obtain t where t: "i = 8 * (k div 8) + t" using i(2) le_Suc_ex by blast
      have "t < k mod 8" using pad [OF i(1)] kk t by linarith
      moreover have "k mod 8 < 8" by simp
      ultimately show ?A using i(1) t by (meson less_trans)
    qed
    moreover have "i \<in> elems b \<longleftrightarrow> bit_at bs i" for i
      using pad by (auto simp: b elems_def fresh_bitset_def)
    ultimately show ?thesis
      using False e and_endMask(1) [OF e, of "k mod 8"]
      by (auto simp: b IsEndValid_def fresh_bitset_def)
  qed
qed

lemma FindNextSet_step:
  assumes "wf_bitset b" "int i < bs_n b"
  shows "FindNextSet b (int i) =
    (if i \<in> elems b then Some (int i) else FindNextSet b (int (Suc i)))"
    and "FindNextClear b (int i) =
    (if i \<notin> elems b then Some (int i) else FindNextClear b (int (Suc i)))"
proof -
  have at: "bs_b b ! (i div 8) AND bit_mask (int i) = 0 \<longleftrightarrow> i \<notin> elems b"
    using index_in_slice [OF assms] assms(2) by (simp add: elems_def bit_at_def and_bit_mask_0)
  show "FindNextSet b (int i) =
    (if i \<in> elems b then Some (int i) else FindNextSet b (int (Suc i)))"
    using index_in_slice [OF assms] assms(2) at
    by (subst FindNextSet.simps) (simp add: int_shr_3 add.commute)
  show "FindNextClear b (int i) =
    (if i \<notin> elems b then Some (int i) else FindNextClear b (int (Suc i)))"
    using index_in_slice [OF assms] assms(2) at
    by (subst FindNextClear.simps) (simp add: int_shr_3 add.commute)
qed

lemma FindNextSet_end: "bs_n b \<le> i \<Longrightarrow> FindNextSet b i = Some (-1)"
  and FindNextClear_end: "bs_n b \<le> i \<Longrightarrow> FindNextClear b i = Some (-1)"
  by (simp_all add: FindNextSet.simps FindNextClear.simps)

text \<open>The linear scan finds the least member at or above the start, or answers -1.\<close>

definition next_in :: "nat set \<Rightarrow> nat \<Rightarrow> nat \<Rightarrow> int" where
  "next_in A i k = (case filter (\<lambda>j. j \<in> A) [i..<k] of [] \<Rightarrow> -1 | j # _ \<Rightarrow> int j)"

lemma next_in_step: "i < k \<Longrightarrow> next_in A i k = (if i \<in> A then int i else next_in A (Suc i) k)"
  by (simp add: next_in_def upt_conv_Cons)

lemma FindNextSet_eq:
  assumes "wf_bitset b"
  shows "FindNextSet b (int i) = Some (next_in (elems b) i (nat (bs_n b)))"
    and "FindNextClear b (int i) = Some (next_in (- elems b) i (nat (bs_n b)))"
proof -
  have "FindNextSet b (int i) = Some (next_in (elems b) i (nat (bs_n b))) \<and>
    FindNextClear b (int i) = Some (next_in (- elems b) i (nat (bs_n b)))"
  proof (induction "nat (bs_n b) - i" arbitrary: i)
    case 0
    then have "bs_n b \<le> int i" by linarith
    with 0 show ?case by (simp add: FindNextSet_end FindNextClear_end next_in_def)
  next
    case (Suc d)
    then have lt: "int i < bs_n b" "i < nat (bs_n b)" by linarith+
    moreover have "d = nat (bs_n b) - Suc i" using Suc.hyps(2) by linarith
    ultimately show ?case
      using Suc.hyps(1) [of "Suc i"] FindNextSet_step [OF assms lt(1)]
      by (simp add: next_in_step)
  qed
  then show "FindNextSet b (int i) = Some (next_in (elems b) i (nat (bs_n b)))"
    and "FindNextClear b (int i) = Some (next_in (- elems b) i (nat (bs_n b)))" by blast+
qed

section \<open>The interface\<close>

text \<open>
  What the pieces, the session and the cache rely on: a fresh vector is empty, an update
  inside the range adds or removes exactly one index, a test answers membership.
\<close>

locale bit_vector =
  fixes new :: "int \<Rightarrow> 'v option"
    and put :: "'v \<Rightarrow> int \<Rightarrow> 'v option"
    and unput :: "'v \<Rightarrow> int \<Rightarrow> 'v option"
    and member :: "'v \<Rightarrow> int \<Rightarrow> bool option"
    and len :: "'v \<Rightarrow> int"
    and members :: "'v \<Rightarrow> nat set"
    and invar :: "'v \<Rightarrow> bool"
  assumes new: "0 \<le> n \<Longrightarrow> \<exists>v. new n = Some v \<and> invar v \<and> len v = n \<and> members v = {}"
    and put: "invar v \<Longrightarrow> int i < len v \<Longrightarrow>
      \<exists>v'. put v (int i) = Some v' \<and> invar v' \<and> len v' = len v \<and> members v' = insert i (members v)"
    and unput: "invar v \<Longrightarrow> int i < len v \<Longrightarrow>
      \<exists>v'. unput v (int i) = Some v' \<and> invar v' \<and> len v' = len v \<and> members v' = members v - {i}"
    and member: "invar v \<Longrightarrow> int i < len v \<Longrightarrow> member v (int i) = Some (i \<in> members v)"
    and members_bound: "invar v \<Longrightarrow> members v \<subseteq> {..<nat (len v)}"
begin

lemma finite_members: "invar v \<Longrightarrow> finite (members v)"
  using members_bound finite_subset by blast

lemma put_member:
  assumes "invar v" "int i < len v" "int j < len v" "put v (int i) = Some v'"
  shows "member v' (int j) = Some (j = i \<or> j \<in> members v)"
  using put [OF assms(1,2)] assms(3,4) by (auto simp: member)

lemma unput_member:
  assumes "invar v" "int i < len v" "int j < len v" "unput v (int i) = Some v'"
  shows "member v' (int j) = Some (j \<noteq> i \<and> j \<in> members v)"
  using unput [OF assms(1,2)] assms(3,4) by (auto simp: member)

lemma put_card:
  assumes "invar v" "int i < len v" "i \<notin> members v" "put v (int i) = Some v'"
  shows "card (members v') = Suc (card (members v))"
  using put [OF assms(1,2)] assms(3,4) by (auto simp: finite_members [OF assms(1)])

lemma full_card:
  assumes "invar v" "int (card (members v)) = len v"
  shows "members v = {..<nat (len v)}"
proof (rule card_subset_eq)
  show "members v \<subseteq> {..<nat (len v)}" using assms(1) by (rule members_bound)
  show "card (members v) = card {..<nat (len v)}" using assms(2) by simp
qed simp

end

interpretation bs: bit_vector NewBitset BSet BClear IsSet Len elems wf_bitset
proof unfold_locales
  fix n :: int assume "0 \<le> n"
  then show "\<exists>v. NewBitset n = Some v \<and> wf_bitset v \<and> Len v = n \<and> elems v = {}"
    using NewBitset_ok by (auto simp: Len_def)
next
  fix v :: bitset assume "wf_bitset v"
  show "elems v \<subseteq> {..<nat (Len v)}" by (simp add: Len_def elems_bound)
qed (simp_all add: Len_def BSet_ok BClear_ok IsSet_ok)

section \<open>Properties\<close>

text \<open>C7: Set and Clear act on the set of piece indices a bitset stands for.  In range and
  on a well-formed bitset neither panics, both keep the bitset well formed and of the same
  length, and every in-range IsSet afterwards answers membership in the set with the one
  index added (removed) and all others untouched.\<close>

theorem Set_Clear_IsSet:
  assumes "wf_bitset b" "int i < Len b"
  shows "\<exists>b1 b2. BSet b (int i) = Some b1 \<and> BClear b (int i) = Some b2 \<and>
    wf_bitset b1 \<and> wf_bitset b2 \<and> Len b1 = Len b \<and> Len b2 = Len b \<and>
    elems b1 = insert i (elems b) \<and> elems b2 = elems b - {i} \<and>
    (\<forall>j. int j < Len b \<longrightarrow> IsSet b1 (int j) = Some (j = i \<or> j \<in> elems b) \<and>
      IsSet b2 (int j) = Some (j \<noteq> i \<and> j \<in> elems b))"
  using bs.put [OF assms] bs.put_member [OF assms] bs.unput [OF assms]
    bs.unput_member [OF assms] by metis

lemma wf_fresh: "wf_bitset (fresh_bitset k)"
  using NewBitset_ok [of "int k"] by (simp add: NewBitset_nat)

theorem Set_Clear_IsSet_witness:
  "wf_bitset (fresh_bitset 10) \<and>
   (\<exists>b1. BSet (fresh_bitset 10) (int 9) = Some b1 \<and> elems b1 = insert 9 (elems (fresh_bitset 10)))"
proof -
  have l: "int 9 < Len (fresh_bitset 10)" by (simp add: Len_def fresh_bitset_def)
  show ?thesis using Set_Clear_IsSet [OF wf_fresh l] wf_fresh by blast
qed

text \<open>C8: A BITFIELD payload is accepted exactly when it has the length of the piece map and
  its spare bits are clear; what is accepted is the well-formed bitset with these bytes, so
  reading back the bytes of any well-formed bitset gives that bitset.\<close>

theorem NewBitsetFromBytes_spec:
  "NewBitsetFromBytes (int k) data =
     Some (if length data = (k + 7) div 8 \<and> (\<forall>i. bit_at data i \<longrightarrow> i < k)
           then Some ((fresh_bitset k)\<lparr>bs_b := data\<rparr>) else None) \<and>
   (wf_bitset b \<longrightarrow> NewBitsetFromBytes (Len b) (Bytes b) = Some (Some b))"
  using NewBitsetFromBytes_nat NewBitsetFromBytes_roundtrip by blast

theorem NewBitsetFromBytes_spec_witness:
  "wf_bitset (fresh_bitset 3) \<and>
   NewBitsetFromBytes (Len (fresh_bitset 3)) (Bytes (fresh_bitset 3)) = Some (Some (fresh_bitset 3))"
  using NewBitsetFromBytes_spec [of 3 "[]" "fresh_bitset 3"] wf_fresh by blast

text \<open>C9: The linear scans FindNextSet and FindNextClear terminate without a panic from
  every start index and return the least set (clear) index at or above it, or -1.\<close>

theorem FindNext_spec:
  assumes "wf_bitset b"
  shows "FindNextSet b (int i) = Some (next_in (elems b) i (nat (Len b))) \<and>
    FindNextClear b (int i) = Some (next_in (- elems b) i (nat (Len b)))"
  using FindNextSet_eq [OF assms] by (simp add: Len_def)

theorem FindNext_spec_witness:
  "FindNextClear (fresh_bitset 3) (int 1) = Some (next_in (- elems (fresh_bitset 3)) 1 3)"
  using FindNext_spec [OF wf_fresh, of 3 1] by (simp add: Len_def fresh_bitset_def)

text \<open>C10: IsEndValid does not test the spare bits.  On every well-formed bitset (whose spare
  bits are clear) it answers true only when no piece of the last partial byte is present:
  the mask is used the wrong way round compared with NewBitsetFromBytes, and a complete
  download is reported as invalid.\<close>

theorem IsEndValid_inverted:
  assumes "wf_bitset b" "nat (Len b) mod 8 \<noteq> 0"
  shows "IsEndValid b = Some (\<forall>i \<in> elems b. i < 8 * (nat (Len b) div 8))"
  using IsEndValid_eq [OF assms(1)] assms(2) by (simp add: Len_def)

theorem IsEndValid_inverted_witness:
  "\<exists>b. wf_bitset b \<and> Len b = 3 \<and> IsEndValid b = Some False"
proof -
  let ?b = "(fresh_bitset 3)\<lparr>bs_b := [128]\<rparr>"
  have pad: "i < 3" if "bit_at [128] i" for i
  proof -
    have "i < 8" and "bit (128 :: byte) (7 - i mod 8)"
      using that by (auto simp: bit_at_def div_eq_0_iff simp del: bit_numeral_word_iff)
    then show ?thesis unfolding bit_128 by simp
  qed
  have w: "wf_bitset ?b" unfolding wf_bitset_iff using pad by (intro exI) auto
  have n: "nat (Len ?b) mod 8 \<noteq> 0" by (simp add: Len_def fresh_bitset_def)
  have z: "0 \<in> elems ?b" by (simp add: elems_def fresh_bitset_def bit_at_def)
  have "IsEndValid ?b = Some False"
    using IsEndValid_inverted [OF w n] z by (auto simp: Len_def fresh_bitset_def)
  then show ?thesis using w by (intro exI [of _ ?b]) (simp add: Len_def fresh_bitset_def)
qed

text \<open>checkRange does not protect the spare bits.  Setting an index at or past the length
  but inside the last byte only logs: Set succeeds and leaves a bitset that is no longer well
  formed, so its own bytes are rejected by NewBitsetFromBytes.\<close>

theorem Set_out_of_range:
  assumes "wf_bitset b" "Len b \<le> int i" "i < 8 * length (Bytes b)"
  shows "\<exists>b'. BSet b (int i) = Some b' \<and> \<not> wf_bitset b' \<and>
    NewBitsetFromBytes (Len b') (Bytes b') = Some None"
proof -
  from assms(1) obtain k bs where b: "b = (fresh_bitset k)\<lparr>bs_b := bs\<rparr>"
    and l: "length bs = (k + 7) div 8" by (auto simp: wf_bitset_iff)
  let ?l = "bs[i div 8 := bs ! (i div 8) OR bit_mask (int i)]"
  have i8: "i div 8 < length bs" and k: "k \<le> i"
    using assms(2,3) by (auto simp: b Bytes_def Len_def fresh_bitset_def)
  have s: "BSet b (int i) = Some (b\<lparr>bs_b := ?l\<rparr>)"
    using i8 by (simp add: BSet_def int_shr_3 b)
  have "bit_at ?l i" using i8 by (simp add: bit_at_update bit_or_bit_mask)
  then have "NewBitsetFromBytes (int k) ?l = Some None"
    using k l unfolding NewBitsetFromBytes_nat by (auto simp: not_less)
  then have r: "NewBitsetFromBytes (Len (b\<lparr>bs_b := ?l\<rparr>)) (Bytes (b\<lparr>bs_b := ?l\<rparr>)) = Some None"
    by (simp add: Len_def Bytes_def b fresh_bitset_def)
  then have "\<not> wf_bitset (b\<lparr>bs_b := ?l\<rparr>)"
    using NewBitsetFromBytes_roundtrip by fastforce
  with s r show ?thesis by blast
qed

theorem Set_out_of_range_witness:
  "\<exists>b'. BSet (fresh_bitset 3) (int 5) = Some b' \<and> \<not> wf_bitset b'"
proof -
  have "Len (fresh_bitset 3) \<le> int 5" "5 < 8 * length (Bytes (fresh_bitset 3))"
    by (simp_all add: Len_def Bytes_def fresh_bitset_def)
  from Set_out_of_range [OF wf_fresh this] show ?thesis by blast
qed

end
