(* ===== verification/Cache.thy ===== *)
theory Cache
  imports Bitset
begin

text \<open>
  \<open>p2p/cache.go\<close>: the RAM cache in front of the file store.  A box holds one piece; a box is
  full, committed, or has the set of its written bytes.  Slices of the caller's buffer that a
  read could not fill are windows \<open>(c_lo, c_hi)\<close> of that buffer.  The mutex is the flag
  \<open>rc_locked\<close>: Go's \<open>RWMutex\<close> is not reentrant, so locking a locked mutex in the same
  goroutine blocks for ever.
\<close>

datatype 'a run = Ret 'a | Panics | Blocks

fun run_bind :: "'a run \<Rightarrow> ('a \<Rightarrow> 'b run) \<Rightarrow> 'b run" where
  "run_bind (Ret x) f = f x"
| "run_bind Panics f = Panics"
| "run_bind Blocks f = Blocks"

fun run_of :: "'a option \<Rightarrow> 'a run" where
  "run_of None = Panics"
| "run_of (Some x) = Ret x"

record rchunk =
  c_i :: int
  c_lo :: int
  c_hi :: int

text \<open>A chunk with its own data, as \<open>writeAt\<close> returns it.\<close>

record wchunk =
  w_i :: int
  w_data :: bytes

record ramcache =
  rc_pieceSize :: int
  rc_capacity :: u32
  rc_actualUsage :: int
  rc_atimes :: "int list"
  rc_store :: "bytes option list"
  rc_isBoxFull :: bitset
  rc_isBoxCommit :: bitset
  rc_isByteSet :: "bitset list"
  rc_torrentLength :: int
  rc_infohash :: string
  rc_locked :: bool

definition zero_bitset :: bitset where
  "zero_bitset = \<lparr>bs_b = [], bs_n = 0, bs_endIndex = 0, bs_endMask = 0\<rparr>"

text \<open>The cache \<open>NewCache\<close> builds; the provider then registers it and rebalances.\<close>

definition NewRAMCache :: "string \<Rightarrow> int \<Rightarrow> int \<Rightarrow> int \<Rightarrow> ramcache option" where
  "NewRAMCache infohash numPieces pieceSize torrentLength = do {
     atimes \<leftarrow> go_make numPieces 0;
     store \<leftarrow> go_make numPieces None;
     full \<leftarrow> NewBitset numPieces;
     commit \<leftarrow> NewBitset numPieces;
     sets \<leftarrow> go_make numPieces zero_bitset;
     Some \<lparr>rc_pieceSize = pieceSize, rc_capacity = 1, rc_actualUsage = 0, rc_atimes = atimes,
       rc_store = store, rc_isBoxFull = full, rc_isBoxCommit = commit, rc_isByteSet = sets,
       rc_torrentLength = torrentLength, rc_infohash = infohash, rc_locked = False\<rparr>
   }"

section \<open>Reading\<close>

text \<open>The byte-by-byte loop over one box; \<open>missing\<close> has the sentinel at its front.\<close>

function readBytes ::
  "bitset \<Rightarrow> bytes \<Rightarrow> bytes \<Rightarrow> int \<Rightarrow> int \<Rightarrow> int \<Rightarrow> (int \<times> int) list \<Rightarrow> (bytes \<times> int \<times> (int \<times> int) list) option"
  where
  "readBytes bits box p i j end missing =
     (if j < end then
        (case IsSet bits j of
           None \<Rightarrow> None
         | Some True \<Rightarrow>
             (case (go_index box j, go_index p i) of
                (Some x, Some _) \<Rightarrow> readBytes bits box (p[nat i := x]) (i + 1) (j + 1) end missing
              | _ \<Rightarrow> None)
         | Some False \<Rightarrow>
             (let (a, b) = last missing in
              if b = i
              then readBytes bits box p (i + 1) (j + 1) end (butlast missing @ [(a, i + 1)])
              else readBytes bits box p (i + 1) (j + 1) end (missing @ [(i, i + 1)])))
      else Some (p, i, missing))"
  by pat_completeness auto
termination by (relation "measure (\<lambda>(_, _, _, _, j, end, _). nat (end - j))") auto

declare readBytes.simps [simp del]

function readBoxes ::
  "ramcache \<Rightarrow> int \<Rightarrow> bytes \<Rightarrow> int \<Rightarrow> int \<Rightarrow> int \<Rightarrow> rchunk list \<Rightarrow> (bytes \<times> rchunk list) option"
  where
  "readBoxes r off p i boxI boxOff unf =
     (if i < int (length p) then
        (case go_index (rc_store r) boxI of
           None \<Rightarrow> None
         | Some None \<Rightarrow>
             (let end = int (length p) - i;
                  end = (if end > rc_pieceSize r - boxOff then rc_pieceSize r - boxOff else end);
                  merge = (unf \<noteq> [] \<and>
                    c_i (last unf) + (c_hi (last unf) - c_lo (last unf)) = off + i);
                  i' = (if merge then c_i (last unf) - off else i);
                  end' = (if merge then end + (c_hi (last unf) - c_lo (last unf)) else end);
                  unf' = (if merge then butlast unf else unf)
              in if 0 \<le> i' \<and> 0 \<le> end' \<and> i' + end' \<le> int (length p)
                 then readBoxes r off p (i' + end') (boxI + 1) 0
                        (unf' @ [\<lparr>c_i = off + i', c_lo = i', c_hi = i' + end'\<rparr>])
                 else None)
         | Some (Some box) \<Rightarrow>
             (case IsSet (rc_isBoxFull r) boxI of
                None \<Rightarrow> None
              | Some True \<Rightarrow>
                  (case go_slice box boxOff (int (length box)) of
                     None \<Rightarrow> None
                   | Some src \<Rightarrow>
                       readBoxes r off (take (nat i) p @ go_copy (drop (nat i) p) src)
                         (i + int (min (length p - nat i) (length src))) (boxI + 1) 0 unf)
              | Some False \<Rightarrow>
                  (let end = int (length p) - i + boxOff;
                       end = (if end > rc_pieceSize r then rc_pieceSize r else end)
                   in case go_index (rc_isByteSet r) boxI of
                        None \<Rightarrow> None
                      | Some bits \<Rightarrow>
                          (case readBytes bits box p i boxOff end [(-1, -1)] of
                             None \<Rightarrow> None
                           | Some (p', i', missing) \<Rightarrow>
                               readBoxes r off p' i' (boxI + 1) 0
                                 (unf @ map (\<lambda>(a, b). \<lparr>c_i = off + a, c_lo = a, c_hi = b\<rparr>)
                                          (tl missing))))))
      else Some (p, unf))"
  by pat_completeness auto
termination
  by (relation "measure (\<lambda>(r, _, _, _, boxI, _, _). nat (int (length (rc_store r)) - boxI))")
    (auto dest!: go_index_SomeD)

declare readBoxes.simps [simp del]

definition cache_readAt :: "ramcache \<Rightarrow> bytes \<Rightarrow> int \<Rightarrow> (bytes \<times> rchunk list) run" where
  "cache_readAt r p off =
     (if rc_locked r then Blocks
      else run_of (do {
        boxI \<leftarrow> go_div off (rc_pieceSize r);
        boxOff \<leftarrow> go_mod off (rc_pieceSize r);
        readBoxes r off p 0 boxI boxOff []
      }))"

section \<open>Writing\<close>

function setBits :: "bitset \<Rightarrow> int \<Rightarrow> int \<Rightarrow> bitset option" where
  "setBits b j end =
     (if j < end then (case BSet b j of None \<Rightarrow> None | Some b' \<Rightarrow> setBits b' (j + 1) end)
      else Some b)"
  by pat_completeness auto
termination by (relation "measure (\<lambda>(_, j, end). nat (end - j))") auto

declare setBits.simps [simp del]

text \<open>
  One round of the loop of \<open>writeAt\<close>: \<open>copyBox\<close> takes the box (a fresh one where there is
  none), copies and stamps it; \<open>markBox\<close> records the written bytes.
\<close>

definition copyBox ::
  "(int \<Rightarrow> int) \<Rightarrow> ramcache \<Rightarrow> bytes \<Rightarrow> int \<Rightarrow> int \<Rightarrow> int \<Rightarrow> (ramcache \<times> int) option" where
  "copyBox clk r p i boxI boxOff = do {
     slot \<leftarrow> go_index (rc_store r) boxI;
     (box, usage) \<leftarrow> (case slot of
        None \<Rightarrow> do { b \<leftarrow> go_make (rc_pieceSize r) 0; Some (b, rc_actualUsage r + 1) }
      | Some b \<Rightarrow> Some (b, rc_actualUsage r));
     dst \<leftarrow> go_slice box boxOff (int (length box));
     src \<leftarrow> go_slice p i (int (length p));
     store \<leftarrow> go_store (rc_store r) boxI (Some (take (nat boxOff) box @ go_copy dst src));
     atimes \<leftarrow> go_store (rc_atimes r) boxI (clk boxI);
     Some (r\<lparr>rc_store := store, rc_actualUsage := usage, rc_atimes := atimes\<rparr>,
       int (min (length dst) (length src)))
   }"

definition markBox :: "ramcache \<Rightarrow> int \<Rightarrow> int \<Rightarrow> int \<Rightarrow> ramcache option" where
  "markBox r boxI boxOff copied =
     (if copied = rc_pieceSize r then do {
        full \<leftarrow> BSet (rc_isBoxFull r) boxI;
        Some (r\<lparr>rc_isBoxFull := full\<rparr>)
      } else do {
        bits \<leftarrow> go_index (rc_isByteSet r) boxI;
        bits \<leftarrow> (if bs_n bits = 0 then NewBitset (rc_pieceSize r) else Some bits);
        bits \<leftarrow> setBits bits boxOff (boxOff + copied);
        sets \<leftarrow> go_store (rc_isByteSet r) boxI bits;
        Some (r\<lparr>rc_isByteSet := sets\<rparr>)
      })"

lemma copyBox_length:
  "copyBox clk r p i boxI boxOff = Some (r', copied) \<Longrightarrow>
   length (rc_store r') = length (rc_store r) \<and> 0 \<le> boxI \<and> boxI < int (length (rc_store r))"
  unfolding copyBox_def bind_eq_Some_conv split_beta
  by (elim exE conjE) (auto dest!: go_store_SomeD)

lemma markBox_store: "markBox r boxI boxOff copied = Some r' \<Longrightarrow> rc_store r' = rc_store r"
  unfolding markBox_def bind_eq_Some_conv by (auto split: if_splits simp: bind_eq_Some_conv)

function writeBoxes ::
  "(int \<Rightarrow> int) \<Rightarrow> ramcache \<Rightarrow> bytes \<Rightarrow> int \<Rightarrow> int \<Rightarrow> int \<Rightarrow> ramcache option" where
  "writeBoxes clk r p i boxI boxOff =
     (if i < int (length p) then
        (case copyBox clk r p i boxI boxOff of
           None \<Rightarrow> None
         | Some (r1, copied) \<Rightarrow>
             (case markBox r1 boxI boxOff copied of
                None \<Rightarrow> None
              | Some r2 \<Rightarrow> writeBoxes clk r2 p (i + copied) (boxI + 1) 0))
      else Some r)"
  by pat_completeness auto
termination
  by (relation "measure (\<lambda>(_, r, _, _, boxI, _). nat (int (length (rc_store r)) - boxI))")
    (auto dest!: copyBox_length markBox_store)

declare writeBoxes.simps [simp del]

section \<open>Committing and trimming\<close>

definition getCapacity :: "ramcache \<Rightarrow> int" where
  "getCapacity r = uint (rc_capacity r)"

definition setCapacity :: "ramcache \<Rightarrow> int \<Rightarrow> ramcache" where
  "setCapacity r capacity = r\<lparr>rc_capacity := word_of_int capacity\<rparr>"

definition removeBox :: "ramcache \<Rightarrow> int \<Rightarrow> ramcache option" where
  "removeBox r boxI = do {
     full \<leftarrow> BClear (rc_isBoxFull r) boxI;
     commit \<leftarrow> BClear (rc_isBoxCommit r) boxI;
     empty \<leftarrow> NewBitset 0;
     sets \<leftarrow> go_store (rc_isByteSet r) boxI empty;
     store \<leftarrow> go_store (rc_store r) boxI None;
     Some (r\<lparr>rc_isBoxFull := full, rc_isBoxCommit := commit, rc_isByteSet := sets,
       rc_store := store, rc_actualUsage := rc_actualUsage r - 1\<rparr>)
   }"

definition MarkCommitted :: "ramcache \<Rightarrow> int \<Rightarrow> ramcache run" where
  "MarkCommitted r piece =
     (if rc_locked r then Blocks
      else run_of (do {
        slot \<leftarrow> go_index (rc_store r) piece;
        case slot of
          None \<Rightarrow> Some r
        | Some _ \<Rightarrow> do {
            full \<leftarrow> BSet (rc_isBoxFull r) piece;
            commit \<leftarrow> BSet (rc_isBoxCommit r) piece;
            empty \<leftarrow> NewBitset 0;
            sets \<leftarrow> go_store (rc_isByteSet r) piece empty;
            Some (r\<lparr>rc_isBoxFull := full, rc_isBoxCommit := commit, rc_isByteSet := sets\<rparr>)
          }
      }))"

text \<open>The loop of \<open>trimCommitted\<close> over the \<open>k\<close> boxes from \<open>i\<close> on.\<close>

fun trimLoop :: "ramcache \<Rightarrow> int \<Rightarrow> nat \<Rightarrow> (ramcache \<times> bool) option" where
  "trimLoop r i 0 = Some (r, False)"
| "trimLoop r i (Suc k) = do {
     c \<leftarrow> IsSet (rc_isBoxCommit r) i;
     r \<leftarrow> (if c then removeBox r i else Some r);
     if rc_actualUsage r \<le> getCapacity r then Some (r, True) else trimLoop r (i + 1) k
   }"

definition trimCommitted :: "ramcache \<Rightarrow> (ramcache \<times> bool) run" where
  "trimCommitted r =
     (if rc_locked r then Blocks
      else run_of (trimLoop r 0 (nat (Len (rc_isBoxCommit r)))))"

text \<open>How many unset bytes \<open>trim\<close> skips at the front of a box and cuts from its end.\<close>

fun skipFront :: "bitset \<Rightarrow> int \<Rightarrow> nat \<Rightarrow> int \<Rightarrow> int option" where
  "skipFront bits j 0 off = Some off"
| "skipFront bits j (Suc k) off = do {
     c \<leftarrow> IsSet bits j;
     if \<not> c then skipFront bits (j + 1) k (off + 1) else Some off
   }"

fun cutEnd :: "bitset \<Rightarrow> nat \<Rightarrow> int \<Rightarrow> int option" where
  "cutEnd bits 0 e = Some e"
| "cutEnd bits (Suc j) e = do {
     c \<leftarrow> IsSet bits (int (Suc j));
     if \<not> c then cutEnd bits j (e - 1) else Some e
   }"

definition evictBox :: "ramcache \<Rightarrow> int \<Rightarrow> (ramcache \<times> wchunk) option" where
  "evictBox r deadBox = do {
     slot \<leftarrow> go_index (rc_store r) deadBox;
     let data = (case slot of None \<Rightarrow> [] | Some d \<Rightarrow> d);
     full \<leftarrow> IsSet (rc_isBoxFull r) deadBox;
     ch \<leftarrow> (if full then Some \<lparr>w_i = deadBox * rc_pieceSize r, w_data = data\<rparr>
       else do {
         bits \<leftarrow> go_index (rc_isByteSet r) deadBox;
         off \<leftarrow> skipFront bits 0 (nat (rc_pieceSize r)) 0;
         endData \<leftarrow> cutEnd bits (nat (rc_pieceSize r - 1)) (rc_pieceSize r);
         d \<leftarrow> go_slice data off endData;
         Some \<lparr>w_i = deadBox * rc_pieceSize r + off, w_data = d\<rparr>
       });
     r \<leftarrow> removeBox r deadBox;
     Some (r, ch)
   }"

fun evictBoxes :: "ramcache \<Rightarrow> (int \<times> int) list \<Rightarrow> nat \<Rightarrow> (ramcache \<times> wchunk list) option" where
  "evictBoxes r tATA 0 = Some (r, [])"
| "evictBoxes r [] (Suc k) = None"
| "evictBoxes r ((index, _) # tATA) (Suc k) = do {
     (r, ch) \<leftarrow> evictBox r index;
     (r, chs) \<leftarrow> evictBoxes r tATA k;
     Some (r, ch # chs)
   }"

text \<open>
  \<open>srt\<close> is what \<open>sort.Sort(byTime(tATA))\<close> leaves: the pairs of box index and access time in
  an order of ascending times.
\<close>

definition trim ::
  "((int \<times> int) list \<Rightarrow> (int \<times> int) list) \<Rightarrow> ramcache \<Rightarrow> (ramcache \<times> wchunk list) run" where
  "trim srt r =
     run_bind (trimCommitted r) (\<lambda>(r, under).
       if under then Ret (r, [])
       else if rc_actualUsage r < 0 then Panics
       else run_of (
         let tATA = srt (map (\<lambda>(i, atime, _). (int i, atime))
               (filter (\<lambda>(_, _, slot). slot \<noteq> None)
                  (zip [0..<length (rc_store r)] (zip (rc_atimes r) (rc_store r)))));
             deficit = rc_actualUsage r - getCapacity r
         in evictBoxes r tATA (nat deficit)))"

text \<open>\<open>writeAt\<close> holds the mutex from its first statement to its return.\<close>

definition cache_writeAt ::
  "((int \<times> int) list \<Rightarrow> (int \<times> int) list) \<Rightarrow> (int \<Rightarrow> int) \<Rightarrow> ramcache \<Rightarrow> bytes \<Rightarrow> int \<Rightarrow>
   (ramcache \<times> wchunk list) run" where
  "cache_writeAt srt clk r p off =
     (if rc_locked r then Blocks
      else run_bind (run_of (do {
          boxI \<leftarrow> go_div off (rc_pieceSize r);
          boxOff \<leftarrow> go_mod off (rc_pieceSize r);
          writeBoxes clk (r\<lparr>rc_locked := True\<rparr>) p 0 boxI boxOff
        })) (\<lambda>r.
        if rc_actualUsage r > getCapacity r
        then run_bind (trim srt r) (\<lambda>(r, chs). Ret (r\<lparr>rc_locked := False\<rparr>, chs))
        else Ret (r\<lparr>rc_locked := False\<rparr>, [])))"

end
