(* ===== verification/Paths.thy ===== *)
theory Paths
  imports Prelude
begin

text \<open>
  The lexical path functions of Go's \<open>path\<close> and \<open>path/filepath\<close> (on Unix), as the code uses
  them: \<open>Clean\<close>, \<open>Join\<close>, \<open>Split\<close>, \<open>Base\<close>, \<open>Dir\<close>, \<open>IsAbs\<close>.  Strings are character lists.
  \<open>common/config.go\<close>'s \<open>normalFile\<close> is built from them.
\<close>

abbreviation slash :: char where "slash \<equiv> CHR ''/''"

definition dot :: string where "dot = ''.''"
definition dotdot :: string where "dotdot = ''..''"

lemma dots [simp]: "dot \<noteq> []" "dotdot \<noteq> []" "dot \<noteq> dotdot" "dotdot \<noteq> dot"
  "slash \<notin> set dot" "slash \<notin> set dotdot"
  by (simp_all add: dot_def dotdot_def)

text \<open>The pieces between slashes; never empty, no piece holds a slash.\<close>

fun pieces :: "string \<Rightarrow> string list" where
  "pieces [] = [[]]"
| "pieces (c # cs) =
     (if c = slash then [] # pieces cs
      else (case pieces cs of p # ps \<Rightarrow> (c # p) # ps | [] \<Rightarrow> [[c]]))"

fun unpieces :: "string list \<Rightarrow> string" where
  "unpieces [] = []"
| "unpieces [p] = p"
| "unpieces (p # q # ps) = p @ slash # unpieces (q # ps)"

definition path_IsAbs :: "string \<Rightarrow> bool" where
  "path_IsAbs p \<longleftrightarrow> (case p of [] \<Rightarrow> False | c # _ \<Rightarrow> c = slash)"

text \<open>The stack of kept elements of \<open>Clean\<close>, newest first.\<close>

fun clean_stack :: "bool \<Rightarrow> string list \<Rightarrow> string list \<Rightarrow> string list" where
  "clean_stack rooted out [] = out"
| "clean_stack rooted out (p # ps) =
     (if p = [] \<or> p = dot then clean_stack rooted out ps
      else if p = dotdot then
        (case out of
           q # out' \<Rightarrow> if q \<noteq> dotdot then clean_stack rooted out' ps
                      else clean_stack rooted (p # out) ps
         | [] \<Rightarrow> if rooted then clean_stack rooted [] ps else clean_stack rooted [p] ps)
      else clean_stack rooted (p # out) ps)"

definition path_Clean :: "string \<Rightarrow> string" where
  "path_Clean p =
     (let rooted = path_IsAbs p; body = unpieces (rev (clean_stack rooted [] (pieces p))) in
      if rooted then slash # body else if body = [] then dot else body)"

definition path_Join :: "string list \<Rightarrow> string" where
  "path_Join es = (let es' = filter (\<lambda>e. e \<noteq> []) es in
     if es' = [] then [] else path_Clean (unpieces es'))"

text \<open>Everything up to and including the last slash, and the rest.\<close>

definition path_Split :: "string \<Rightarrow> string \<times> string" where
  "path_Split p =
     (let file = rev (takeWhile (\<lambda>c. c \<noteq> slash) (rev p)) in
      (take (length p - length file) p, file))"

definition path_Dir :: "string \<Rightarrow> string" where
  "path_Dir p = path_Clean (fst (path_Split p))"

definition path_Base :: "string \<Rightarrow> string" where
  "path_Base p =
     (if p = [] then dot
      else let q = rev (dropWhile (\<lambda>c. c = slash) (rev p)) in
        if snd (path_Split q) = [] then [slash] else snd (path_Split q))"

lemma path_IsAbs_simps [simp]:
  "path_IsAbs [] = False" "path_IsAbs (c # cs) = (c = slash)"
  by (simp_all add: path_IsAbs_def)

lemma pieces_ne [simp]: "pieces p \<noteq> []"
  by (induction p) (auto split: list.splits)

lemma not_abs_dot [simp]: "\<not> path_IsAbs dot"
  by (simp add: dot_def)

lemma unpieces_pieces: "unpieces (pieces p) = p"
proof (induction p)
  case (Cons c cs)
  obtain q qs where "pieces cs = q # qs" by (cases "pieces cs") auto
  with Cons show ?case by (cases qs) auto
qed simp

lemma no_slash_pieces: "q \<in> set (pieces p) \<Longrightarrow> slash \<notin> set q"
  by (induction p arbitrary: q) (fastforce split: if_splits list.splits)+

lemma pieces_no_slash: "slash \<notin> set p \<Longrightarrow> pieces p = [p]"
  by (induction p) auto

lemma pieces_append: "slash \<notin> set p \<Longrightarrow> pieces (p @ slash # q) = p # pieces q"
  by (induction p) auto

lemma pieces_unpieces:
  "ps \<noteq> [] \<Longrightarrow> \<forall>p \<in> set ps. slash \<notin> set p \<Longrightarrow> pieces (unpieces ps) = ps"
  by (induction ps rule: unpieces.induct) (auto simp: pieces_no_slash pieces_append)

text \<open>
  What \<open>Clean\<close> keeps: no empty element, no \<open>.\<close>, and \<open>..\<close> only as a leading run of a path
  that is not rooted (so at the bottom of the stack).
\<close>

definition clean_elem :: "string \<Rightarrow> bool" where
  "clean_elem p \<longleftrightarrow> p \<noteq> [] \<and> p \<noteq> dot \<and> slash \<notin> set p"

fun clean_out :: "bool \<Rightarrow> string list \<Rightarrow> bool" where
  "clean_out rooted [] = True"
| "clean_out rooted (p # ps) \<longleftrightarrow>
     clean_elem p \<and> clean_out rooted ps \<and>
     (p = dotdot \<longrightarrow> \<not> rooted \<and> (case ps of [] \<Rightarrow> True | q # _ \<Rightarrow> q = dotdot))"

lemma clean_stack_out:
  "clean_out rooted out \<Longrightarrow> \<forall>p \<in> set ps. slash \<notin> set p \<Longrightarrow>
   clean_out rooted (clean_stack rooted out ps)"
proof (induction rooted out ps rule: clean_stack.induct)
  case (2 rooted out p ps)
  consider "p = [] \<or> p = dot" | "p = dotdot" "out = []" | q out' where "p = dotdot" "out = q # out'"
    | "p \<noteq> []" "p \<noteq> dot" "p \<noteq> dotdot" by (cases out) auto
  then show ?case
  proof cases
    case 3
    then show ?thesis using 2 by (cases "q = dotdot") (auto simp: clean_elem_def)
  qed (use 2 in \<open>auto simp: clean_elem_def\<close>)
qed simp

lemma clean_out_elem: "clean_out rooted out \<Longrightarrow> p \<in> set out \<Longrightarrow> clean_elem p"
  by (induction out) auto

lemma clean_out_tl: "clean_out rooted (a @ b) \<Longrightarrow> clean_out rooted b"
  by (induction a) auto

text \<open>A stack that is already clean is pushed back element by element.\<close>

lemma clean_stack_fix:
  "clean_out rooted (rev ps @ out) \<Longrightarrow> clean_stack rooted out ps = rev ps @ out"
proof (induction ps arbitrary: out)
  case (Cons p ps)
  then have co: "clean_out rooted (rev ps @ p # out)" by simp
  then have c: "clean_out rooted (p # out)" by (rule clean_out_tl)
  then have "p \<noteq> []" "p \<noteq> dot" by (simp_all add: clean_elem_def)
  moreover have "out = [] \<or> (\<exists>q out'. out = q # out' \<and> q = dotdot)" "\<not> rooted" if "p = dotdot"
    using c that by (cases out; simp)+
  ultimately have "clean_stack rooted out (p # ps) = clean_stack rooted (p # out) ps"
    by (cases "p = dotdot") auto
  then show ?case by (simp only: Cons.IH [OF co] rev.simps append_assoc append_Cons append_Nil)
qed simp

lemma clean_kept: "clean_out rooted (clean_stack rooted [] (pieces p))"
  by (rule clean_stack_out) (auto dest: no_slash_pieces)

lemma path_Clean_IsAbs [simp]: "path_IsAbs (path_Clean p) = path_IsAbs p"
proof -
  let ?ks = "rev (clean_stack False [] (pieces p))"
  have "\<not> path_IsAbs (unpieces ?ks)"
  proof (cases ?ks)
    case (Cons k ks)
    then have "k \<in> set (clean_stack False [] (pieces p))"
      by (metis list.set_intros(1) set_rev)
    then have "clean_elem k" using clean_kept clean_out_elem by blast
    with Cons show ?thesis
      by (cases k; cases ks) (auto simp: clean_elem_def path_IsAbs_def)
  qed simp
  then show ?thesis by (auto simp: path_Clean_def Let_def)
qed

lemma path_Clean_cong:
  "path_IsAbs a = path_IsAbs b \<Longrightarrow>
   clean_stack (path_IsAbs b) [] (pieces a) = clean_stack (path_IsAbs b) [] (pieces b) \<Longrightarrow>
   path_Clean a = path_Clean b"
  by (simp add: path_Clean_def)

lemma path_Clean_idem: "path_Clean (path_Clean p) = path_Clean p"
proof -
  let ?r = "path_IsAbs p" and ?ks = "rev (clean_stack (path_IsAbs p) [] (pieces p))"
  have co: "clean_out ?r (rev ?ks @ [])" using clean_kept by simp
  have el: "\<forall>k \<in> set ?ks. slash \<notin> set k"
    using clean_kept [of ?r p] clean_out_elem by (fastforce simp: clean_elem_def)
  have fix1: "clean_stack ?r [] ?ks = rev ?ks" using clean_stack_fix [OF co] by simp
  have pp: "pieces (unpieces ?ks) = (if ?ks = [] then [[]] else ?ks)"
    using el by (simp add: pieces_unpieces)
  have kp: "clean_stack ?r [] (pieces (unpieces ?ks)) = rev ?ks"
    using fix1 pp by (cases "?ks = []") auto
  have ne: "?ks \<noteq> [] \<Longrightarrow> unpieces ?ks \<noteq> []"
    using el co pp by (metis pieces.simps(1) clean_elem_def clean_out_elem list.set_intros(1)
        append_Nil2 set_rev)
  have kept: "clean_stack ?r [] (pieces (path_Clean p)) = rev ?ks"
  proof (cases ?r)
    case True
    then show ?thesis using kp by (simp add: path_Clean_def)
  next
    case False
    show ?thesis
    proof (cases "unpieces ?ks = []")
      case True
      then have "?ks = []" using ne by blast
      then show ?thesis using False True
        by (simp add: path_Clean_def pieces_no_slash)
    next
      case nz: False
      then show ?thesis using False kp by (simp add: path_Clean_def Let_def)
    qed
  qed
  show ?thesis by (rule path_Clean_cong) (simp_all add: kept)
qed

section \<open>normalFile\<close>

definition filepath_Abs :: "string \<Rightarrow> string \<Rightarrow> string" where
  "filepath_Abs cwd p = (if path_IsAbs p then path_Clean p else path_Join [cwd, p])"

definition normalFile :: "string \<Rightarrow> string \<Rightarrow> string" where
  "normalFile cwd dir =
     (if \<not> path_IsAbs dir then path_Clean (filepath_Abs cwd (path_Join [cwd, dir])) else dir)"

lemma path_Join_cwd_abs: "path_IsAbs cwd \<Longrightarrow> path_IsAbs (path_Join [cwd, p])"
  by (cases p; cases cwd) (auto simp: path_Join_def)

lemma normalFile_abs: "path_IsAbs cwd \<Longrightarrow> path_IsAbs (normalFile cwd dir)"
  by (simp add: normalFile_def filepath_Abs_def path_Join_cwd_abs)

lemma normalFile_rel:
  "path_IsAbs cwd \<Longrightarrow> \<not> path_IsAbs dir \<Longrightarrow> normalFile cwd dir = path_Join [cwd, dir]"
  by (simp add: normalFile_def filepath_Abs_def path_Join_cwd_abs path_Clean_idem)
    (cases cwd, auto simp: path_Join_def path_Clean_idem)

end
