(* ===== verification/FileStore.thy ===== *)
theory FileStore
  imports Cache Paths
begin

text \<open>
  \<open>p2p/file.go\<close> and \<open>p2p/osfile.go\<close>: the files of a task as one sequence of bytes.  A \<open>disk\<close>
  maps a path to the content of the file there; an \<open>osFile\<close> is its path and opens the file at
  every operation, as in the code, so two entries with one path share their bytes.  What the
  operating system answers is an \<open>fs_env\<close>.  \<open>contents\<close> is the byte list a well-formed store
  stands for; reads and writes are shown to act on it, through the interface \<open>byte_store\<close>.
\<close>

section \<open>Data (api.go, file.go)\<close>

record file_dict =
  fd_Length :: int
  fd_Path :: string
  fd_Name :: string
  fd_Sum :: bytes

record meta_info =
  mi_Length :: int
  mi_PieceLen :: int
  mi_Pieces :: bytes
  mi_Files :: "file_dict list"

type_synonym disk = "string \<Rightarrow> bytes option"

record file_entry =
  fe_length :: int
  fe_file :: string

record file_store =
  fs_offsets :: "int list"
  fs_files :: "file_entry list"
  fs_cache :: "ramcache option"

datatype io_error = Not_Exist | Negative_Offset | End_Of_File | Nonzero_Past_End
  | Mkdir_Failed | Create_Failed | Unexpected_Size | Truncate_Failed | Getwd_Failed

section \<open>One file (osfile.go)\<close>

text \<open>\<open>ReadAt\<close>: the buffer afterwards, the number of bytes read, the error.\<close>

definition osFile_ReadAt :: "disk \<Rightarrow> string \<Rightarrow> bytes \<Rightarrow> int \<Rightarrow> bytes \<times> int \<times> io_error option" where
  "osFile_ReadAt d f p off =
     (case d f of
        None \<Rightarrow> (p, 0, Some Not_Exist)
      | Some c \<Rightarrow>
          if off < 0 then (p, 0, Some Negative_Offset)
          else (let got = window c (nat off) (length p) in
            (go_copy p got, int (length got),
             if length got < length p then Some End_Of_File else None)))"

definition pad_to :: "nat \<Rightarrow> bytes \<Rightarrow> bytes" where
  "pad_to n c = c @ replicate (n - length c) 0"

definition osFile_WriteAt :: "disk \<Rightarrow> string \<Rightarrow> bytes \<Rightarrow> int \<Rightarrow> disk \<times> int \<times> io_error option" where
  "osFile_WriteAt d f p off =
     (case d f of
        None \<Rightarrow> (d, 0, Some Not_Exist)
      | Some c \<Rightarrow>
          if off < 0 then (d, 0, Some Negative_Offset)
          else if p = [] then (d, 0, None)
          else (d(f \<mapsto> patch (pad_to (nat off) c) (nat off) p), int (length p), None))"

record fs_env =
  fe_cwd :: "string option"
  fe_mkdirAll :: "string \<Rightarrow> bool"
  fe_statFails :: "string \<Rightarrow> bool" \<comment> \<open>an error other than not-exist\<close>
  fe_create :: "string \<Rightarrow> bool"
  fe_truncate :: "string \<Rightarrow> bool"

text \<open>The outer option is the panic of \<open>ensureDirectory\<close>.\<close>

definition ensureDirectory :: "fs_env \<Rightarrow> string \<Rightarrow> io_error option option" where
  "ensureDirectory e fullPath =
     (let fullPath = path_Clean fullPath;
          dir = (\<lambda>p. let base = fst (path_Split p) in
             if base = [] then None
             else Some (if fe_mkdirAll e base then None else Some Mkdir_Failed))
      in if path_IsAbs fullPath then dir fullPath
         else case fe_cwd e of
           None \<Rightarrow> Some (Some Getwd_Failed)
         | Some cwd \<Rightarrow> dir (cwd @ slash # fullPath))"

definition truncate_to :: "nat \<Rightarrow> bytes \<Rightarrow> bytes" where
  "truncate_to n c = take n (pad_to n c)"

definition ensureExists :: "fs_env \<Rightarrow> disk \<Rightarrow> string \<Rightarrow> int \<Rightarrow> (disk \<times> io_error option) option" where
  "ensureExists e d name len =
     (let trunc = (\<lambda>d c. if len \<ge> 0 \<and> fe_truncate e name
             then (d(name \<mapsto> truncate_to (nat len) c), None) else (d, Some Truncate_Failed))
      in if fe_statFails e name then None
         else case d name of
           None \<Rightarrow>
             if fe_create e name then Some (trunc (d(name \<mapsto> [])) []) else Some (d, Some Create_Failed)
         | Some c \<Rightarrow>
             if int (length c) = len then Some (d, None) else Some (trunc d c))"

definition osFs_Open :: "fs_env \<Rightarrow> disk \<Rightarrow> string list \<Rightarrow> int \<Rightarrow> (disk \<times> (io_error + string)) option" where
  "osFs_Open e d name len =
     (let fullPath = path_Join [path_Clean (path_Join name)] in
      case ensureDirectory e fullPath of
        None \<Rightarrow> None
      | Some (Some err) \<Rightarrow> Some (d, Inl err)
      | Some None \<Rightarrow>
          (case ensureExists e d fullPath len of
             None \<Rightarrow> None
           | Some (d', Some err) \<Rightarrow> Some (d', Inl err)
           | Some (d', None) \<Rightarrow> Some (d', Inr fullPath)))"

section \<open>The store (file.go)\<close>

text \<open>The loop of \<open>NewFileStore\<close>; \<open>opn\<close> is the file system's \<open>Open\<close>.\<close>

fun openFiles ::
  "(disk \<Rightarrow> string list \<Rightarrow> int \<Rightarrow> (disk \<times> (io_error + string)) option) \<Rightarrow> disk \<Rightarrow> file_dict list \<Rightarrow>
   file_store \<Rightarrow> int \<Rightarrow> (disk \<times> (io_error + (file_store \<times> int))) option" where
  "openFiles opn d [] fs totalSize = Some (d, Inr (fs, totalSize))"
| "openFiles opn d (src # srcs) fs totalSize =
     (case opn d [fd_Path src, fd_Name src] (fd_Length src) of
        None \<Rightarrow> None
      | Some (d', Inl err) \<Rightarrow> Some (d', Inl err)
      | Some (d', Inr f) \<Rightarrow>
          openFiles opn d' srcs
            (fs\<lparr>fs_files := fs_files fs @ [\<lparr>fe_length = fd_Length src, fe_file = f\<rparr>],
                fs_offsets := fs_offsets fs @ [totalSize]\<rparr>)
            (totalSize + fd_Length src))"

definition NewFileStore ::
  "(disk \<Rightarrow> string list \<Rightarrow> int \<Rightarrow> (disk \<times> (io_error + string)) option) \<Rightarrow> disk \<Rightarrow> meta_info \<Rightarrow>
   (disk \<times> (io_error + (file_store \<times> int))) option" where
  "NewFileStore opn d info =
     openFiles opn d (mi_Files info) \<lparr>fs_offsets = [], fs_files = [], fs_cache = None\<rparr> 0"

definition SetCache :: "file_store \<Rightarrow> ramcache \<Rightarrow> file_store" where
  "SetCache fs c = fs\<lparr>fs_cache := Some c\<rparr>"

function find_loop :: "int list \<Rightarrow> int \<Rightarrow> nat \<Rightarrow> nat \<Rightarrow> nat" where
  "find_loop offsets offset low high =
     (if Suc low < high then
        (let probe = (low + high) div 2 in
         if offset < offsets ! probe then find_loop offsets offset low probe
         else find_loop offsets offset probe high)
      else low)"
  by pat_completeness auto
termination by (relation "measure (\<lambda>(_, _, low, high). high - low)") auto

declare find_loop.simps [simp del]

definition fs_find :: "file_store \<Rightarrow> int \<Rightarrow> nat" where
  "fs_find fs offset = find_loop (fs_offsets fs) offset 0 (length (fs_offsets fs))"

function readFiles :: "disk \<Rightarrow> file_store \<Rightarrow> nat \<Rightarrow> bytes \<Rightarrow> int \<Rightarrow> bytes \<times> int \<times> io_error option" where
  "readFiles d fs index p off =
     (if p \<noteq> [] \<and> index < length (fs_offsets fs) then
        (let entry = fs_files fs ! index; itemOffset = off - fs_offsets fs ! index in
         if itemOffset < fe_length entry then
           (let chunk = nat (min (int (length p)) (fe_length entry - itemOffset));
                (b, nThisTime, err) = osFile_ReadAt d (fe_file entry) (take chunk p) itemOffset;
                p' = b @ drop chunk p
            in case err of
                 Some _ \<Rightarrow> (p', nThisTime, err)
               | None \<Rightarrow>
                   (let (rest, n, err') = readFiles d fs (Suc index) (drop (nat nThisTime) p')
                      (off + nThisTime)
                    in (take (nat nThisTime) p' @ rest, nThisTime + n, err')))
         else readFiles d fs (Suc index) p off)
      else (replicate (length p) 0, 0, None))"
  by pat_completeness auto
termination by (relation "measure (\<lambda>(_, fs, index, _, _). length (fs_offsets fs) - index)") auto

declare readFiles.simps [simp del]

definition RawReadAt :: "disk \<Rightarrow> file_store \<Rightarrow> bytes \<Rightarrow> int \<Rightarrow> bytes \<times> int \<times> io_error option" where
  "RawReadAt d fs p off = readFiles d fs (fs_find fs off) p off"

function writeFiles :: "disk \<Rightarrow> file_store \<Rightarrow> nat \<Rightarrow> bytes \<Rightarrow> int \<Rightarrow> disk \<times> int \<times> io_error option" where
  "writeFiles d fs index p off =
     (if p \<noteq> [] \<and> index < length (fs_offsets fs) then
        (let entry = fs_files fs ! index; itemOffset = off - fs_offsets fs ! index in
         if itemOffset < fe_length entry then
           (let chunk = nat (min (int (length p)) (fe_length entry - itemOffset));
                (d', nThisTime, err) = osFile_WriteAt d (fe_file entry) (take chunk p) itemOffset
            in case err of
                 Some _ \<Rightarrow> (d', nThisTime, err)
               | None \<Rightarrow>
                   (let (d'', n, err') = writeFiles d' fs (Suc index) (drop (nat nThisTime) p)
                      (off + nThisTime)
                    in (d'', nThisTime + n, err')))
         else writeFiles d fs (Suc index) p off)
      else if \<exists>b \<in> set p. b \<noteq> 0
        then (d, int (length (takeWhile (\<lambda>b. b = 0) p)), Some Nonzero_Past_End)
      else (d, int (length p), None))"
  by pat_completeness auto
termination by (relation "measure (\<lambda>(_, fs, index, _, _). length (fs_offsets fs) - index)") auto

declare writeFiles.simps [simp del]

definition RawWriteAt :: "disk \<Rightarrow> file_store \<Rightarrow> bytes \<Rightarrow> int \<Rightarrow> disk \<times> int \<times> io_error option" where
  "RawWriteAt d fs p off = writeFiles d fs (fs_find fs off) p off"

text \<open>Each uncached window of the buffer is read from the files; the last error is kept.\<close>

fun fillWindows :: "disk \<Rightarrow> file_store \<Rightarrow> bytes \<Rightarrow> rchunk list \<Rightarrow> io_error option \<Rightarrow> bytes \<times> io_error option" where
  "fillWindows d fs p [] retErr = (p, retErr)"
| "fillWindows d fs p (unf # unfs) retErr =
     (let lo = nat (c_lo unf); n = nat (c_hi unf - c_lo unf);
          (b, _, err) = RawReadAt d fs (window p lo n) (c_i unf)
      in fillWindows d fs (patch p lo b) unfs (case err of None \<Rightarrow> retErr | Some _ \<Rightarrow> err))"

definition fs_ReadAt :: "disk \<Rightarrow> file_store \<Rightarrow> bytes \<Rightarrow> int \<Rightarrow> (bytes \<times> int \<times> io_error option) run" where
  "fs_ReadAt d fs p off =
     (case fs_cache fs of
        None \<Rightarrow> Ret (RawReadAt d fs p off)
      | Some c \<Rightarrow> run_bind (cache_readAt c p off) (\<lambda>(p', unf).
          let (p'', retErr) = fillWindows d fs p' unf None in Ret (p'', int (length p), retErr)))"

fun writeBack :: "disk \<Rightarrow> file_store \<Rightarrow> wchunk list \<Rightarrow> disk" where
  "writeBack d fs [] = d"
| "writeBack d fs (nc # ncs) = writeBack (fst (RawWriteAt d fs (w_data nc) (w_i nc))) fs ncs"

definition fs_WriteAt ::
  "((int \<times> int) list \<Rightarrow> (int \<times> int) list) \<Rightarrow> (int \<Rightarrow> int) \<Rightarrow> disk \<Rightarrow> file_store \<Rightarrow> bytes \<Rightarrow> int \<Rightarrow>
   (disk \<times> file_store \<times> int \<times> io_error option) run" where
  "fs_WriteAt srt clk d fs p off =
     (case fs_cache fs of
        None \<Rightarrow> (let (d', n, err) = RawWriteAt d fs p off in Ret (d', fs, n, err))
      | Some c \<Rightarrow> run_bind (cache_writeAt srt clk c p off) (\<lambda>(c', need).
          Ret (writeBack d fs need, fs\<lparr>fs_cache := Some c'\<rparr>, int (length p), None)))"

definition fs_Commit :: "disk \<Rightarrow> file_store \<Rightarrow> int \<Rightarrow> bytes \<Rightarrow> int \<Rightarrow> (disk \<times> file_store) run" where
  "fs_Commit d fs pieceNum piece off =
     (case fs_cache fs of
        None \<Rightarrow> Ret (d, fs)
      | Some c \<Rightarrow>
          (case RawWriteAt d fs piece off of
             (d', _, Some _) \<Rightarrow> Ret (d', fs)
           | (d', _, None) \<Rightarrow>
               run_bind (MarkCommitted c pieceNum) (\<lambda>c'. Ret (d', fs\<lparr>fs_cache := Some c'\<rparr>))))"

section \<open>The bytes a store stands for\<close>

definition content :: "disk \<Rightarrow> file_entry \<Rightarrow> bytes" where
  "content d f = (case d (fe_file f) of None \<Rightarrow> [] | Some c \<Rightarrow> c)"

definition contents_from :: "disk \<Rightarrow> file_store \<Rightarrow> nat \<Rightarrow> bytes" where
  "contents_from d fs i = concat (map (content d) (drop i (fs_files fs)))"

definition contents :: "disk \<Rightarrow> file_store \<Rightarrow> bytes" where
  "contents d fs = contents_from d fs 0"

definition base_of :: "file_store \<Rightarrow> nat \<Rightarrow> int" where
  "base_of fs i = sum_list (map fe_length (take i (fs_files fs)))"

text \<open>
  A store that \<open>NewFileStore\<close> left: every file is there with its length, the offsets are the
  running sums, and no two entries share a file.
\<close>

definition wf_store :: "disk \<Rightarrow> file_store \<Rightarrow> bool" where
  "wf_store d fs \<longleftrightarrow>
     length (fs_offsets fs) = length (fs_files fs) \<and>
     (\<forall>i < length (fs_files fs). fs_offsets fs ! i = base_of fs i) \<and>
     (\<forall>f \<in> set (fs_files fs). \<exists>c. d (fe_file f) = Some c \<and> int (length c) = fe_length f) \<and>
     distinct (map fe_file (fs_files fs))"

lemma wf_store_entry:
  assumes "wf_store d fs" "i < length (fs_files fs)"
  shows "d (fe_file (fs_files fs ! i)) = Some (content d (fs_files fs ! i)) \<and>
    int (length (content d (fs_files fs ! i))) = fe_length (fs_files fs ! i)"
  using assms by (fastforce simp: wf_store_def content_def dest: nth_mem)

lemma contents_from_step:
  "i < length (fs_files fs) \<Longrightarrow>
   contents_from d fs i = content d (fs_files fs ! i) @ contents_from d fs (Suc i)"
  by (simp add: contents_from_def Cons_nth_drop_Suc [symmetric])

lemma contents_from_end: "length (fs_files fs) \<le> i \<Longrightarrow> contents_from d fs i = []"
  by (simp add: contents_from_def)

lemma base_of_Suc:
  "i < length (fs_files fs) \<Longrightarrow> base_of fs (Suc i) = base_of fs i + fe_length (fs_files fs ! i)"
  by (simp add: base_of_def take_Suc_conv_app_nth)

lemma base_of_0 [simp]: "base_of fs 0 = 0"
  by (simp add: base_of_def)

lemma wf_store_offsets:
  "wf_store d fs \<Longrightarrow> i < length (fs_files fs) \<Longrightarrow> fs_offsets fs ! i = base_of fs i"
  by (simp add: wf_store_def)

lemma wf_store_length: "wf_store d fs \<Longrightarrow> length (fs_offsets fs) = length (fs_files fs)"
  by (simp add: wf_store_def)

lemma contents_prefix:
  assumes "wf_store d fs" "i \<le> length (fs_files fs)"
  shows "\<exists>pre. contents d fs = pre @ contents_from d fs i \<and> int (length pre) = base_of fs i"
  using assms(2)
proof (induction i)
  case 0
  then show ?case by (simp add: contents_def)
next
  case (Suc i)
  then obtain pre where "contents d fs = pre @ contents_from d fs i" "int (length pre) = base_of fs i"
    by auto
  with Suc.prems wf_store_entry [OF assms(1), of i] show ?case
    by (intro exI [of _ "pre @ content d (fs_files fs ! i)"])
      (simp add: contents_from_step base_of_Suc)
qed

text \<open>The binary search stops at an entry that starts at or below the offset.\<close>

lemma find_loop_spec:
  "low < high \<Longrightarrow> high \<le> length offsets \<Longrightarrow> offsets ! low \<le> off \<Longrightarrow>
   find_loop offsets off low high < high \<and> offsets ! find_loop offsets off low high \<le> off"
proof (induction offsets off low high rule: find_loop.induct)
  case (1 offsets off low high)
  show ?case
  proof (cases "Suc low < high")
    case False
    with "1.prems" show ?thesis by (simp add: find_loop.simps)
  next
    case True
    then have p: "low < (low + high) div 2" "(low + high) div 2 < high" by linarith+
    show ?thesis
    proof (cases "off < offsets ! ((low + high) div 2)")
      case less: True
      have "find_loop offsets off low ((low + high) div 2) < (low + high) div 2 \<and>
          offsets ! find_loop offsets off low ((low + high) div 2) \<le> off"
        using "1.IH"(1) [OF True refl less] "1.prems" p by linarith
      with True less p show ?thesis
        by (subst (1 2) find_loop.simps) (simp add: Let_def)
    next
      case ge: False
      have "find_loop offsets off ((low + high) div 2) high < high \<and>
          offsets ! find_loop offsets off ((low + high) div 2) high \<le> off"
        using "1.IH"(2) [OF True refl ge] "1.prems" p ge by linarith
      with True ge show ?thesis
        by (subst (1 2) find_loop.simps) (simp add: Let_def)
    qed
  qed
qed

lemma fs_find_spec:
  assumes "wf_store d fs" "fs_files fs \<noteq> []" "0 \<le> off"
  shows "fs_find fs off < length (fs_files fs) \<and> base_of fs (fs_find fs off) \<le> off"
proof -
  have "0 < length (fs_offsets fs)" "fs_offsets fs ! 0 \<le> off"
    using assms wf_store_offsets [OF assms(1), of 0] by (simp_all add: wf_store_length)
  then have "fs_find fs off < length (fs_offsets fs) \<and> fs_offsets fs ! fs_find fs off \<le> off"
    unfolding fs_find_def by (intro find_loop_spec) auto
  then show ?thesis
    using wf_store_offsets [OF assms(1), of "fs_find fs off"] wf_store_length [OF assms(1)] by auto
qed

section \<open>Reads and writes act on the contents\<close>

definition read_padded :: "bytes \<Rightarrow> nat \<Rightarrow> nat \<Rightarrow> bytes" where
  "read_padded c k n = window c k n @ replicate (n - (length c - k)) 0"

lemma length_read_padded [simp]: "length (read_padded c k n) = n"
  by (simp add: read_padded_def window_def)

lemma read_padded_append_right:
  "length c \<le> k \<Longrightarrow> read_padded (c @ c') k n = read_padded c' (k - length c) n"
  by (simp add: read_padded_def window_append_right)

lemma read_padded_append_left:
  "k + n \<le> length c \<Longrightarrow> read_padded (c @ c') k n = window c k n"
  by (simp add: read_padded_def window_append_left)

lemma read_padded_cross:
  assumes "k \<le> length c" "length c \<le> k + n"
  shows "read_padded (c @ c') k n =
    window c k (length c - k) @ read_padded c' 0 (n - (length c - k))"
proof -
  have "k + n - length c = n - (length c - k)" using assms by linarith
  then show ?thesis using assms
    by (simp add: read_padded_def window_append_cross)
qed

lemma readFiles_Nil [simp]: "readFiles d fs i [] off = ([], 0, None)"
  by (simp add: readFiles.simps)

lemma readFiles_skip:
  assumes "wf_store d fs" "i < length (fs_files fs)"
    and "length (content d (fs_files fs ! i)) \<le> k"
  shows "readFiles d fs i p (base_of fs i + int k) =
    readFiles d fs (Suc i) p (base_of fs i + int k)"
proof (cases "p = []")
  case False
  then show ?thesis
    using assms wf_store_entry [OF assms(1,2)]
    by (subst readFiles.simps)
      (simp add: Let_def wf_store_length [OF assms(1)] wf_store_offsets [OF assms(1,2)])
qed simp

lemma readFiles_hit:
  assumes "wf_store d fs" "i < length (fs_files fs)" "p \<noteq> []"
    and "k < length (content d (fs_files fs ! i))"
    and "n = min (length p) (length (content d (fs_files fs ! i)) - k)"
  shows "readFiles d fs i p (base_of fs i + int k) =
    (let (rest, m, err) = readFiles d fs (Suc i) (drop n p) (base_of fs i + int k + int n)
     in (window (content d (fs_files fs ! i)) k n @ rest, int n + m, err))"
proof -
  let ?c = "content d (fs_files fs ! i)"
  have e: "d (fe_file (fs_files fs ! i)) = Some ?c" "fe_length (fs_files fs ! i) = int (length ?c)"
    using wf_store_entry [OF assms(1,2)] by simp_all
  have w: "length (window ?c k n) = n" using assms(4,5) by (simp add: window_def)
  have n: "nat (min (int (length p)) (int (length ?c) - int k)) = n"
    using assms(4,5) by (simp add: min_def) linarith
  have os: "osFile_ReadAt d (fe_file (fs_files fs ! i)) (take n p) (int k) =
      (window ?c k n, int n, None)"
    using w assms(5) by (simp add: osFile_ReadAt_def e Let_def)
  show ?thesis
    using assms(3,4) w
    by (subst readFiles.simps)
      (simp add: Let_def wf_store_length [OF assms(1)] wf_store_offsets [OF assms(1,2)]
        assms(2) e n os del: of_nat_diff)
qed

lemma readFiles_eq:
  assumes "wf_store d fs" "i \<le> length (fs_files fs)"
  shows "readFiles d fs i p (base_of fs i + int k) =
    (read_padded (contents_from d fs i) k (length p),
     int (min (length p) (length (contents_from d fs i) - k)), None)"
  using assms(2)
proof (induction "length (fs_files fs) - i" arbitrary: i k p)
  case 0
  then show ?case
    using wf_store_length [OF assms(1)]
    by (subst readFiles.simps) (simp add: contents_from_end read_padded_def window_def)
next
  case (Suc m)
  then have i: "i < length (fs_files fs)" "m = length (fs_files fs) - Suc i" by linarith+
  let ?c = "content d (fs_files fs ! i)" and ?C = "contents_from d fs (Suc i)"
  have C: "contents_from d fs i = ?c @ ?C" using i(1) by (rule contents_from_step)
  have b: "base_of fs (Suc i) = base_of fs i + int (length ?c)"
    using wf_store_entry [OF assms(1) i(1)] by (simp add: base_of_Suc i(1))
  have IH: "readFiles d fs (Suc i) q (base_of fs (Suc i) + int j) =
      (read_padded ?C j (length q), int (min (length q) (length ?C - j)), None)" for q j
    using Suc.hyps(1) [OF i(2)] i(1) by simp
  show ?case
  proof (cases "length ?c \<le> k")
    case True
    then have off: "base_of fs i + int k = base_of fs (Suc i) + int (k - length ?c)"
      by (simp add: b)
    show ?thesis
      using readFiles_skip [OF assms(1) i(1) True, of p] IH [of p "k - length ?c"] True
      by (simp add: off C read_padded_append_right)
  next
    case False
    then have k: "k < length ?c" by simp
    show ?thesis
    proof (cases "length p \<le> length ?c - k")
      case True
      then show ?thesis
        using readFiles_hit [OF assms(1) i(1) _ k, of p "length p"] k
        by (cases "p = []") (auto simp: C read_padded_append_left read_padded_def window_append_left)
    next
      case cross: False
      let ?n = "length ?c - k"
      have off: "base_of fs i + int k + int ?n = base_of fs (Suc i) + int 0"
        using k by (simp add: b)
      have "p \<noteq> []" "?n = min (length p) ?n" using cross by auto
      from readFiles_hit [OF assms(1) i(1) this(1) k this(2)] show ?thesis
        using IH [of "drop ?n p" 0] k cross
        by (simp only: off) (simp add: C read_padded_cross)
    qed
  qed
qed

lemma RawReadAt_eq:
  assumes "wf_store d fs"
  shows "RawReadAt d fs p (int off) =
    (read_padded (contents d fs) off (length p),
     int (min (length p) (length (contents d fs) - off)), None)"
proof (cases "fs_files fs = []")
  case True
  then have "readFiles d fs 0 p (int off) = (replicate (length p) 0, 0, None)"
    using wf_store_length [OF assms] by (subst readFiles.simps) simp
  moreover have "fs_find fs (int off) = 0"
    using True wf_store_length [OF assms] by (simp add: fs_find_def find_loop.simps)
  ultimately show ?thesis
    using True by (simp add: RawReadAt_def contents_def contents_from_def read_padded_def window_def)
next
  case False
  let ?i = "fs_find fs (int off)"
  have i: "?i < length (fs_files fs)" "base_of fs ?i \<le> int off"
    using fs_find_spec [OF assms False, of "int off"] by simp_all
  obtain pre where pre: "contents d fs = pre @ contents_from d fs ?i"
      "int (length pre) = base_of fs ?i"
    using contents_prefix [OF assms, of ?i] i(1) by auto
  have off: "int off = base_of fs ?i + int (off - length pre)" "length pre \<le> off"
    using i(2) pre(2) by linarith+
  show ?thesis
    using readFiles_eq [OF assms, of ?i p "off - length pre"] i(1) off
    by (simp add: RawReadAt_def pre(1) read_padded_append_right)
qed

text \<open>What the end of \<open>RawWriteAt\<close> makes of the bytes past the last file.\<close>

definition past_end :: "bytes \<Rightarrow> int \<times> io_error option" where
  "past_end q = (if \<exists>b \<in> set q. b \<noteq> 0
     then (int (length (takeWhile (\<lambda>b. b = 0) q)), Some Nonzero_Past_End)
     else (int (length q), None))"

lemma past_end_Nil [simp]: "past_end [] = (0, None)"
  by (simp add: past_end_def)

lemma writeFiles_Nil [simp]: "writeFiles d fs i [] off = (d, 0, None)"
  by (simp add: writeFiles.simps)

lemma entry_not_later:
  assumes "wf_store d fs" "i < length (fs_files fs)" "f \<in> set (drop (Suc i) (fs_files fs))"
  shows "fe_file f \<noteq> fe_file (fs_files fs ! i)"
proof -
  have "distinct (map fe_file (drop i (fs_files fs)))"
    using assms(1) by (simp add: wf_store_def distinct_drop flip: drop_map)
  then have "distinct (map fe_file (fs_files fs ! i # drop (Suc i) (fs_files fs)))"
    using Cons_nth_drop_Suc [OF assms(2)] by metis
  then show ?thesis using assms(3) by (auto dest: sym)
qed

lemma contents_from_cong:
  "\<forall>f \<in> set (drop i (fs_files fs)). d' (fe_file f) = d (fe_file f) \<Longrightarrow>
   contents_from d' fs i = contents_from d fs i"
  by (simp add: contents_from_def content_def cong: map_cong)

lemma write_entry:
  assumes "wf_store d fs" "i < length (fs_files fs)"
    and "length q = length (content d (fs_files fs ! i))"
    and "d1 = d(fe_file (fs_files fs ! i) \<mapsto> q)"
  shows "wf_store d1 fs" "content d1 (fs_files fs ! i) = q"
    "contents_from d1 fs (Suc i) = contents_from d fs (Suc i)"
proof -
  have "\<exists>c. d1 (fe_file f) = Some c \<and> int (length c) = fe_length f" if f: "f \<in> set (fs_files fs)" for f
  proof (cases "fe_file f = fe_file (fs_files fs ! i)")
    case True
    have "distinct (map fe_file (fs_files fs))" using assms(1) by (simp add: wf_store_def)
    then have "f = fs_files fs ! i"
      using True f assms(2) by (auto simp: distinct_map inj_on_def)
    then show ?thesis
      using wf_store_entry [OF assms(1,2)] by (simp add: assms(3,4))
  next
    case False
    then show ?thesis using assms(1,4) f by (simp add: wf_store_def)
  qed
  then show "wf_store d1 fs" using assms(1) by (simp add: wf_store_def)
  show "content d1 (fs_files fs ! i) = q" by (simp add: content_def assms(4))
  show "contents_from d1 fs (Suc i) = contents_from d fs (Suc i)"
    using entry_not_later [OF assms(1,2)] by (intro contents_from_cong) (simp add: assms(4))
qed

lemma writeFiles_skip:
  assumes "wf_store d fs" "i < length (fs_files fs)"
    and "length (content d (fs_files fs ! i)) \<le> k"
  shows "writeFiles d fs i p (base_of fs i + int k) =
    writeFiles d fs (Suc i) p (base_of fs i + int k)"
proof (cases "p = []")
  case False
  then show ?thesis
    using assms wf_store_entry [OF assms(1,2)]
    by (subst writeFiles.simps)
      (simp add: Let_def wf_store_length [OF assms(1)] wf_store_offsets [OF assms(1,2)])
qed simp

lemma writeFiles_hit:
  assumes "wf_store d fs" "i < length (fs_files fs)" "p \<noteq> []"
    and "k < length (content d (fs_files fs ! i))"
    and "n = min (length p) (length (content d (fs_files fs ! i)) - k)"
  shows "writeFiles d fs i p (base_of fs i + int k) =
    (let d1 = d(fe_file (fs_files fs ! i) \<mapsto> patch (content d (fs_files fs ! i)) k (take n p));
         (d', m, err) = writeFiles d1 fs (Suc i) (drop n p) (base_of fs i + int k + int n)
     in (d', int n + m, err))"
proof -
  let ?c = "content d (fs_files fs ! i)"
  have e: "d (fe_file (fs_files fs ! i)) = Some ?c" "fe_length (fs_files fs ! i) = int (length ?c)"
    using wf_store_entry [OF assms(1,2)] by simp_all
  have n: "nat (min (int (length p)) (int (length ?c) - int k)) = n"
    using assms(4,5) by (simp add: min_def) linarith
  have z: "(min (length p) (length ?c - k) = 0) = False" using assms(3,4) by simp
  have os: "osFile_WriteAt d (fe_file (fs_files fs ! i)) (take n p) (int k) =
      (d(fe_file (fs_files fs ! i) \<mapsto> patch ?c k (take n p)), int n, None)"
    using assms(4,5) by (simp add: osFile_WriteAt_def e pad_to_def z assms(3))
  show ?thesis
    using assms(3,4)
    by (subst writeFiles.simps)
      (simp add: Let_def wf_store_length [OF assms(1)] wf_store_offsets [OF assms(1,2)]
        assms(2) e n os z del: of_nat_diff)
qed

definition write_ok ::
  "disk \<Rightarrow> file_store \<Rightarrow> nat \<Rightarrow> bytes \<Rightarrow> nat \<Rightarrow> disk \<times> int \<times> io_error option \<Rightarrow> bool" where
  "write_ok d fs i p k r \<longleftrightarrow>
     (case r of (d', n, err) \<Rightarrow>
        let m = length (contents_from d fs i) - k in
        n = int (min (length p) m) + fst (past_end (drop m p)) \<and> err = snd (past_end (drop m p)) \<and>
        wf_store d' fs \<and>
        contents_from d' fs i = patch (contents_from d fs i) k (take m p) \<and>
        (\<forall>f. f \<notin> fe_file ` set (drop i (fs_files fs)) \<longrightarrow> d' f = d f))"

lemma writeFiles_ok:
  assumes "wf_store d fs" "i \<le> length (fs_files fs)"
  shows "write_ok d fs i p k (writeFiles d fs i p (base_of fs i + int k))"
  using assms
proof (induction "length (fs_files fs) - i" arbitrary: d i k p)
  case 0
  then show ?case
    using wf_store_length [OF "0.prems"(1)]
    by (subst writeFiles.simps) (auto simp: write_ok_def contents_from_end past_end_def)
next
  case (Suc m)
  then have i: "i < length (fs_files fs)" "m = length (fs_files fs) - Suc i" by linarith+
  note wf = Suc.prems(1)
  let ?f = "fs_files fs ! i"
  let ?c = "content d ?f" and ?C = "contents_from d fs (Suc i)"
  have C: "contents_from d' fs i = content d' ?f @ contents_from d' fs (Suc i)" for d'
    using i(1) by (rule contents_from_step)
  have b: "base_of fs (Suc i) = base_of fs i + int (length ?c)"
    using wf_store_entry [OF wf i(1)] by (simp add: base_of_Suc i(1))
  have IH: "wf_store d' fs \<Longrightarrow>
      write_ok d' fs (Suc i) q j (writeFiles d' fs (Suc i) q (base_of fs (Suc i) + int j))" for d' q j
    using Suc.hyps(1) [OF i(2)] i(1) by simp
  have dr: "drop i (fs_files fs) = ?f # drop (Suc i) (fs_files fs)"
    using i(1) by (simp add: Cons_nth_drop_Suc)
  have same: "content d' ?f = content d'' ?f"
    if "\<forall>f. f \<notin> fe_file ` set (drop (Suc i) (fs_files fs)) \<longrightarrow> d' f = d'' f" for d' d''
  proof -
    have "fe_file ?f \<notin> fe_file ` set (drop (Suc i) (fs_files fs))"
      using entry_not_later [OF wf i(1)] by fastforce
    then show ?thesis using that by (simp add: content_def)
  qed
  show ?case
  proof (cases "length ?c \<le> k")
    case True
    then have "base_of fs i + int k = base_of fs (Suc i) + int (k - length ?c)" by (simp add: b)
    then have eq: "writeFiles d fs i p (base_of fs i + int k) =
        writeFiles d fs (Suc i) p (base_of fs (Suc i) + int (k - length ?c))"
      using writeFiles_skip [OF wf i(1) True] by metis
    obtain d' m' err where r: "writeFiles d fs (Suc i) p (base_of fs (Suc i) + int (k - length ?c)) =
        (d', m', err)" by (metis prod_cases3)
    have ih: "write_ok d fs (Suc i) p (k - length ?c) (d', m', err)"
      using IH [OF wf, of p "k - length ?c"] r by simp
    have len: "length (?c @ ?C) - k = length ?C - (k - length ?c)" using True by simp
    have c': "content d' ?f = ?c" using ih same [of d' d] by (simp add: write_ok_def Let_def)
    show ?thesis
      using ih c' True
      unfolding eq r write_ok_def prod.case C len dr Let_def
      by (auto simp: patch_append_right)
  next
    case False
    then have k: "k < length ?c" by simp
    show ?thesis
    proof (cases "length p \<le> length ?c - k")
      case True
      let ?q = "patch ?c k p"
      have lq: "length ?q = length ?c" using True k by (simp add: length_patch)
      show ?thesis
        using writeFiles_hit [OF wf i(1) _ k, of p "length p"] True k
          write_entry [OF wf i(1) lq refl] wf
        by (cases "p = []")
          (auto simp: write_ok_def C dr Let_def patch_append_left)
    next
      case cross: False
      let ?n = "length ?c - k"
      let ?q = "patch ?c k (take ?n p)"
      let ?d = "d(fe_file ?f \<mapsto> ?q)"
      have lq: "length ?q = length ?c" using cross k by (simp add: length_patch)
      note we = write_entry [OF wf i(1) lq refl]
      have off: "base_of fs i + int k + int ?n = base_of fs (Suc i) + int 0"
        using k by (simp add: b)
      have "p \<noteq> []" "?n = min (length p) ?n" using cross by auto
      note hit = writeFiles_hit [OF wf i(1) this(1) k this(2), unfolded off Let_def]
      obtain d' m' err where r: "writeFiles ?d fs (Suc i) (drop ?n p) (base_of fs (Suc i) + int 0) =
          (d', m', err)" by (metis prod_cases3)
      have ih: "write_ok ?d fs (Suc i) (drop ?n p) 0 (d', m', err)"
        using IH [OF we(1), of "drop ?n p" 0] r by simp
      have len: "length (?c @ ?C) - k = ?n + length ?C" using k by simp
      have pt: "patch (?c @ ?C) k (take (?n + length ?C) p) = ?q @ patch ?C 0 (take (length ?C) (drop ?n p))"
        using k cross by (subst patch_append_cross) (auto simp: drop_take)
      have c': "content d' ?f = ?q"
        using ih same [of d' ?d] we(2) by (simp add: write_ok_def Let_def)
      show ?thesis
        using ih c' k cross
        unfolding hit r write_ok_def prod.case C len pt dr we(3) Let_def
        by (auto simp: add.commute)
    qed
  qed
qed

lemma RawWriteAt_ok:
  assumes "wf_store d fs"
  shows "write_ok d fs 0 p off (RawWriteAt d fs p (int off))"
proof (cases "fs_files fs = []")
  case True
  then have "writeFiles d fs 0 p (int off) = (let (n, e) = past_end p in (d, n, e))"
    using wf_store_length [OF assms] by (subst writeFiles.simps) (simp add: past_end_def)
  moreover have "fs_find fs (int off) = 0"
    using True wf_store_length [OF assms] by (simp add: fs_find_def find_loop.simps)
  ultimately show ?thesis
    using True assms
    by (simp add: RawWriteAt_def write_ok_def contents_from_def split: prod.split)
next
  case False
  let ?i = "fs_find fs (int off)"
  have i: "?i < length (fs_files fs)" "base_of fs ?i \<le> int off"
    using fs_find_spec [OF assms False, of "int off"] by simp_all
  obtain pre where pre: "contents d fs = pre @ contents_from d fs ?i"
      "int (length pre) = base_of fs ?i"
    using contents_prefix [OF assms, of ?i] i(1) by auto
  have off: "int off = base_of fs ?i + int (off - length pre)" "length pre \<le> off"
    using i(2) pre(2) by linarith+
  obtain d' n err where r: "RawWriteAt d fs p (int off) = (d', n, err)"
    by (metis prod_cases3)
  have ok: "write_ok d fs ?i p (off - length pre) (d', n, err)"
    using writeFiles_ok [OF assms, of ?i p "off - length pre"] i(1) r off(1)
    by (simp add: RawWriteAt_def)
  then have frame: "\<forall>f. f \<notin> fe_file ` set (drop ?i (fs_files fs)) \<longrightarrow> d' f = d f"
    by (simp add: write_ok_def Let_def)
  have split: "contents_from d2 fs 0 =
      concat (map (content d2) (take ?i (fs_files fs))) @ contents_from d2 fs ?i" for d2
    by (simp add: contents_from_def flip: concat_append map_append)
  have dist: "distinct (map fe_file (fs_files fs))" using assms by (simp add: wf_store_def)
  have "fe_file f \<notin> fe_file ` set (drop ?i (fs_files fs))" if f: "f \<in> set (take ?i (fs_files fs))" for f
  proof -
    have "distinct (map fe_file (take ?i (fs_files fs) @ drop ?i (fs_files fs)))" using dist by simp
    then show ?thesis using f unfolding map_append distinct_append by fastforce
  qed
  then have "map (content d') (take ?i (fs_files fs)) = map (content d) (take ?i (fs_files fs))"
    using frame by (simp add: content_def)
  then have pre': "contents_from d' fs 0 = pre @ contents_from d' fs ?i"
    using split [of d'] split [of d] pre(1) by (metis append_same_eq contents_def)
  have len: "length (pre @ contents_from d fs ?i) - off = length (contents_from d fs ?i) - (off - length pre)"
    using off(2) by simp
  have "fe_file ` set (drop ?i (fs_files fs)) \<subseteq> fe_file ` set (fs_files fs)"
    using set_drop_subset by fast
  then have all: "\<forall>f. f \<notin> fe_file ` set (drop 0 (fs_files fs)) \<longrightarrow> d' f = d f"
    using frame unfolding drop_0 by blast
  show ?thesis
    using ok off(2) all
    unfolding r write_ok_def prod.case pre' pre(1) [unfolded contents_def] len Let_def
    by (simp add: patch_append_right)
qed

section \<open>Opening the files\<close>

text \<open>\<open>fileSystemAdapter.Open\<close> of \<open>p2p/meta.go\<close>: the server's read-only file system.\<close>

definition fsAdapter_Open :: "disk \<Rightarrow> string list \<Rightarrow> int \<Rightarrow> (disk \<times> (io_error + string)) option" where
  "fsAdapter_Open d name len =
     (let f = path_Clean (path_Join name) in
      case d f of
        None \<Rightarrow> Some (d, Inl Not_Exist)
      | Some c \<Rightarrow> if int (length c) \<noteq> len then Some (d, Inl Unexpected_Size) else Some (d, Inr f))"

text \<open>What \<open>NewFileStore\<close> needs of a file system: a file it opened is there with the length
  asked for, and no other file changed.\<close>

locale file_system =
  fixes opn :: "disk \<Rightarrow> string list \<Rightarrow> int \<Rightarrow> (disk \<times> (io_error + string)) option"
  assumes opens: "opn d name len = Some (d', Inr f) \<Longrightarrow>
    (\<exists>c. d' f = Some c \<and> int (length c) = len) \<and> (\<forall>g. g \<noteq> f \<longrightarrow> d' g = d g)"
begin

lemma openFiles_prefix:
  "openFiles opn d srcs fs n = Some (d', Inr (fs', n')) \<Longrightarrow>
   \<exists>es. fs_files fs' = fs_files fs @ es \<and> map fe_length es = map fd_Length srcs"
proof (induction srcs arbitrary: d fs n)
  case (Cons src srcs)
  obtain d1 f where "openFiles opn d1 srcs
      (fs\<lparr>fs_files := fs_files fs @ [\<lparr>fe_length = fd_Length src, fe_file = f\<rparr>],
          fs_offsets := fs_offsets fs @ [n]\<rparr>) (n + fd_Length src) = Some (d', Inr (fs', n'))"
    using Cons.prems by (auto split: option.splits sum.splits)
  from Cons.IH [OF this] show ?case by auto
qed simp

lemma openFiles_wf:
  assumes "openFiles opn d srcs fs n = Some (d', Inr (fs', n'))"
    and "distinct (map fe_file (fs_files fs'))"
    and "wf_store d fs" "n = base_of fs (length (fs_files fs))"
  shows "wf_store d' fs' \<and> n' = base_of fs' (length (fs_files fs'))"
  using assms
proof (induction srcs arbitrary: d fs n)
  case (Cons src srcs)
  let ?fs = "\<lambda>f. fs\<lparr>fs_files := fs_files fs @ [\<lparr>fe_length = fd_Length src, fe_file = f\<rparr>],
      fs_offsets := fs_offsets fs @ [n]\<rparr>"
  obtain d1 f where o1: "opn d [fd_Path src, fd_Name src] (fd_Length src) = Some (d1, Inr f)"
    and rec: "openFiles opn d1 srcs (?fs f) (n + fd_Length src) = Some (d', Inr (fs', n'))"
    using Cons.prems(1) by (auto split: option.splits sum.splits)
  note op = opens [OF o1]
  have dist: "distinct (map fe_file (fs_files (?fs f)))"
    using openFiles_prefix [OF rec] Cons.prems(2) by (metis distinct_append map_append)
  then have fresh: "fe_file g \<noteq> f" if "g \<in> set (fs_files fs)" for g using that by auto
  have base: "base_of (?fs f) i = base_of fs i" if "i \<le> length (fs_files fs)" for i
    using that by (simp add: base_of_def)
  have off: "\<forall>i < length (fs_files (?fs f)). fs_offsets (?fs f) ! i = base_of (?fs f) i"
    using Cons.prems(3,4) base by (auto simp: wf_store_def nth_append less_Suc_eq)
  have "\<forall>g \<in> set (fs_files (?fs f)). \<exists>c. d1 (fe_file g) = Some c \<and> int (length c) = fe_length g"
    using op fresh Cons.prems(3) by (auto simp: wf_store_def)
  then have wf: "wf_store d1 (?fs f)"
    unfolding wf_store_def using dist off Cons.prems(3) by (auto simp: wf_store_def)
  have "n + fd_Length src = base_of (?fs f) (length (fs_files (?fs f)))"
    using Cons.prems(4) by (simp add: base_of_def)
  from Cons.IH [OF rec Cons.prems(2) wf this] show ?case .
qed simp

lemma NewFileStore_wf:
  assumes "NewFileStore opn d info = Some (d', Inr (fs, n))"
    and "distinct (map fe_file (fs_files fs))"
  shows "wf_store d' fs \<and> n = int (length (contents d' fs)) \<and>
    n = sum_list (map fd_Length (mi_Files info)) \<and> fs_cache fs = None"
proof -
  have e: "openFiles opn d (mi_Files info) \<lparr>fs_offsets = [], fs_files = [], fs_cache = None\<rparr> 0 =
      Some (d', Inr (fs, n))" using assms(1) by (simp add: NewFileStore_def)
  have wf: "wf_store d' fs" "n = base_of fs (length (fs_files fs))"
    using openFiles_wf [OF e assms(2)] by (simp_all add: wf_store_def base_of_def)
  obtain pre where "contents d' fs = pre @ contents_from d' fs (length (fs_files fs))"
      "int (length pre) = base_of fs (length (fs_files fs))"
    using contents_prefix [OF wf(1), of "length (fs_files fs)"] by auto
  then have "n = int (length (contents d' fs))" using wf(2) by (simp add: contents_from_end)
  moreover have "n = sum_list (map fd_Length (mi_Files info))"
    using openFiles_prefix [OF e] wf(2) by (auto simp: base_of_def)
  moreover have "fs_cache fs' = fs_cache fs0"
    if "openFiles opn d0 srcs fs0 n0 = Some (d1, Inr (fs', n1))" for d0 srcs fs0 n0 d1 fs' n1
    using that by (induction srcs arbitrary: d0 fs0 n0) (auto split: option.splits sum.splits)
  ultimately show ?thesis using wf(1) e by fastforce
qed

end

lemma ensureExists_ok:
  "ensureExists e d name len = Some (d', None) \<Longrightarrow>
   (\<exists>c. d' name = Some c \<and> int (length c) = len) \<and> (\<forall>g. g \<noteq> name \<longrightarrow> d' g = d g)"
  by (auto simp: ensureExists_def Let_def truncate_to_def pad_to_def
      split: if_splits option.splits)

interpretation osfs: file_system "osFs_Open e" for e
proof unfold_locales
  fix d name len d' f
  assume "osFs_Open e d name len = Some (d', Inr f)"
  then have "ensureExists e d f len = Some (d', None)"
    by (auto simp: osFs_Open_def Let_def split: option.splits)
  then show "(\<exists>c. d' f = Some c \<and> int (length c) = len) \<and> (\<forall>g. g \<noteq> f \<longrightarrow> d' g = d g)"
    by (rule ensureExists_ok)
qed

interpretation adapter: file_system fsAdapter_Open
  by unfold_locales (auto simp: fsAdapter_Open_def Let_def split: option.splits if_splits)

section \<open>The interface\<close>

text \<open>
  What the pieces and the session rely on: random access to one byte list.  A read past the
  end sees zeros; a write changes exactly its window, keeps the size, and fails when bytes
  past the end are not zero.
\<close>

locale byte_store =
  fixes rd :: "'s \<Rightarrow> bytes \<Rightarrow> int \<Rightarrow> bytes \<times> int \<times> io_error option"
    and wr :: "'s \<Rightarrow> bytes \<Rightarrow> int \<Rightarrow> 's \<times> int \<times> io_error option"
    and bytes_of :: "'s \<Rightarrow> bytes"
    and invar :: "'s \<Rightarrow> bool"
  assumes rd_eq: "invar s \<Longrightarrow>
      rd s p (int off) = (read_padded (bytes_of s) off (length p),
        int (min (length p) (length (bytes_of s) - off)), None)"
    and wr_ok: "invar s \<Longrightarrow> wr s p (int off) = (s', n, err) \<Longrightarrow>
      invar s' \<and> bytes_of s' = patch (bytes_of s) off (take (length (bytes_of s) - off) p) \<and>
      n = int (min (length p) (length (bytes_of s) - off)) +
        fst (past_end (drop (length (bytes_of s) - off) p)) \<and>
      err = snd (past_end (drop (length (bytes_of s) - off) p))"
begin

lemma wr_size:
  assumes "invar s" "wr s p (int off) = (s', n, err)"
  shows "length (bytes_of s') = length (bytes_of s)"
proof (cases "off \<le> length (bytes_of s)")
  case True
  then have "off + length (take (length (bytes_of s) - off) p) \<le> length (bytes_of s)" by auto
  then show ?thesis using wr_ok [OF assms] by (simp add: length_patch)
next
  case False
  then show ?thesis using wr_ok [OF assms] by simp
qed

lemma wr_inside:
  assumes "invar s" "off + length p \<le> length (bytes_of s)" "wr s p (int off) = (s', n, err)"
  shows "invar s' \<and> bytes_of s' = patch (bytes_of s) off p \<and> n = int (length p) \<and> err = None"
proof -
  have "length p \<le> length (bytes_of s) - off" using assms(2) by linarith
  then show ?thesis using wr_ok [OF assms(1,3)] by simp
qed

lemma read_after_write:
  assumes "invar s" "off + length p \<le> length (bytes_of s)" "wr s p (int off) = (s', n, err)"
    and "length q = length p"
  shows "rd s' q (int off) = (p, int (length p), None)"
proof -
  have w: "invar s'" "bytes_of s' = patch (bytes_of s) off p"
    using wr_inside [OF assms(1-3)] by simp_all
  have "length p \<le> length (bytes_of s) - off" using assms(2) by linarith
  then show ?thesis
    using rd_eq [OF w(1), of q off] assms(2,4)
    by (simp add: w(2) read_padded_def window_patch_same length_patch)
qed

text \<open>A write leaves every window it does not meet.\<close>

lemma window_after_write:
  assumes "invar s" "wr s p (int off) = (s', n, err)"
    and "a + m \<le> off \<or> off + length p \<le> a"
  shows "window (bytes_of s') a m = window (bytes_of s) a m"
proof (cases "off \<le> length (bytes_of s)")
  case True
  let ?q = "take (length (bytes_of s) - off) p"
  have "off + length ?q \<le> length (bytes_of s)" using True by auto
  moreover have "a + m \<le> off \<or> off + length ?q \<le> a" using assms(3) by auto
  ultimately have "window (patch (bytes_of s) off ?q) a m = window (bytes_of s) a m"
    by (rule window_patch_disjoint)
  then show ?thesis using wr_ok [OF assms(1,2)] by simp
next
  case False
  then show ?thesis using wr_ok [OF assms(1,2)] by simp
qed

end

definition st_read :: "disk \<times> file_store \<Rightarrow> bytes \<Rightarrow> int \<Rightarrow> bytes \<times> int \<times> io_error option" where
  "st_read = (\<lambda>(d, fs) p off. RawReadAt d fs p off)"

definition st_write ::
  "disk \<times> file_store \<Rightarrow> bytes \<Rightarrow> int \<Rightarrow> (disk \<times> file_store) \<times> int \<times> io_error option" where
  "st_write = (\<lambda>(d, fs) p off. let (d', n, err) = RawWriteAt d fs p off in ((d', fs), n, err))"

interpretation store: byte_store st_read st_write "\<lambda>(d, fs). contents d fs" "\<lambda>(d, fs). wf_store d fs"
proof (unfold_locales, goal_cases)
  case (1 s p off)
  then show ?case by (cases s) (simp add: st_read_def RawReadAt_eq)
next
  case (2 s p off s' n err)
  obtain d fs where s: "s = (d, fs)" by (cases s)
  obtain d' where s': "s' = (d', fs)" and w: "RawWriteAt d fs p (int off) = (d', n, err)"
    using 2(2) by (auto simp: s st_write_def Let_def split: prod.splits)
  show ?case
    using RawWriteAt_ok [of d fs p off] 2(1)
    by (simp add: s s' w write_ok_def contents_def Let_def)
qed

section \<open>Properties\<close>

text \<open>C11: Reading at any offset of a well-formed store, across file boundaries and empty files,
  fills the buffer with the bytes of the concatenated files there and with zeros past their
  end, returns no error, and reports the number of bytes that came from the files.\<close>

theorem RawReadAt_spec:
  assumes "wf_store d fs"
  shows "RawReadAt d fs p (int off) =
    (read_padded (contents d fs) off (length p),
     int (min (length p) (length (contents d fs) - off)), None)"
  using store.rd_eq [of "(d, fs)" p off] assms by (simp add: st_read_def)

definition ex_disk :: disk where
  "ex_disk = [''a'' \<mapsto> [1, 2, 3], ''b'' \<mapsto> [], ''c'' \<mapsto> [4, 5]]"

definition ex_store :: file_store where
  "ex_store = \<lparr>fs_offsets = [0, 3, 3],
     fs_files = [\<lparr>fe_length = 3, fe_file = ''a''\<rparr>, \<lparr>fe_length = 0, fe_file = ''b''\<rparr>,
       \<lparr>fe_length = 2, fe_file = ''c''\<rparr>], fs_cache = None\<rparr>"

lemma ex_wf: "wf_store ex_disk ex_store"
  by (auto simp: wf_store_def ex_disk_def ex_store_def base_of_def less_Suc_eq numeral_3_eq_3)

lemma ex_contents: "contents ex_disk ex_store = [1, 2, 3, 4, 5]"
  by (simp add: contents_def contents_from_def content_def ex_disk_def ex_store_def)

theorem RawReadAt_spec_witness:
  "RawReadAt ex_disk ex_store [9, 9, 9, 9] (int 2) = ([3, 4, 5, 0], 3, None)"
  using RawReadAt_spec [OF ex_wf, of "[9, 9, 9, 9]" 2] by (simp add: ex_contents read_padded_def window_def)

text \<open>C12: A write inside a well-formed store, whatever file boundaries it crosses, succeeds in
  full, replaces exactly its window of the concatenated bytes, keeps the store well formed and
  leaves every other file of the disk alone; reading the window back gives the bytes written.\<close>

theorem RawWriteAt_spec:
  assumes "wf_store d fs" "off + length p \<le> length (contents d fs)" "length q = length p"
  shows "\<exists>d'. RawWriteAt d fs p (int off) = (d', int (length p), None) \<and>
    wf_store d' fs \<and> contents d' fs = patch (contents d fs) off p \<and>
    (\<forall>f. f \<notin> fe_file ` set (fs_files fs) \<longrightarrow> d' f = d f) \<and>
    RawReadAt d' fs q (int off) = (p, int (length p), None)"
proof -
  obtain d' n err where w: "RawWriteAt d fs p (int off) = (d', n, err)" by (metis prod_cases3)
  have sw: "st_write (d, fs) p (int off) = ((d', fs), n, err)" by (simp add: st_write_def w)
  have fr: "\<forall>f. f \<notin> fe_file ` set (fs_files fs) \<longrightarrow> d' f = d f"
    using RawWriteAt_ok [OF assms(1), of p off] by (simp add: w write_ok_def Let_def)
  show ?thesis
    using store.wr_inside [of "(d, fs)" off p] store.read_after_write [of "(d, fs)" off p _ _ _ q]
      assms sw w fr by (auto simp: st_read_def)
qed

theorem RawWriteAt_spec_witness:
  "\<exists>d'. RawWriteAt ex_disk ex_store [7, 8] (int 2) = (d', 2, None) \<and>
    contents d' ex_store = [1, 2, 7, 8, 5]"
  using RawWriteAt_spec [OF ex_wf, of 2 "[7, 8]" "[0, 0]"] by (auto simp: ex_contents patch_def)

end
