(* ===== verification/Wire.thy ===== *)
theory Wire
  imports Prelude
begin

text \<open>
  \<open>p2p/utils.go\<close> (big-endian 32-bit integers, small helpers) and the framing of
  \<open>peerWriter\<close> and \<open>peerReader\<close> in \<open>p2p/peer.go\<close>: a message is sent as its length and its
  bytes.  A connection is the list of bytes the other side sent before it closed.  The
  locale \<open>codec\<close> is what every decoder of a stream relies on: what was encoded comes back,
  whatever bytes follow.
\<close>

section \<open>Codecs\<close>

fun decode_all :: "(bytes \<Rightarrow> ('a \<times> bytes) option) \<Rightarrow> nat \<Rightarrow> bytes \<Rightarrow> 'a list \<times> bytes" where
  "decode_all dec 0 s = ([], s)"
| "decode_all dec (Suc k) s =
     (case dec s of None \<Rightarrow> ([], s)
      | Some (x, s') \<Rightarrow> (case decode_all dec k s' of (xs, t) \<Rightarrow> (x # xs, t)))"

locale codec =
  fixes enc :: "'a \<Rightarrow> bytes"
    and dec :: "bytes \<Rightarrow> ('a \<times> bytes) option"
    and ok :: "'a \<Rightarrow> bool"
  assumes dec_enc: "ok x \<Longrightarrow> dec (enc x @ r) = Some (x, r)"
begin

lemma enc_prefix_free:
  assumes "ok x" "ok y" "enc x @ r = enc y @ s"
  shows "x = y \<and> r = s"
proof -
  have "Some (x, r) = Some (y, s)"
    using dec_enc [OF assms(1), of r] dec_enc [OF assms(2), of s] unfolding assms(3) by metis
  then show ?thesis by blast
qed

lemma enc_inj: "inj_on enc {x. ok x}"
proof (rule inj_onI)
  fix x y assume "x \<in> {x. ok x}" "y \<in> {x. ok x}" "enc x = enc y"
  then show "x = y" using enc_prefix_free [of x y "[]" "[]"] by blast
qed

lemma decode_all_enc:
  "\<forall>x \<in> set xs. ok x \<Longrightarrow> decode_all dec (length xs) (concat (map enc xs) @ r) = (xs, r)"
  by (induction xs) (auto simp: dec_enc)

end

section \<open>utils.go\<close>

text \<open>Panics where \<open>ref\<close> is shorter than \<open>current\<close>.\<close>

fun checkEqual :: "bytes \<Rightarrow> bytes \<Rightarrow> bool option" where
  "checkEqual ref [] = Some True"
| "checkEqual [] (c # cs) = None"
| "checkEqual (r # ref) (c # cs) = (if r \<noteq> c then Some False else checkEqual ref cs)"

definition min_int :: "int \<Rightarrow> int \<Rightarrow> int" where
  "min_int a b = (if a < b then a else b)"

text \<open>The four bytes \<open>binary.BigEndian.PutUint32\<close> stores, and \<open>binary.BigEndian.Uint32\<close>.\<close>

definition be32 :: "u32 \<Rightarrow> bytes" where
  "be32 n = [ucast (drop_bit 24 n), ucast (drop_bit 16 n), ucast (drop_bit 8 n), ucast n]"

definition uint32ToBytes :: "bytes \<Rightarrow> u32 \<Rightarrow> bytes option" where
  "uint32ToBytes buf n = (if length buf < 4 then None else Some (be32 n @ drop 4 buf))"

fun bytesToUint32 :: "bytes \<Rightarrow> u32 option" where
  "bytesToUint32 (b0 # b1 # b2 # b3 # _) =
     Some (ucast b3 OR push_bit 8 (ucast b2) OR push_bit 16 (ucast b1) OR push_bit 24 (ucast b0))"
| "bytesToUint32 _ = None"

text \<open>The bytes \<open>writeNBOUint32\<close> hands to its writer.\<close>

definition writeNBOUint32 :: "u32 \<Rightarrow> bytes option" where
  "writeNBOUint32 n = uint32ToBytes (replicate 4 0) n"

text \<open>\<open>io.ReadFull\<close> on the bytes still to come: fails when the stream ends too early.\<close>

definition ReadFull :: "nat \<Rightarrow> bytes \<Rightarrow> (bytes \<times> bytes) option" where
  "ReadFull k s = (if length s < k then None else Some (take k s, drop k s))"

definition readNBOUint32 :: "bytes \<Rightarrow> (u32 \<times> bytes) option" where
  "readNBOUint32 s = do {
     (buf, s') \<leftarrow> ReadFull 4 s;
     n \<leftarrow> bytesToUint32 buf;
     Some (n, s')
   }"

lemma length_be32 [simp]: "length (be32 n) = 4"
  by (simp add: be32_def)

lemma bytesToUint32_be32 [simp]: "bytesToUint32 (be32 n @ r) = Some n"
proof -
  have "ucast (ucast n :: byte) OR push_bit 8 (ucast (ucast (drop_bit 8 n) :: byte))
      OR push_bit 16 (ucast (ucast (drop_bit 16 n) :: byte))
      OR push_bit 24 (ucast (ucast (drop_bit 24 n) :: byte)) = n" (is "?l = n")
  proof (rule bit_word_eqI)
    fix k assume "k < LENGTH(32)"
    then consider "k < 8" | "8 \<le> k" "k < 16" | "16 \<le> k" "k < 24" | "24 \<le> k" "k < 32"
      by fastforce
    then show "bit ?l k = bit n k"
      by cases (auto simp: bit_or_iff bit_push_bit_iff bit_ucast_iff bit_drop_bit_eq)
  qed
  then show ?thesis by (simp add: be32_def)
qed

lemma writeNBOUint32_eq: "writeNBOUint32 n = Some (be32 n)"
  by (simp add: writeNBOUint32_def uint32ToBytes_def)

lemma readNBOUint32_be32 [simp]: "readNBOUint32 (be32 n @ r) = Some (n, r)"
  using bytesToUint32_be32 [of n "[]"] by (simp add: readNBOUint32_def ReadFull_def)

interpretation u32: codec be32 readNBOUint32 "\<lambda>_. True"
  by unfold_locales simp

lemma checkEqual_eq: "length ref = length cur \<Longrightarrow> checkEqual ref cur = Some (ref = cur)"
  by (induction ref cur rule: checkEqual.induct) auto

lemma checkEqual_panic: "checkEqual ref cur = None \<Longrightarrow> length ref < length cur"
  by (induction ref cur rule: checkEqual.induct) (auto split: if_splits)

section \<open>Framing\<close>

definition maxBlockLen :: nat where
  "maxBlockLen = 1024 * 1024 * 512"

text \<open>One message of \<open>peerWriter\<close>: \<open>writeNBOUint32(len(msg))\<close>, then the message.\<close>

definition frame :: "bytes \<Rightarrow> bytes" where
  "frame msg = be32 (word_of_nat (length msg)) @ msg"

text \<open>
  One round of the loop of \<open>peerReader\<close>: a length that cannot be read, a length above
  \<open>maxBlockLen\<close> or too few bytes leave the loop.  For a length of 0 the buffer still has
  one byte, which \<open>io.ReadFull\<close> fills from the stream.
\<close>

definition read_frame :: "bytes \<Rightarrow> (bytes \<times> bytes) option" where
  "read_frame s = do {
     (n, s1) \<leftarrow> readNBOUint32 s;
     if unat n > maxBlockLen then None
     else ReadFull (if n = 0 then 1 else unat n) s1
   }"

lemma read_frame_shorter: "read_frame s = Some (m, s') \<Longrightarrow> length s' < length s"
  by (auto simp: read_frame_def readNBOUint32_def ReadFull_def bind_eq_Some_conv split: if_splits)

text \<open>The messages put on \<open>msgChan\<close>; the final \<open>None\<close> is the \<open>nil\<close> message of the exit.\<close>

function peerReader :: "bytes \<Rightarrow> bytes option list" where
  "peerReader s =
     (case read_frame s of None \<Rightarrow> [None] | Some (msg, s') \<Rightarrow> Some msg # peerReader s')"
  by pat_completeness auto
termination by (relation "measure length") (auto dest: read_frame_shorter)

declare peerReader.simps [simp del]

definition sendable :: "bytes \<Rightarrow> bool" where
  "sendable m \<longleftrightarrow> m \<noteq> [] \<and> length m \<le> maxBlockLen"

lemma unat_length: "length m \<le> maxBlockLen \<Longrightarrow> unat (word_of_nat (length m) :: u32) = length m"
  by (simp add: maxBlockLen_def unat_of_nat take_bit_nat_eq_self)

lemma read_frame_frame:
  assumes "sendable m"
  shows "read_frame (frame m @ r) = Some (m, r)"
proof -
  have l: "length m \<le> maxBlockLen" "length m \<noteq> 0" using assms by (auto simp: sendable_def)
  have u: "unat (word_of_nat (length m) :: u32) = length m" using l(1) by (rule unat_length)
  then have "(word_of_nat (length m) :: u32) \<noteq> 0" using l(2) by (metis unat_0)
  then show ?thesis using u l by (simp add: read_frame_def frame_def ReadFull_def)
qed

interpretation fr: codec frame read_frame sendable
  by unfold_locales (rule read_frame_frame)

lemma peerReader_end: "length s < 4 \<Longrightarrow> peerReader s = [None]"
  by (simp add: peerReader.simps read_frame_def readNBOUint32_def ReadFull_def)

lemma peerReader_frames:
  "\<forall>m \<in> set ms. sendable m \<Longrightarrow>
   peerReader (concat (map frame ms) @ r) = map Some ms @ peerReader r"
  by (induction ms) (auto simp: peerReader.simps [of "frame _ @ _"] fr.dec_enc)

lemma frame_Nil: "frame [] = [0, 0, 0, 0]"
  by (simp add: frame_def be32_def)

lemma peerReader_keepalive: "peerReader (frame [] @ b # r) = Some [b] # peerReader r"
proof -
  have "read_frame (frame [] @ b # r) = Some ([b], r)"
    by (simp add: read_frame_def frame_def ReadFull_def)
  then show ?thesis by (subst peerReader.simps) simp
qed

end
