(* ===== verification/Sha1.thy ===== *)
theory Sha1
  imports Wire
begin

text \<open>
  Go's \<open>crypto/sha1\<close>, which the piece check uses: the digest of a byte list.  Only its length
  is used in proofs; the definition is complete and executable.
\<close>

definition sha1_pad :: "bytes \<Rightarrow> bytes" where
  "sha1_pad m =
     (let l = push_bit 3 (word_of_nat (length m)) :: u64 in
      m @ [128] @ replicate ((119 - length m mod 64) mod 64) 0 @
      be32 (ucast (drop_bit 32 l)) @ be32 (ucast l))"

fun words_of :: "bytes \<Rightarrow> u32 list" where
  "words_of (b0 # b1 # b2 # b3 # bs) =
     (ucast b3 OR push_bit 8 (ucast b2) OR push_bit 16 (ucast b1) OR push_bit 24 (ucast b0))
       # words_of bs"
| "words_of _ = []"

fun blocks_of :: "nat \<Rightarrow> u32 list \<Rightarrow> u32 list list" where
  "blocks_of 0 ws = []"
| "blocks_of (Suc k) ws = take 16 ws # blocks_of k (drop 16 ws)"

text \<open>The message schedule, newest word first.\<close>

fun schedule :: "nat \<Rightarrow> u32 list \<Rightarrow> u32 list" where
  "schedule 0 ws = ws"
| "schedule (Suc k) ws =
     schedule k (word_rotl 1 (ws ! 2 XOR ws ! 7 XOR ws ! 13 XOR ws ! 15) # ws)"

type_synonym sha_state = "u32 \<times> u32 \<times> u32 \<times> u32 \<times> u32"

definition sha1_f :: "nat \<Rightarrow> u32 \<Rightarrow> u32 \<Rightarrow> u32 \<Rightarrow> u32 \<times> u32" where
  "sha1_f t b c d =
     (if t < 20 then ((b AND c) OR (NOT b AND d), 0x5A827999)
      else if t < 40 then (b XOR c XOR d, 0x6ED9EBA1)
      else if t < 60 then ((b AND c) OR (b AND d) OR (c AND d), 0x8F1BBCDC)
      else (b XOR c XOR d, 0xCA62C1D6))"

fun sha1_rounds :: "nat \<Rightarrow> u32 list \<Rightarrow> sha_state \<Rightarrow> sha_state" where
  "sha1_rounds t [] st = st"
| "sha1_rounds t (w # ws) (a, b, c, d, e) =
     (let (f, k) = sha1_f t b c d in
      sha1_rounds (Suc t) ws (word_rotl 5 a + f + e + k + w, a, word_rotl 30 b, c, d))"

definition sha1_block :: "sha_state \<Rightarrow> u32 list \<Rightarrow> sha_state" where
  "sha1_block = (\<lambda>(h0, h1, h2, h3, h4) blk.
     let (a, b, c, d, e) = sha1_rounds 0 (rev (schedule 64 (rev blk))) (h0, h1, h2, h3, h4)
     in (h0 + a, h1 + b, h2 + c, h3 + d, h4 + e))"

definition sha1_init :: sha_state where
  "sha1_init = (0x67452301, 0xEFCDAB89, 0x98BADCFE, 0x10325476, 0xC3D2E1F0)"

definition sha1 :: "bytes \<Rightarrow> bytes" where
  "sha1 m =
     (let p = sha1_pad m;
          (h0, h1, h2, h3, h4) = foldl sha1_block sha1_init (blocks_of (length p div 64) (words_of p))
      in be32 h0 @ be32 h1 @ be32 h2 @ be32 h3 @ be32 h4)"

definition sha1_Size :: nat where
  "sha1_Size = 20"

lemma length_sha1 [simp]: "length (sha1 m) = sha1_Size"
  by (simp add: sha1_def sha1_Size_def Let_def split: prod.split)

end
