(* ===== verification/Piece.thy ===== *)
theory Piece
  imports FileStore Sha1 "HOL-Library.Multiset"
begin

text \<open>
  \<open>p2p/piece.go\<close>: cutting the bytes of a task into pieces, their SHA-1 sums, and the choice of
  the blocks of a piece being downloaded.  \<open>computeSums\<close> hashes in parallel goroutines: the
  order in which results arrive is the argument \<open>order\<close>, a rearrangement of the chunks.
\<close>

definition standardBlockLen :: int where
  "standardBlockLen = 1024 * 1024 * 256"

definition countPieces :: "int \<Rightarrow> int \<Rightarrow> (int \<times> int) option" where
  "countPieces totalSize pieceLen = do {
     totalPieces \<leftarrow> go_div totalSize pieceLen;
     lastPieceLength \<leftarrow> go_mod totalSize pieceLen;
     Some (if lastPieceLength = 0 then (totalPieces, pieceLen) else (totalPieces + 1, lastPieceLength))
   }"

section \<open>Sums\<close>

text \<open>The buffer for piece \<open>i\<close>: the last piece is cut to the end of the data.\<close>

definition pieceBuffer :: "int \<Rightarrow> int \<Rightarrow> int \<Rightarrow> int \<Rightarrow> bytes option" where
  "pieceBuffer totalLength pieceLength numPieces i = do {
     piece \<leftarrow> go_make pieceLength 0;
     if i = numPieces - 1 then go_slice piece 0 (totalLength - i * pieceLength) else Some piece
   }"

definition numPieces :: "int \<Rightarrow> int \<Rightarrow> int option" where
  "numPieces totalLength pieceLength = go_div (totalLength + pieceLength - 1) pieceLength"

text \<open>The reading goroutine: every piece in order, read errors ignored.\<close>

fun readPieces :: "disk \<Rightarrow> file_store \<Rightarrow> int \<Rightarrow> int \<Rightarrow> int \<Rightarrow> int list \<Rightarrow> (int \<times> bytes) list run" where
  "readPieces d fs totalLength pieceLength num [] = Ret []"
| "readPieces d fs totalLength pieceLength num (i # is) =
     run_bind (run_of (pieceBuffer totalLength pieceLength num i)) (\<lambda>piece.
     run_bind (fs_ReadAt d fs piece (i * pieceLength)) (\<lambda>(piece, _, _).
     run_bind (readPieces d fs totalLength pieceLength num is) (\<lambda>rest.
     Ret ((i, piece) # rest))))"

text \<open>\<open>copy(sums[h.i*sha1.Size:], h.data)\<close> for every result that arrives.\<close>

fun mergeSums :: "bytes \<Rightarrow> (int \<times> bytes) list \<Rightarrow> bytes option" where
  "mergeSums sums [] = Some sums"
| "mergeSums sums ((i, data) # rs) =
     (let k = i * int sha1_Size in
      case go_slice sums k (int (length sums)) of
        None \<Rightarrow> None
      | Some dst \<Rightarrow> mergeSums (take (nat k) sums @ go_copy dst data) rs)"

definition hashPiece :: "int \<times> bytes \<Rightarrow> int \<times> bytes" where
  "hashPiece = (\<lambda>(i, data). (i, sha1 data))"

definition computeSums ::
  "((int \<times> bytes) list \<Rightarrow> (int \<times> bytes) list) \<Rightarrow> disk \<Rightarrow> file_store \<Rightarrow> int \<Rightarrow> int \<Rightarrow> bytes run" where
  "computeSums order d fs totalLength pieceLength =
     run_bind (run_of (numPieces totalLength pieceLength)) (\<lambda>num.
     run_bind (readPieces d fs totalLength pieceLength num (map int [0..<nat num])) (\<lambda>chunks.
     run_of (do {
       sums \<leftarrow> go_make (int sha1_Size * num) 0;
       mergeSums sums (order (map hashPiece chunks))
     })))"

datatype piece_error = Incorrect_Pieces_Length int int | Read_Error io_error | Sum_Mismatch

fun checkSums :: "bytes \<Rightarrow> bytes \<Rightarrow> int list \<Rightarrow> int \<times> int \<times> bitset \<Rightarrow> (int \<times> int \<times> bitset) option" where
  "checkSums ref sums [] acc = Some acc"
| "checkSums ref sums (i # is) (good, bad, goodBits) = do {
     r \<leftarrow> go_slice ref (i * int sha1_Size) (i * int sha1_Size + int sha1_Size);
     c \<leftarrow> go_slice sums (i * int sha1_Size) (i * int sha1_Size + int sha1_Size);
     eq \<leftarrow> checkEqual r c;
     if eq then do { b \<leftarrow> BSet goodBits i; checkSums ref sums is (good + 1, bad, b) }
     else checkSums ref sums is (good, bad + 1, goodBits)
   }"

definition checkPieces ::
  "((int \<times> bytes) list \<Rightarrow> (int \<times> bytes) list) \<Rightarrow> disk \<Rightarrow> file_store \<Rightarrow> int \<Rightarrow> meta_info \<Rightarrow>
   (int \<times> int \<times> bitset \<times> piece_error option) run" where
  "checkPieces order d fs totalLength m =
     run_bind (run_of (do {
         (totalPieces, _) \<leftarrow> countPieces totalLength (mi_PieceLen m);
         goodBits \<leftarrow> NewBitset totalPieces;
         Some (totalPieces, goodBits)
       })) (\<lambda>(totalPieces, goodBits).
     let refLen = int (length (mi_Pieces m)) in
     if refLen \<noteq> totalPieces * int sha1_Size
     then Ret (0, 0, goodBits, Some (Incorrect_Pieces_Length (totalPieces * int sha1_Size) refLen))
     else
       run_bind (computeSums order d fs totalLength (mi_PieceLen m)) (\<lambda>currentSums.
       run_bind (run_of (checkSums (mi_Pieces m) currentSums (map int [0..<nat totalPieces])
           (0, 0, goodBits))) (\<lambda>(good, bad, goodBits). Ret (good, bad, goodBits, None))))"

definition computePieceSum ::
  "disk \<Rightarrow> file_store \<Rightarrow> int \<Rightarrow> int \<Rightarrow> int \<Rightarrow> (bytes \<times> bytes \<times> io_error option) run" where
  "computePieceSum d fs totalLength pieceLength pieceIndex =
     run_bind (run_of (do {
         num \<leftarrow> numPieces totalLength pieceLength;
         pieceBuffer totalLength pieceLength num pieceIndex
       })) (\<lambda>piece.
     run_bind (fs_ReadAt d fs piece (pieceIndex * pieceLength)) (\<lambda>(piece, _, err).
     Ret (case err of Some e \<Rightarrow> ([], piece, err) | None \<Rightarrow> (sha1 piece, piece, None))))"

definition checkPiece ::
  "disk \<Rightarrow> file_store \<Rightarrow> int \<Rightarrow> meta_info \<Rightarrow> int \<Rightarrow> (bool \<times> bytes \<times> piece_error option) run" where
  "checkPiece d fs totalLength m pieceIndex =
     run_bind (computePieceSum d fs totalLength (mi_PieceLen m) pieceIndex) (\<lambda>(currentSum, piece, err).
     case err of
       Some e \<Rightarrow> Ret (False, piece, Some (Read_Error e))
     | None \<Rightarrow> run_of (do {
         refSha1 \<leftarrow> go_slice (mi_Pieces m) (pieceIndex * int sha1_Size)
           (pieceIndex * int sha1_Size + int sha1_Size);
         good \<leftarrow> checkEqual refSha1 currentSum;
         Some (good, piece, if \<not> good then Some Sum_Mismatch else None)
       }))"

section \<open>The blocks of an active piece\<close>

record active_piece =
  ap_downloaderCount :: "int list" \<comment> \<open>-1: the block is already downloaded\<close>
  ap_pieceLength :: int

definition NewActivePiece :: "int \<Rightarrow> active_piece option" where
  "NewActivePiece pieceLength = do {
     pieceCount \<leftarrow> go_div (pieceLength + standardBlockLen - 1) standardBlockLen;
     counts \<leftarrow> go_make pieceCount 0;
     Some \<lparr>ap_downloaderCount = counts, ap_pieceLength = pieceLength\<rparr>
   }"

fun firstZero :: "nat \<Rightarrow> int list \<Rightarrow> nat option" where
  "firstZero i [] = None"
| "firstZero i (v # vs) = (if v = 0 then Some i else firstZero (Suc i) vs)"

definition chooseBlockToDownloadNormal :: "active_piece \<Rightarrow> active_piece \<times> int" where
  "chooseBlockToDownloadNormal a =
     (case firstZero 0 (ap_downloaderCount a) of
        None \<Rightarrow> (a, -1)
      | Some i \<Rightarrow>
          (a\<lparr>ap_downloaderCount := (ap_downloaderCount a)[i := ap_downloaderCount a ! i + 1]\<rparr>, int i))"

fun leastCount :: "nat \<Rightarrow> int list \<Rightarrow> int \<Rightarrow> int \<Rightarrow> int" where
  "leastCount i [] index minCount = index"
| "leastCount i (v # vs) index minCount =
     (if v \<ge> 0 \<and> (minCount = -1 \<or> minCount > v) then leastCount (Suc i) vs (int i) v
      else leastCount (Suc i) vs index minCount)"

definition chooseBlockToDownloadEndgame :: "active_piece \<Rightarrow> active_piece \<times> int" where
  "chooseBlockToDownloadEndgame a =
     (let index = leastCount 0 (ap_downloaderCount a) (-1) (-1) in
      if index > -1
      then (a\<lparr>ap_downloaderCount :=
              (ap_downloaderCount a)[nat index := ap_downloaderCount a ! nat index + 1]\<rparr>, index)
      else (a, index))"

definition chooseBlockToDownload :: "active_piece \<Rightarrow> bool \<Rightarrow> active_piece \<times> int" where
  "chooseBlockToDownload a endgame =
     (if endgame then chooseBlockToDownloadEndgame a else chooseBlockToDownloadNormal a)"

definition ap_recordBlock :: "active_piece \<Rightarrow> int \<Rightarrow> (active_piece \<times> int) option" where
  "ap_recordBlock a index = do {
     requestCount \<leftarrow> go_index (ap_downloaderCount a) index;
     counts \<leftarrow> go_store (ap_downloaderCount a) index (-1);
     Some (a\<lparr>ap_downloaderCount := counts\<rparr>, requestCount)
   }"

fun allDone :: "int list \<Rightarrow> bool" where
  "allDone [] = True"
| "allDone (v # vs) = (if v \<noteq> -1 then False else allDone vs)"

definition isComplete :: "active_piece \<Rightarrow> bool" where
  "isComplete a = allDone (ap_downloaderCount a)"

section \<open>The pieces of a byte list\<close>

definition piece_count :: "nat \<Rightarrow> nat \<Rightarrow> nat" where
  "piece_count l P = (l + P - 1) div P"

definition piece_bytes :: "bytes \<Rightarrow> nat \<Rightarrow> nat \<Rightarrow> bytes" where
  "piece_bytes bs P i = window bs (i * P) P"

definition piece_sums :: "bytes \<Rightarrow> nat \<Rightarrow> bytes" where
  "piece_sums bs P = concat (map (\<lambda>i. sha1 (piece_bytes bs P i)) [0..<piece_count (length bs) P])"

lemma piece_count_less:
  assumes "0 < P"
  shows "i < piece_count l P \<longleftrightarrow> i * P < l"
proof -
  have "i < (l + P - 1) div P \<longleftrightarrow> Suc i * P \<le> l + P - 1"
    using assms by (metis Suc_le_eq less_eq_div_iff_mult_less_eq)
  also have "\<dots> \<longleftrightarrow> i * P < l" using assms by auto
  finally show ?thesis by (simp add: piece_count_def)
qed

lemma length_piece_bytes: "length (piece_bytes bs P i) = min P (length bs - i * P)"
  by (simp add: piece_bytes_def window_def min.commute)

lemma piece_count_last:
  assumes "0 < P" "0 < l"
  shows "l - (piece_count l P - 1) * P = (if l mod P = 0 then P else l mod P)"
    and "piece_count l P = l div P + (if l mod P = 0 then 0 else 1)"
proof -
  have l: "l = l div P * P + l mod P" by simp
  have m: "l mod P < P" using assms by simp
  have "(l + P - 1) div P = l div P + (l mod P + P - 1) div P"
  proof -
    have "l + P - 1 = l div P * P + (l mod P + P - 1)" using assms l by linarith
    then have "(l + P - 1) div P = (l div P * P + (l mod P + P - 1)) div P" by simp
    also have "\<dots> = l div P + (l mod P + P - 1) div P"
      using assms(1) by (metis add.commute div_mult_self3 less_irrefl)
    finally show ?thesis .
  qed
  moreover have "(l mod P + P - 1) div P = (if l mod P = 0 then 0 else 1)"
  proof (cases "l mod P = 0")
    case False
    then have e: "l mod P + P - 1 = (l mod P - 1) + P" and s: "l mod P - 1 < P" using m by linarith+
    have "(l mod P + P - 1) div P = (l mod P - 1) div P + 1"
      using assms(1) unfolding e by (subst div_add_self2) simp_all
    then show ?thesis using False s by simp
  qed (use assms in simp)
  ultimately show c: "piece_count l P = l div P + (if l mod P = 0 then 0 else 1)"
    by (simp add: piece_count_def)
  show "l - (piece_count l P - 1) * P = (if l mod P = 0 then P else l mod P)"
  proof (cases "l mod P = 0")
    case True
    then have "0 < l div P" using l assms by (metis add.right_neutral gr0I mult_0)
    then obtain k where k: "l div P = Suc k" by (metis Suc_pred)
    have "l = Suc k * P" using l True k by simp
    then show ?thesis using True c k by simp
  next
    case False
    then show ?thesis using c by (simp add: minus_div_mult_eq_mod)
  qed
qed

lemma countPieces_eq:
  assumes "0 < P"
  shows "countPieces (int l) (int P) =
    Some (int (piece_count l P), if l = 0 then int P else int (l - (piece_count l P - 1) * P))"
proof (cases "l = 0")
  case True
  then show ?thesis using assms by (simp add: countPieces_def go_div_def go_mod_def piece_count_def)
next
  case False
  then show ?thesis
    using assms piece_count_last [OF assms, of l]
    by (simp add: countPieces_def go_div_nonneg go_mod_nonneg flip: of_nat_div of_nat_mod)
qed

lemma numPieces_eq: "0 < P \<Longrightarrow> numPieces (int l) (int P) = Some (int (piece_count l P))"
proof -
  assume P: "0 < P"
  then have "int l + int P - 1 = int (l + P - 1)" by simp
  then show ?thesis unfolding numPieces_def using P
    by (simp only: go_div_nonneg of_nat_0_le_iff of_nat_0_less_iff piece_count_def of_nat_div)
qed

lemma pieceBuffer_eq:
  assumes "0 < P" "i < piece_count (length bs) P"
  shows "pieceBuffer (int (length bs)) (int P) (int (piece_count (length bs) P)) (int i) =
    Some (replicate (length (piece_bytes bs P i)) 0)"
proof -
  have i: "i * P < length bs" using assms by (simp add: piece_count_less)
  have e: "int i = int (piece_count (length bs) P) - 1 \<longleftrightarrow> Suc i = piece_count (length bs) P" by linarith
  show ?thesis
  proof (cases "Suc i = piece_count (length bs) P")
    case True
    then have "\<not> Suc i * P < length bs" using piece_count_less [OF assms(1), of "Suc i" "length bs"] by simp
    then have le: "length bs - i * P \<le> P" by simp
    have "int (length bs) - int i * int P = int (length bs - i * P)" using i by (simp add: of_nat_diff)
    then show ?thesis using True le e
      by (simp add: pieceBuffer_def go_make_def go_slice_def length_piece_bytes min_def)
  next
    case False
    then have "Suc i < piece_count (length bs) P" using assms(2) by simp
    then have "Suc i * P < length bs" using piece_count_less [OF assms(1)] by blast
    then show ?thesis using False e
      by (simp add: pieceBuffer_def go_make_def length_piece_bytes min_def)
  qed
qed

lemma read_padded_piece:
  "read_padded bs (i * P) (length (piece_bytes bs P i)) = piece_bytes bs P i"
  by (simp add: read_padded_def length_piece_bytes piece_bytes_def window_def min_def)

lemma read_piece:
  assumes "wf_store d fs" "fs_cache fs = None" "contents d fs = bs"
  shows "fs_ReadAt d fs (replicate (length (piece_bytes bs P i)) 0) (int i * int P) =
    Ret (piece_bytes bs P i, int (length (piece_bytes bs P i)), None)"
proof -
  have "length (piece_bytes bs P i) \<le> length bs - i * P" by (simp add: length_piece_bytes)
  then show ?thesis
    using store.rd_eq [of "(d, fs)" "replicate (length (piece_bytes bs P i)) 0" "i * P"] assms
    by (simp add: fs_ReadAt_def st_read_def read_padded_piece)
qed

section \<open>Merging the sums\<close>

lemma windows_concat:
  "\<lbrakk>length xs = n * k; length ys = n; \<forall>i < n. window xs (i * k) k = ys ! i\<rbrakk> \<Longrightarrow> xs = concat ys"
proof (induction ys arbitrary: xs n)
  case (Cons y ys)
  obtain m where n: "n = Suc m" using Cons.prems(2) by auto
  have y: "take k xs = y" using Cons.prems(3) n by (force simp: window_def)
  have "window (drop k xs) (i * k) k = ys ! i" if "i < m" for i
    using Cons.prems(3) that n by (auto simp: window_def add.commute dest!: spec [of _ "Suc i"])
  then have "drop k xs = concat ys" using Cons.IH [of "drop k xs" m] Cons.prems n by simp
  then show ?case using y append_take_drop_id [of k xs] by simp
qed simp

lemma mergeSums_patch:
  assumes "int i * int sha1_Size + int sha1_Size \<le> int (length sums)" "length data = sha1_Size"
  shows "mergeSums sums ((int i, data) # rs) = mergeSums (patch sums (i * sha1_Size) data) rs"
proof -
  have n: "nat (int i * int sha1_Size) = i * sha1_Size" by (simp add: nat_mult_distrib)
  have le: "i * sha1_Size + sha1_Size \<le> length sums"
    using assms(1) by (metis of_nat_add of_nat_le_iff of_nat_mult)
  have "go_slice sums (int i * int sha1_Size) (int (length sums)) = Some (drop (i * sha1_Size) sums)"
  proof -
    have "int (length sums) - int i * int sha1_Size = int (length sums - i * sha1_Size)"
      using le by (simp add: of_nat_diff)
    moreover have "int i * int sha1_Size \<le> int (length sums)" using le assms(1) by linarith
    ultimately show ?thesis unfolding go_slice_def n by simp
  qed
  moreover have "go_copy (drop (i * sha1_Size) sums) data = data @ drop (i * sha1_Size + sha1_Size) sums"
    using le assms(2) by (simp add: go_copy_def add.commute)
  ultimately show ?thesis using assms(2) by (simp add: n patch_def Let_def)
qed

lemma mergeSums_windows:
  "\<lbrakk>length sums = n * sha1_Size; \<forall>(i, b) \<in> set rs. (\<exists>k < n. i = int k) \<and> length b = sha1_Size;
    distinct (map fst rs)\<rbrakk> \<Longrightarrow>
   \<exists>r. mergeSums sums rs = Some r \<and> length r = n * sha1_Size \<and>
     (\<forall>k < n. window r (k * sha1_Size) sha1_Size =
        (case map_of rs (int k) of None \<Rightarrow> window sums (k * sha1_Size) sha1_Size | Some b \<Rightarrow> b))"
proof (induction rs arbitrary: sums)
  case (Cons ib rs)
  obtain k b where ib: "ib = (int k, b)" and k: "k < n" and b: "length b = sha1_Size"
    using Cons.prems(2) by (cases ib) auto
  have "Suc k * sha1_Size \<le> n * sha1_Size" using k by (intro mult_le_mono1) simp
  then have le: "k * sha1_Size + sha1_Size \<le> length sums" using Cons.prems(1) by (simp add: add.commute)
  then have le': "int k * int sha1_Size + int sha1_Size \<le> int (length sums)"
    by (metis of_nat_add of_nat_le_iff of_nat_mult)
  let ?s = "patch sums (k * sha1_Size) b"
  have "length ?s = n * sha1_Size" using le b Cons.prems(1) by (simp add: length_patch)
  then obtain r where r: "mergeSums ?s rs = Some r" "length r = n * sha1_Size"
    and w: "\<And>j. j < n \<Longrightarrow> window r (j * sha1_Size) sha1_Size =
      (case map_of rs (int j) of None \<Rightarrow> window ?s (j * sha1_Size) sha1_Size | Some b \<Rightarrow> b)"
    using Cons.IH [of ?s] Cons.prems by auto
  have new: "window ?s (k * sha1_Size) sha1_Size = b"
    using window_patch_same [of "k * sha1_Size" b sums] le b by simp
  have old: "window ?s (j * sha1_Size) sha1_Size = window sums (j * sha1_Size) sha1_Size"
    if "j \<noteq> k" for j
  proof -
    have "Suc j * sha1_Size \<le> k * sha1_Size \<or> Suc k * sha1_Size \<le> j * sha1_Size"
      using that mult_le_mono1 [of "Suc j" k] mult_le_mono1 [of "Suc k" j] by (metis Suc_leI nat_neq_iff)
    then show ?thesis using le b by (intro window_patch_disjoint) (auto simp: add.commute)
  qed
  have fresh: "map_of rs (int k) = None"
    using Cons.prems(3) by (simp add: ib map_of_eq_None_iff)
  show ?case
    using mergeSums_patch [OF le' b, of rs] r w new old fresh
    by (intro exI [of _ r]) (auto simp: ib split: option.split)
qed simp

lemma mergeSums_any_order:
  assumes "mset rs = mset (map (\<lambda>i. (int i, f i)) [0..<n])" "\<And>i. length (f i) = sha1_Size"
    and "length sums = n * sha1_Size"
  shows "mergeSums sums rs = Some (concat (map f [0..<n]))"
proof -
  have s: "set rs = (\<lambda>i. (int i, f i)) ` {0..<n}"
    using mset_eq_setD [OF assms(1)] by simp
  have "mset (map fst rs) = mset (map int [0..<n])"
    using arg_cong [OF assms(1), of "image_mset fst"] by (simp add: image_mset.compositionality comp_def)
  then have d: "distinct (map fst rs)"
    using mset_eq_imp_distinct_iff [of "map fst rs" "map int [0..<n]"] by (simp add: distinct_map)
  have m: "map_of rs (int k) = Some (f k)" if "k < n" for k
    using that s d by (intro map_of_is_SomeI) auto
  obtain r where r: "mergeSums sums rs = Some r" "length r = n * sha1_Size"
    and w: "\<And>k. k < n \<Longrightarrow> window r (k * sha1_Size) sha1_Size = f k"
    using mergeSums_windows [OF assms(3) _ d] s assms(2) m by fastforce
  then have "r = concat (map f [0..<n])"
    using windows_concat [OF r(2), of "map f [0..<n]"] by simp
  then show ?thesis using r by simp
qed

section \<open>Computing and checking the sums\<close>

definition plain_store :: "disk \<Rightarrow> file_store \<Rightarrow> bool" where
  "plain_store d fs \<longleftrightarrow> wf_store d fs \<and> fs_cache fs = None"

lemma readPieces_eq:
  assumes "plain_store d fs" "contents d fs = bs" "0 < P"
  shows "\<forall>i \<in> set is. i < piece_count (length bs) P \<Longrightarrow>
    readPieces d fs (int (length bs)) (int P) (int (piece_count (length bs) P)) (map int is) =
      Ret (map (\<lambda>i. (int i, piece_bytes bs P i)) is)"
  using assms by (induction "is") (simp_all add: pieceBuffer_eq read_piece plain_store_def)

lemma computeSums_eq:
  assumes "plain_store d fs" "contents d fs = bs" "0 < P"
    and "\<And>xs. mset (order xs) = mset xs"
  shows "computeSums order d fs (int (length bs)) (int P) = Ret (piece_sums bs P)"
proof -
  let ?n = "piece_count (length bs) P"
  let ?sum = "\<lambda>i. sha1 (piece_bytes bs P i)"
  have h: "map hashPiece (map (\<lambda>i. (int i, piece_bytes bs P i)) [0..<?n]) =
      map (\<lambda>i. (int i, ?sum i)) [0..<?n]"
    by (simp add: hashPiece_def)
  have "int sha1_Size * int ?n = int (?n * sha1_Size)" by simp
  then have m: "go_make (int sha1_Size * int ?n) 0 = Some (replicate (?n * sha1_Size) (0 :: byte))"
    unfolding go_make_def by (simp only: nat_int of_nat_less_0_iff if_False)
  have g: "mergeSums (replicate (?n * sha1_Size) 0) (order (map (\<lambda>i. (int i, ?sum i)) [0..<?n])) =
      Some (concat (map ?sum [0..<?n]))"
    by (rule mergeSums_any_order) (simp_all add: assms(4))
  have "readPieces d fs (int (length bs)) (int P) (int ?n) (map int [0..<?n]) =
      Ret (map (\<lambda>i. (int i, piece_bytes bs P i)) [0..<?n])"
    using readPieces_eq [OF assms(1-3), of "[0..<?n]"] by simp
  then show ?thesis
    unfolding computeSums_def numPieces_eq [OF assms(3)] run_of.simps run_bind.simps nat_int
    by (simp only: run_bind.simps h) (simp only: m g piece_sums_def Option.bind.simps run_of.simps)
qed

lemma length_piece_sums [simp]: "length (piece_sums bs P) = piece_count (length bs) P * sha1_Size"
  by (simp add: piece_sums_def length_concat comp_def sum_list_triv)

lemma window_concat:
  "\<lbrakk>\<forall>y \<in> set ys. length y = k; i < length ys\<rbrakk> \<Longrightarrow> window (concat ys) (i * k) k = ys ! i"
proof (induction ys arbitrary: i)
  case (Cons y ys)
  show ?case
  proof (cases i)
    case (Suc j)
    then have "window (concat ys) (j * k) k = ys ! j" using Cons by simp
    then show ?thesis using Cons.prems(1) Suc by (simp add: window_def)
  qed (use Cons.prems in \<open>simp add: window_def\<close>)
qed simp

lemma window_piece_sums:
  "i < piece_count (length bs) P \<Longrightarrow>
   window (piece_sums bs P) (i * sha1_Size) sha1_Size = sha1 (piece_bytes bs P i)"
  unfolding piece_sums_def by (subst window_concat) auto

lemma go_slice_sum:
  assumes "i * sha1_Size + sha1_Size \<le> length xs"
  shows "go_slice xs (int i * int sha1_Size) (int i * int sha1_Size + int sha1_Size) =
    Some (window xs (i * sha1_Size) sha1_Size)"
proof -
  have "int i * int sha1_Size + int sha1_Size \<le> int (length xs)"
    using assms by (metis of_nat_add of_nat_le_iff of_nat_mult)
  then show ?thesis by (simp add: go_slice_def window_def nat_mult_distrib)
qed

lemma sum_slot: "i < n \<Longrightarrow> i * sha1_Size + sha1_Size \<le> n * sha1_Size"
  using mult_le_mono1 [of "Suc i" n sha1_Size] by simp

text \<open>The indices whose sums agree with the reference.\<close>

definition good_pieces :: "bytes \<Rightarrow> bytes \<Rightarrow> nat \<Rightarrow> nat set" where
  "good_pieces ref bs P = {i. i < piece_count (length bs) P \<and>
     window ref (i * sha1_Size) sha1_Size = sha1 (piece_bytes bs P i)}"

lemma finite_good_pieces [simp]: "finite (good_pieces ref bs P)"
  by (simp add: good_pieces_def)

lemma checkSums_eq:
  assumes "length ref = piece_count (length bs) P * sha1_Size"
  shows "\<lbrakk>distinct is; \<forall>i \<in> set is. i < piece_count (length bs) P \<and> i \<notin> elems b; wf_bitset b;
     Len b = int (piece_count (length bs) P)\<rbrakk> \<Longrightarrow>
   \<exists>b'. checkSums ref (piece_sums bs P) (map int is) (good, bad, b) =
      Some (good + int (card (set is \<inter> good_pieces ref bs P)),
            bad + int (card (set is - good_pieces ref bs P)), b') \<and>
     wf_bitset b' \<and> Len b' = Len b \<and> elems b' = elems b \<union> (set is \<inter> good_pieces ref bs P)"
proof (induction "is" arbitrary: good bad b)
  case (Cons i "is")
  let ?G = "good_pieces ref bs P"
  have i: "i < piece_count (length bs) P" using Cons.prems(2) by simp
  have s: "i * sha1_Size + sha1_Size \<le> length ref"
    "i * sha1_Size + sha1_Size \<le> length (piece_sums bs P)"
    using sum_slot [OF i] assms by simp_all
  have "length (window ref (i * sha1_Size) sha1_Size) = sha1_Size" using s(1) by (rule length_window)
  then have e: "checkEqual (window ref (i * sha1_Size) sha1_Size) (sha1 (piece_bytes bs P i)) =
      Some (i \<in> ?G)"
    using i by (simp add: checkEqual_eq good_pieces_def)
  note step = go_slice_sum [OF s(1)] go_slice_sum [OF s(2)] window_piece_sums [OF i] e
  show ?case
  proof (cases "i \<in> ?G")
    case True
    obtain b1 where b1: "BSet b (int i) = Some b1" "wf_bitset b1" "Len b1 = Len b"
        "elems b1 = insert i (elems b)"
      using bs.put [OF Cons.prems(3), of i] Cons.prems(4) i by auto
    have "set (i # is) \<inter> ?G = insert i (set is \<inter> ?G)" "set (i # is) - ?G = set is - ?G"
      using True by auto
    moreover have "i \<notin> set is \<inter> ?G" using Cons.prems(1) by simp
    moreover obtain b' where "checkSums ref (piece_sums bs P) (map int is) (good + 1, bad, b1) =
        Some (good + 1 + int (card (set is \<inter> ?G)), bad + int (card (set is - ?G)), b')"
        "wf_bitset b'" "Len b' = Len b1" "elems b' = elems b1 \<union> (set is \<inter> ?G)"
      using Cons.IH [of b1 "good + 1" bad] Cons.prems b1 by auto
    ultimately show ?thesis using b1 True step by auto
  next
    case False
    have "set (i # is) - ?G = insert i (set is - ?G)" "set (i # is) \<inter> ?G = set is \<inter> ?G"
      using False by auto
    moreover have "i \<notin> set is - ?G" using Cons.prems(1) by simp
    moreover obtain b' where "checkSums ref (piece_sums bs P) (map int is) (good, bad + 1, b) =
        Some (good + int (card (set is \<inter> ?G)), bad + 1 + int (card (set is - ?G)), b')"
        "wf_bitset b'" "Len b' = Len b" "elems b' = elems b \<union> (set is \<inter> ?G)"
      using Cons.IH [of b good "bad + 1"] Cons.prems by auto
    ultimately show ?thesis using False step by auto
  qed
qed auto

lemma checkPieces_eq:
  assumes "plain_store d fs" "contents d fs = bs" "mi_PieceLen m = int P" "0 < P"
    and "\<And>xs. mset (order xs) = mset xs"
    and "length (mi_Pieces m) = piece_count (length bs) P * sha1_Size"
  shows "\<exists>b. checkPieces order d fs (int (length bs)) m =
      Ret (int (card (good_pieces (mi_Pieces m) bs P)),
           int (piece_count (length bs) P - card (good_pieces (mi_Pieces m) bs P)), b, None) \<and>
    wf_bitset b \<and> Len b = int (piece_count (length bs) P) \<and> elems b = good_pieces (mi_Pieces m) bs P"
proof -
  let ?n = "piece_count (length bs) P" and ?G = "good_pieces (mi_Pieces m) bs P"
  obtain b0 where b0: "NewBitset (int ?n) = Some b0" "wf_bitset b0" "Len b0 = int ?n" "elems b0 = {}"
    using bs.new [of "int ?n"] by auto
  have sub: "?G \<subseteq> {0..<?n}" by (auto simp: good_pieces_def)
  then have c: "{0..<?n} \<inter> ?G = ?G" "card ({0..<?n} - ?G) = ?n - card ?G"
    by (auto simp: card_Diff_subset)
  obtain b where b: "checkSums (mi_Pieces m) (piece_sums bs P) (map int [0..<?n]) (0, 0, b0) =
      Some (int (card ?G), int (?n - card ?G), b)" "wf_bitset b" "Len b = int ?n" "elems b = ?G"
    using checkSums_eq [OF assms(6), of "[0..<?n]" b0 0 0] b0 c by auto
  have "int (length (mi_Pieces m)) = int ?n * int sha1_Size" by (simp add: assms(6))
  then show ?thesis
    using b by (simp add: checkPieces_def countPieces_eq assms(3,4) b0(1)
        computeSums_eq [OF assms(1,2,4,5)])
qed

lemma computePieceSum_eq:
  assumes "plain_store d fs" "contents d fs = bs" "0 < P" "i < piece_count (length bs) P"
  shows "computePieceSum d fs (int (length bs)) (int P) (int i) =
    Ret (sha1 (piece_bytes bs P i), piece_bytes bs P i, None)"
  using assms(1) by (simp add: computePieceSum_def numPieces_eq pieceBuffer_eq read_piece
      plain_store_def assms(2-4))

lemma checkPiece_eq:
  assumes "plain_store d fs" "contents d fs = bs" "mi_PieceLen m = int P" "0 < P"
    and "i < piece_count (length bs) P"
    and "length (mi_Pieces m) = piece_count (length bs) P * sha1_Size"
  shows "checkPiece d fs (int (length bs)) m (int i) =
    Ret (i \<in> good_pieces (mi_Pieces m) bs P, piece_bytes bs P i,
      if i \<in> good_pieces (mi_Pieces m) bs P then None else Some Sum_Mismatch)"
proof -
  have s: "i * sha1_Size + sha1_Size \<le> length (mi_Pieces m)" using sum_slot [OF assms(5)] assms(6) by simp
  then have "length (window (mi_Pieces m) (i * sha1_Size) sha1_Size) = sha1_Size" by (rule length_window)
  then show ?thesis
    using assms(5) by (simp add: checkPiece_def computePieceSum_eq [OF assms(1,2,4,5)] assms(3)
        go_slice_sum [OF s] checkEqual_eq good_pieces_def)
qed

section \<open>Active pieces\<close>

lemma firstZero_spec:
  "firstZero k vs = (if 0 \<in> set vs then Some (k + length (takeWhile (\<lambda>v. v \<noteq> 0) vs)) else None)"
  by (induction k vs rule: firstZero.induct) auto

lemma leastCount_spec:
  "\<lbrakk>minCount = -1 \<and> index = -1 \<or> minCount \<ge> 0\<rbrakk> \<Longrightarrow>
   (let r = leastCount k vs index minCount in
     (r = index \<and> (\<forall>v \<in> set vs. v < 0 \<or> (minCount \<ge> 0 \<and> minCount \<le> v))) \<or>
     (\<exists>i < length vs. r = int (k + i) \<and> vs ! i \<ge> 0 \<and> (\<forall>v \<in> set vs. v < 0 \<or> vs ! i \<le> v) \<and>
        (minCount = -1 \<or> vs ! i < minCount)))"
proof (induction k vs index minCount rule: leastCount.induct)
  case (2 k v vs index minCount)
  show ?case
  proof (cases "v \<ge> 0 \<and> (minCount = -1 \<or> minCount > v)")
    case True
    then have "let r = leastCount (Suc k) vs (int k) v in
       (r = int k \<and> (\<forall>w \<in> set vs. w < 0 \<or> (v \<ge> 0 \<and> v \<le> w))) \<or>
       (\<exists>i < length vs. r = int (Suc k + i) \<and> vs ! i \<ge> 0 \<and> (\<forall>w \<in> set vs. w < 0 \<or> vs ! i \<le> w) \<and>
          (v = -1 \<or> vs ! i < v))"
      using 2 by simp
    then consider "leastCount (Suc k) vs (int k) v = int k" "\<forall>w \<in> set vs. w < 0 \<or> v \<le> w"
      | i where "i < length vs" "leastCount (Suc k) vs (int k) v = int (Suc k + i)" "vs ! i \<ge> 0"
        "\<forall>w \<in> set vs. w < 0 \<or> vs ! i \<le> w" "vs ! i < v"
      using True by (auto simp: Let_def)
    then show ?thesis
    proof cases
      case 1
      then show ?thesis using True by (auto simp: Let_def intro!: exI [of _ 0])
    next
      case (2 i)
      then show ?thesis using True
        by (auto simp: Let_def intro!: exI [of _ "Suc i"])
    qed
  next
    case False
    then have "let r = leastCount (Suc k) vs index minCount in
       (r = index \<and> (\<forall>w \<in> set vs. w < 0 \<or> (minCount \<ge> 0 \<and> minCount \<le> w))) \<or>
       (\<exists>i < length vs. r = int (Suc k + i) \<and> vs ! i \<ge> 0 \<and> (\<forall>w \<in> set vs. w < 0 \<or> vs ! i \<le> w) \<and>
          (minCount = -1 \<or> vs ! i < minCount))"
      using 2 by simp
    then consider "leastCount (Suc k) vs index minCount = index"
        "\<forall>w \<in> set vs. w < 0 \<or> (minCount \<ge> 0 \<and> minCount \<le> w)"
      | i where "i < length vs" "leastCount (Suc k) vs index minCount = int (Suc k + i)" "vs ! i \<ge> 0"
        "\<forall>w \<in> set vs. w < 0 \<or> vs ! i \<le> w" "minCount = -1 \<or> vs ! i < minCount"
      by (auto simp: Let_def)
    then show ?thesis
    proof cases
      case 1
      then show ?thesis using False 2(3) by (auto simp: Let_def)
    next
      case (2 i)
      then show ?thesis using False by (auto simp: Let_def intro!: exI [of _ "Suc i"])
    qed
  qed
qed simp

lemma allDone_iff: "allDone vs \<longleftrightarrow> (\<forall>v \<in> set vs. v = -1)"
  by (induction vs) auto

definition wf_active :: "active_piece \<Rightarrow> bool" where
  "wf_active a \<longleftrightarrow> (\<forall>v \<in> set (ap_downloaderCount a). v \<ge> -1)"

lemma chooseNormal_spec:
  "chooseBlockToDownload a False =
    (if 0 \<in> set (ap_downloaderCount a)
     then (let i = length (takeWhile (\<lambda>v. v \<noteq> 0) (ap_downloaderCount a)) in
           (a\<lparr>ap_downloaderCount := (ap_downloaderCount a)[i := 1]\<rparr>, int i))
     else (a, -1))"
proof (cases "0 \<in> set (ap_downloaderCount a)")
  case True
  then have "length (takeWhile (\<lambda>v. v \<noteq> 0) (ap_downloaderCount a)) < length (ap_downloaderCount a)"
    by (metis (mono_tags, lifting) length_takeWhile_le order_le_less set_takeWhileD takeWhile_eq_take take_all)
  then have "ap_downloaderCount a ! length (takeWhile (\<lambda>v. v \<noteq> 0) (ap_downloaderCount a)) = 0"
    using nth_length_takeWhile by blast
  then show ?thesis using True
    by (simp add: chooseBlockToDownload_def chooseBlockToDownloadNormal_def firstZero_spec Let_def)
qed (simp add: chooseBlockToDownload_def chooseBlockToDownloadNormal_def firstZero_spec)

lemma chooseEndgame_spec:
  assumes "wf_active a"
  shows "if isComplete a then chooseBlockToDownload a True = (a, -1)
    else \<exists>i < length (ap_downloaderCount a). ap_downloaderCount a ! i \<ge> 0 \<and>
      (\<forall>v \<in> set (ap_downloaderCount a). v = -1 \<or> ap_downloaderCount a ! i \<le> v) \<and>
      chooseBlockToDownload a True =
        (a\<lparr>ap_downloaderCount := (ap_downloaderCount a)[i := ap_downloaderCount a ! i + 1]\<rparr>, int i)"
proof -
  let ?vs = "ap_downloaderCount a"
  have ge: "\<forall>v \<in> set ?vs. v \<ge> -1" using assms by (simp add: wf_active_def)
  then have neg: "\<forall>v \<in> set ?vs. v < 0 \<longleftrightarrow> v = -1" by fastforce
  consider (none) "leastCount 0 ?vs (-1) (-1) = -1" "\<forall>v \<in> set ?vs. v < 0"
    | (some) i where "i < length ?vs" "leastCount 0 ?vs (-1) (-1) = int i" "?vs ! i \<ge> 0"
      "\<forall>v \<in> set ?vs. v < 0 \<or> ?vs ! i \<le> v"
    using leastCount_spec [of "-1" "-1" 0 ?vs] by (auto simp: Let_def)
  then show ?thesis
  proof cases
    case none
    then show ?thesis using neg
      by (simp add: isComplete_def allDone_iff chooseBlockToDownload_def chooseBlockToDownloadEndgame_def Let_def)
  next
    case (some i)
    then have "?vs ! i \<in> set ?vs" "?vs ! i \<noteq> -1" by auto
    then have "\<not> isComplete a" by (auto simp: isComplete_def allDone_iff)
    then show ?thesis using some neg
      by (auto simp: chooseBlockToDownload_def chooseBlockToDownloadEndgame_def Let_def intro!: exI [of _ i])
  qed
qed

lemma standardBlockLen_pos [simp]: "0 < standardBlockLen"
  by (simp add: standardBlockLen_def)

definition block_count :: "nat \<Rightarrow> nat" where
  "block_count n = piece_count n (nat standardBlockLen)"

lemma NewActivePiece_eq:
  "NewActivePiece (int n) =
    Some \<lparr>ap_downloaderCount = replicate (block_count n) 0, ap_pieceLength = int n\<rparr>"
proof -
  have s: "int (nat standardBlockLen) = standardBlockLen" by (simp add: standardBlockLen_def)
  have "go_div (int n + standardBlockLen - 1) standardBlockLen = Some (int (block_count n))"
    using numPieces_eq [of "nat standardBlockLen" n] unfolding numPieces_def s block_count_def by simp
  then show ?thesis by (simp add: NewActivePiece_def go_make_def)
qed

lemma ap_recordBlock_ok:
  "i < length (ap_downloaderCount a) \<Longrightarrow>
   ap_recordBlock a (int i) =
     Some (a\<lparr>ap_downloaderCount := (ap_downloaderCount a)[i := -1]\<rparr>, ap_downloaderCount a ! i)"
  by (simp add: ap_recordBlock_def)

section \<open>Properties\<close>

text \<open>C30: The parallel hashing returns the SHA-1 sums of the pieces in piece order, whatever the
  order in which the hashing goroutines deliver their results; the last piece is hashed at its
  own length.\<close>

theorem computeSums_spec:
  assumes "wf_store d fs" "fs_cache fs = None" "0 < P" "\<forall>xs. mset (order xs) = mset xs"
  shows "computeSums order d fs (int (length (contents d fs))) (int P) =
    Ret (concat (map (\<lambda>i. sha1 (window (contents d fs) (i * P) P))
          [0..<(length (contents d fs) + P - 1) div P]))"
  using computeSums_eq [of d fs "contents d fs" P order] assms
  by (simp add: plain_store_def piece_sums_def piece_bytes_def piece_count_def)

lemma ex_cache [simp]: "fs_cache ex_store = None"
  by (simp add: ex_store_def)

theorem computeSums_spec_witness:
  "computeSums rev ex_disk ex_store 5 2 = Ret (sha1 [1, 2] @ sha1 [3, 4] @ sha1 [5])"
  using computeSums_spec [OF ex_wf, of 2 rev]
  by (simp add: ex_contents window_def upt_rec)

text \<open>C31: Checking the files of a task counts exactly the pieces whose SHA-1 sum is the one the
  metadata names, good and bad together are all pieces, and the returned piece map holds
  precisely the good ones.  Checking one piece agrees with it and returns the piece's bytes.\<close>

theorem checkPieces_spec:
  assumes "wf_store d fs" "fs_cache fs = None" "mi_PieceLen m = int P" "0 < P"
    and "\<forall>xs. mset (order xs) = mset xs"
    and "length (mi_Pieces m) = piece_count (length (contents d fs)) P * sha1_Size"
  shows "\<exists>good bad b. checkPieces order d fs (int (length (contents d fs))) m = Ret (good, bad, b, None) \<and>
    wf_bitset b \<and> Len b = int (piece_count (length (contents d fs)) P) \<and>
    good = int (card (elems b)) \<and> good + bad = Len b \<and>
    (\<forall>i < piece_count (length (contents d fs)) P.
      (i \<in> elems b \<longleftrightarrow> window (mi_Pieces m) (i * sha1_Size) sha1_Size = sha1 (window (contents d fs) (i * P) P)) \<and>
      checkPiece d fs (int (length (contents d fs))) m (int i) =
        Ret (i \<in> elems b, window (contents d fs) (i * P) P, if i \<in> elems b then None else Some Sum_Mismatch))"
proof -
  let ?n = "piece_count (length (contents d fs)) P"
  let ?G = "good_pieces (mi_Pieces m) (contents d fs) P"
  have p: "plain_store d fs" using assms(1,2) by (simp add: plain_store_def)
  obtain b where b: "checkPieces order d fs (int (length (contents d fs))) m =
      Ret (int (card ?G), int (?n - card ?G), b, None)" "wf_bitset b" "Len b = int ?n" "elems b = ?G"
    using checkPieces_eq [OF p refl assms(3,4) _ assms(6)] assms(5) by blast
  have "card ?G \<le> card {0..<?n}" by (rule card_mono) (auto simp: good_pieces_def)
  then have "card ?G \<le> ?n" by simp
  then show ?thesis
    using b checkPiece_eq [OF p refl assms(3,4) _ assms(6)]
    by (intro exI conjI) (auto simp: good_pieces_def piece_bytes_def of_nat_diff)
qed

definition ex_meta :: meta_info where
  "ex_meta = \<lparr>mi_Length = 5, mi_PieceLen = 2, mi_Pieces = sha1 [1, 2] @ sha1 [0, 0] @ sha1 [5], mi_Files = []\<rparr>"

theorem checkPieces_spec_witness:
  "\<exists>good bad b. checkPieces rev ex_disk ex_store 5 ex_meta = Ret (good, bad, b, None) \<and>
    0 \<in> elems b \<and> checkPiece ex_disk ex_store 5 ex_meta 0 = Ret (True, [1, 2], None)"
proof -
  have l: "length (mi_Pieces ex_meta) = piece_count (length (contents ex_disk ex_store)) 2 * sha1_Size"
    by (simp add: ex_meta_def ex_contents piece_count_def)
  have m: "mi_PieceLen ex_meta = int 2" by (simp add: ex_meta_def)
  obtain good bad b where c: "checkPieces rev ex_disk ex_store 5 ex_meta = Ret (good, bad, b, None)"
    and e: "\<forall>i < 3. (i \<in> elems b \<longleftrightarrow> window (mi_Pieces ex_meta) (i * sha1_Size) sha1_Size =
        sha1 (window [1, 2, 3, 4, 5] (i * 2) 2)) \<and>
      checkPiece ex_disk ex_store 5 ex_meta (int i) =
        Ret (i \<in> elems b, window [1, 2, 3, 4, 5] (i * 2) 2, if i \<in> elems b then None else Some Sum_Mismatch)"
    using checkPieces_spec [OF ex_wf _ m _ _ l, of rev]
    by (auto simp: ex_contents piece_count_def)
  have "0 \<in> elems b" using e by (simp add: ex_meta_def window_def)
  then show ?thesis using c e [rule_format, of 0] by (auto simp: window_def)
qed

text \<open>C32: The choice of a block: the normal mode takes the first block nobody has been asked for
  and answers -1 when there is none; the endgame takes a block with the fewest outstanding
  requests and answers -1 only when the piece is complete; either way the count of the chosen
  block alone goes up by one.  Recording a block marks it, and the piece is complete exactly
  when all others are marked too.\<close>

theorem choose_record_spec:
  assumes "wf_active a"
  shows "chooseBlockToDownload a False =
      (if 0 \<in> set (ap_downloaderCount a)
       then (let i = length (takeWhile (\<lambda>v. v \<noteq> 0) (ap_downloaderCount a)) in
             (a\<lparr>ap_downloaderCount := (ap_downloaderCount a)[i := 1]\<rparr>, int i))
       else (a, -1)) \<and>
    (if isComplete a then chooseBlockToDownload a True = (a, -1)
     else \<exists>i < length (ap_downloaderCount a). ap_downloaderCount a ! i \<ge> 0 \<and>
       (\<forall>v \<in> set (ap_downloaderCount a). v = -1 \<or> ap_downloaderCount a ! i \<le> v) \<and>
       chooseBlockToDownload a True =
         (a\<lparr>ap_downloaderCount := (ap_downloaderCount a)[i := ap_downloaderCount a ! i + 1]\<rparr>, int i)) \<and>
    (\<forall>i < length (ap_downloaderCount a). \<exists>a'.
       ap_recordBlock a (int i) = Some (a', ap_downloaderCount a ! i) \<and> wf_active a' \<and>
       (isComplete a' \<longleftrightarrow> (\<forall>j < length (ap_downloaderCount a). j \<noteq> i \<longrightarrow> ap_downloaderCount a ! j = -1)))"
proof (intro conjI allI impI)
  fix i assume i: "i < length (ap_downloaderCount a)"
  let ?a = "a\<lparr>ap_downloaderCount := (ap_downloaderCount a)[i := -1]\<rparr>"
  have "wf_active ?a" using assms i by (auto simp: wf_active_def dest!: set_update_subset_insert [THEN subsetD])
  moreover have "isComplete ?a \<longleftrightarrow> (\<forall>j < length (ap_downloaderCount a). j \<noteq> i \<longrightarrow> ap_downloaderCount a ! j = -1)"
    using i by (auto simp: isComplete_def allDone_iff all_set_conv_all_nth nth_list_update)
  ultimately show "\<exists>a'. ap_recordBlock a (int i) = Some (a', ap_downloaderCount a ! i) \<and> wf_active a' \<and>
      (isComplete a' \<longleftrightarrow> (\<forall>j < length (ap_downloaderCount a). j \<noteq> i \<longrightarrow> ap_downloaderCount a ! j = -1))"
    using ap_recordBlock_ok [OF i] by (intro exI [of _ ?a]) simp
qed (rule chooseNormal_spec, rule chooseEndgame_spec [OF assms])

theorem choose_record_spec_witness:
  "chooseBlockToDownload \<lparr>ap_downloaderCount = [1, 0, -1], ap_pieceLength = 7\<rparr> False =
     (\<lparr>ap_downloaderCount = [1, 1, -1], ap_pieceLength = 7\<rparr>, 1)"
  using choose_record_spec [of "\<lparr>ap_downloaderCount = [1, 0, -1], ap_pieceLength = 7\<rparr>"]
  by (simp add: wf_active_def)

end
