(* ===== verification/Peer.thy ===== *)
theory Peer
  imports Wire Bitset "HOL-Library.AList" "HOL-Library.Sublist"
begin

text \<open>
  \<open>p2p/peer.go\<close>: the connection to one other node.  The record keeps what the session reads
  and writes; \<open>p_out\<close> is the sequence of messages put on \<open>writeChan\<close> and \<open>p_closed\<close> says
  that \<open>Close\<close> was called on the connection.  The writer goroutine is \<open>peerWriter\<close>, a
  function from the timed messages it takes from the channel to the bytes it sends; the
  reader goroutine is \<open>peerReader\<close> of \<open>Wire\<close>.  Times are nanoseconds.
\<close>

definition maxOurRequests :: nat where
  "maxOurRequests = 5"

definition HAVE :: byte where "HAVE = 0"
definition BITFIELD :: byte where "BITFIELD = 1"
definition REQUEST :: byte where "REQUEST = 2"
definition PIECE :: byte where "PIECE = 3"

lemmas msg_ids = HAVE_def BITFIELD_def REQUEST_def PIECE_def

record peer =
  p_taskID :: string
  p_address :: string
  p_client :: bool
  p_closed :: bool
  p_out :: "bytes list"
  p_lastReadTime :: "int option"
  p_have :: "bitset option"
  p_ourRequests :: "(u64 \<times> int) list"

record peer_conn =
  pc_client :: bool
  pc_remoteAddr :: string
  pc_taskID :: string

definition newPeer :: "peer_conn \<Rightarrow> peer" where
  "newPeer c = \<lparr>p_taskID = pc_taskID c, p_address = pc_remoteAddr c, p_client = pc_client c,
     p_closed = False, p_out = [], p_lastReadTime = None, p_have = None, p_ourRequests = []\<rparr>"

definition peerClose :: "peer \<Rightarrow> peer" where
  "peerClose p = p\<lparr>p_closed := True\<rparr>"

definition sendMessage :: "peer \<Rightarrow> bytes \<Rightarrow> peer" where
  "sendMessage p m = p\<lparr>p_out := p_out p @ [m]\<rparr>"

definition keepAlive :: "peer \<Rightarrow> peer" where
  "keepAlive p = sendMessage p []"

definition SendBitfield :: "peer \<Rightarrow> bitset \<Rightarrow> peer" where
  "SendBitfield p bs = sendMessage p (BITFIELD # Bytes bs)"

definition SendHave :: "peer \<Rightarrow> u32 \<Rightarrow> peer" where
  "SendHave p piece = sendMessage p (HAVE # be32 piece)"

definition requestIndex :: "int \<Rightarrow> int \<Rightarrow> u64" where
  "requestIndex piece begin = push_bit 32 (word_of_int piece) OR word_of_int begin"

definition request_msg :: "int \<Rightarrow> int \<Rightarrow> int \<Rightarrow> bytes" where
  "request_msg piece begin len =
     REQUEST # be32 (word_of_int piece) @ be32 (word_of_int begin) @ be32 (word_of_int len)"

definition SendRequest :: "peer \<Rightarrow> int \<Rightarrow> int \<Rightarrow> int \<Rightarrow> int \<Rightarrow> peer" where
  "SendRequest p now piece begin len =
     sendMessage (p\<lparr>p_ourRequests := AList.update (requestIndex piece begin) now (p_ourRequests p)\<rparr>)
       (request_msg piece begin len)"

text \<open>The two halves of a key as \<open>removeRequests\<close> and \<open>doCheckRequests\<close> read them back.\<close>

definition request_piece :: "u64 \<Rightarrow> int" where
  "request_piece k = uint (drop_bit 32 k)"

definition request_begin :: "u64 \<Rightarrow> int" where
  "request_begin k = uint (k AND 0xffffffff)"

section \<open>The writer goroutine\<close>

text \<open>
  \<open>wr i\<close> is the outcome of the \<open>i\<close>-th call of \<open>flowctrlWriter.Write\<close>: \<open>None\<close> when all bytes
  went out, \<open>Some k\<close> when it returned an error after \<open>k\<close> bytes.  \<open>lwt\<close> is
  \<open>lastWriteTime\<close>, \<open>None\<close> its zero value.  The result is what the other side receives and
  whether the goroutine has left its loop.
\<close>

definition twoMinutes :: int where
  "twoMinutes = 2 * 60 * 1000000000"

fun peerWriter :: "(nat \<Rightarrow> nat option) \<Rightarrow> nat \<Rightarrow> int option \<Rightarrow> (int \<times> bytes) list \<Rightarrow> bytes \<times> bool" where
  "peerWriter wr i lwt [] = ([], False)"
| "peerWriter wr i lwt ((now, msg) # q) =
     (if msg = [] \<and> (case lwt of None \<Rightarrow> False | Some t \<Rightarrow> now - t < twoMinutes)
      then peerWriter wr i lwt q
      else (let hdr = be32 (word_of_nat (length msg)) in
        case wr i of
          Some k \<Rightarrow> (take k hdr, True)
        | None \<Rightarrow> (case wr (Suc i) of
            Some k \<Rightarrow> (hdr @ take k msg, True)
          | None \<Rightarrow> (case peerWriter wr (Suc (Suc i)) (Some now) q of
              (out, ended) \<Rightarrow> (hdr @ msg @ out, ended)))))"

section \<open>Lemmas\<close>

lemma peerReader_cut:
  assumes "sendable m" "k < length (frame m)"
  shows "peerReader (take k (frame m)) = [None]"
proof (cases "k < 4")
  case True
  then show ?thesis by (simp add: peerReader_end)
next
  case False
  let ?n = "word_of_nat (length m) :: u32"
  have l: "length m \<le> maxBlockLen" "m \<noteq> []" using assms(1) by (auto simp: sendable_def)
  have u: "unat ?n = length m" using l(1) by (rule unat_length)
  then have nz: "?n \<noteq> 0" using l(2) by (metis length_0_conv unat_0)
  have cut: "take k (frame m) = be32 ?n @ take (k - 4) m" using False by (simp add: frame_def)
  have "k - 4 < length m" using assms(2) False by (simp add: frame_def)
  then have "read_frame (take k (frame m)) = None"
    using u nz l(1) by (simp add: cut read_frame_def ReadFull_def)
  then show ?thesis by (subst peerReader.simps) simp
qed

lemma peerReader_take_frame:
  "sendable m \<Longrightarrow> \<exists>j. peerReader (take k (frame m)) = map Some (take j [m]) @ [None]"
proof (cases "k < length (frame m)")
  case True
  then show "sendable m \<Longrightarrow> ?thesis" by (intro exI [of _ 0]) (simp add: peerReader_cut)
next
  case False
  assume "sendable m"
  then have "peerReader (frame m) = [Some m, None]"
    using peerReader_frames [of "[m]" "[]"] by (simp add: peerReader_end)
  with False show ?thesis by (intro exI [of _ 1]) simp
qed

lemma peerWriter_step:
  assumes "msg \<noteq> []"
  shows "peerWriter wr i lwt ((now, msg) # q) =
    (case wr i of
       Some k \<Rightarrow> (take (min k 4) (frame msg), True)
     | None \<Rightarrow> (case wr (Suc i) of
         Some k \<Rightarrow> (take (4 + k) (frame msg), True)
       | None \<Rightarrow> (case peerWriter wr (Suc (Suc i)) (Some now) q of
           (out, ended) \<Rightarrow> (frame msg @ out, ended))))"
  using assms by (simp add: frame_def Let_def min_def split: option.split prod.split)

lemma peerWriter_prefix:
  "\<forall>m \<in> set (map snd q). sendable m \<Longrightarrow>
   \<exists>k. peerReader (fst (peerWriter wr i lwt q)) = map Some (take k (map snd q)) @ [None]"
proof (induction q arbitrary: i lwt)
  case Nil
  then show ?case by (simp add: peerReader_end)
next
  case (Cons tm q)
  obtain now msg where tm: "tm = (now, msg)" by (cases tm)
  have s: "sendable msg" and ne: "msg \<noteq> []" using Cons.prems by (auto simp: tm sendable_def)
  have cut: "\<exists>k. peerReader (take j (frame msg)) = map Some (take k (msg # map snd q)) @ [None]" for j
  proof -
    obtain k where "peerReader (take j (frame msg)) = map Some (take k [msg]) @ [None]"
      using peerReader_take_frame [OF s] by blast
    then show ?thesis by (cases k) (auto intro: exI [of _ 0] exI [of _ "Suc 0"])
  qed
  have go: "\<exists>k. peerReader (frame msg @ fst (peerWriter wr i' lwt' q)) =
      map Some (take k (msg # map snd q)) @ [None]" for i' lwt'
  proof -
    obtain k where "peerReader (fst (peerWriter wr i' lwt' q)) =
        map Some (take k (map snd q)) @ [None]"
      using Cons.IH Cons.prems by (metis list.set_intros(2) list.simps(9))
    then show ?thesis
      using peerReader_frames [of "[msg]"] s by (intro exI [of _ "Suc k"]) simp
  qed
  show ?case
    using cut go
    by (simp only: tm peerWriter_step [OF ne] list.map snd_conv)
      (simp split: option.split prod.split, metis fst_conv)
qed

lemma requestIndex_split:
  assumes "0 \<le> piece" "piece < 2 ^ 32" "0 \<le> begin" "begin < 2 ^ 32"
  shows "request_piece (requestIndex piece begin) = piece"
    and "request_begin (requestIndex piece begin) = begin"
proof -
  have P: "uint (word_of_int piece :: u64) = piece" and B: "uint (word_of_int begin :: u64) = begin"
    using assms by (simp_all add: uint_word_of_int_eq take_bit_int_eq_self)
  have pb: "bit piece k \<Longrightarrow> k < 32" and bb: "bit begin k \<Longrightarrow> k < 32" for k
    using assms by (metis bit_take_bit_iff take_bit_int_eq_self)+
  have wp: "bit (word_of_int x :: u64) k \<longleftrightarrow> k < 64 \<and> bit x k" for x :: int and k
    by (simp add: bit_word_of_int_iff)
  have "drop_bit 32 (requestIndex piece begin) = word_of_int piece"
    by (rule bit_word_eqI)
      (auto dest: pb bb simp: requestIndex_def bit_drop_bit_eq bit_or_iff bit_push_bit_iff wp)
  then show "request_piece (requestIndex piece begin) = piece"
    using P by (simp add: request_piece_def)
  have m: "(0xffffffff :: u64) = mask 32" by (simp add: mask_eq_exp_minus_1)
  have "requestIndex piece begin AND 0xffffffff = word_of_int begin"
    unfolding m by (rule bit_word_eqI)
      (auto dest: bb simp: requestIndex_def bit_and_iff bit_mask_iff bit_or_iff bit_push_bit_iff wp)
  then show "request_begin (requestIndex piece begin) = begin"
    using B by (simp add: request_begin_def)
qed

end
