(* ===== verification/Config.thy ===== *)
theory Config
  imports Paths
begin

text \<open>
  \<open>common/config.go\<close>: the configuration, its validation and its defaults, and the request
  addressing of \<open>common/http.go\<close>.  The YAML decoder and the password cipher are third-party
  code and are arguments (\<open>yaml\<close>, \<open>newCrypto\<close>: a cipher is its decryption function); the
  file system is an \<open>env\<close> with the working directory and the answers of \<open>os.Stat\<close> and
  \<open>os.MkdirAll\<close>.
\<close>

record control =
  Speed :: int
  MaxActive :: int
  CacheSize :: int

record net_config =
  IP :: string
  Host :: string
  MgntPort :: int
  DataPort :: int
  AgentMgntPort :: int
  AgentDataPort :: int
  TLS :: "(string \<times> string) option"

record auth_config =
  Username :: string
  Password :: string
  Factor :: string

record config =
  c_Server :: bool
  c_Name :: string
  c_DownDir :: string
  c_Log :: string
  c_GameDir :: string
  c_UserDateDir :: string
  c_UserID :: int
  c_GroupID :: int
  c_Net :: net_config
  c_Auth :: auth_config
  c_Control :: "control option"

datatype cfg_error = No_AgentMgntPort | No_AgentDataPort | No_DownDir | No_Auth
  | Bad_Crypto | Bad_Password | Read_Failed | Bad_Yaml

text \<open>How a call ends: it returns, the process exits with a code, or it panics.\<close>

datatype 'a outcome = Returned 'a | Exited int | Panicked

datatype stat_result = Stat_ok bool \<comment> \<open>is a directory\<close> | Stat_err bool \<comment> \<open>\<open>os.IsExist(err)\<close>\<close>

record env =
  e_cwd :: string
  e_stat :: "string \<Rightarrow> stat_result"
  e_mkdirAll :: "string \<Rightarrow> bool"

text \<open>The directory part of \<open>defaultValue\<close>: \<open>Some code\<close> when the process exits.\<close>

definition checkDownDir :: "env \<Rightarrow> string \<Rightarrow> int option outcome" where
  "checkDownDir e dir =
     (let mk = Returned (if e_mkdirAll e dir then None else Some 6) in
      case e_stat e dir of
        Stat_ok _ \<Rightarrow> mk
      | Stat_err isExist \<Rightarrow> if \<not> isExist then mk else Panicked)"

definition defaultControl :: "control option \<Rightarrow> control" where
  "defaultControl c0 =
     (let c = (case c0 of None \<Rightarrow> \<lparr>Speed = 10, MaxActive = 5, CacheSize = 25\<rparr> | Some c \<Rightarrow> c);
          c = (if Speed c = 0 then c\<lparr>Speed := 20\<rparr> else c);
          c = (if MaxActive c = 0 then c\<lparr>MaxActive := 5\<rparr> else c)
      in if CacheSize c = 0 then c\<lparr>CacheSize := 25\<rparr> else c)"

definition defaultValue :: "env \<Rightarrow> config \<Rightarrow> config outcome" where
  "defaultValue e c =
     (let c = c\<lparr>c_DownDir := normalFile (e_cwd e) (c_DownDir c)\<rparr> in
      case checkDownDir e (c_DownDir c) of
        Panicked \<Rightarrow> Panicked
      | Exited k \<Rightarrow> Exited k
      | Returned (Some k) \<Rightarrow> Exited k
      | Returned None \<Rightarrow>
          (let c = (if c_Log c \<noteq> [] then c\<lparr>c_Log := normalFile (e_cwd e) (c_Log c)\<rparr> else c);
               net = c_Net c;
               net = (case TLS net of None \<Rightarrow> net
                      | Some (cert, key) \<Rightarrow>
                          net\<lparr>TLS := Some (normalFile (e_cwd e) cert, normalFile (e_cwd e) key)\<rparr>)
           in Returned (c\<lparr>c_Net := net, c_Control := Some (defaultControl (c_Control c))\<rparr>)))"

definition validate :: "(string \<Rightarrow> (string \<Rightarrow> string option) option) \<Rightarrow> config \<Rightarrow> cfg_error + config" where
  "validate newCrypto c =
     (if c_Server c \<and> AgentMgntPort (c_Net c) = 0 then Inl No_AgentMgntPort
      else if c_Server c \<and> AgentDataPort (c_Net c) = 0 then Inl No_AgentDataPort
      else if \<not> c_Server c \<and> c_DownDir c = [] then Inl No_DownDir
      else if Username (c_Auth c) = [] \<or> Password (c_Auth c) = [] \<or> Factor (c_Auth c) = []
        then Inl No_Auth
      else case newCrypto (Factor (c_Auth c)) of
        None \<Rightarrow> Inl Bad_Crypto
      | Some decryptStr \<Rightarrow>
          (case decryptStr (Password (c_Auth c)) of
             None \<Rightarrow> Inl Bad_Password
           | Some pwd \<Rightarrow> Inr (c\<lparr>c_Auth := (c_Auth c)\<lparr>Password := pwd\<rparr>\<rparr>)))"

definition zero_config :: config where
  "zero_config = \<lparr>c_Server = False, c_Name = [], c_DownDir = [], c_Log = [], c_GameDir = [],
     c_UserDateDir = [], c_UserID = 0, c_GroupID = 0,
     c_Net = \<lparr>IP = [], Host = [], MgntPort = 0, DataPort = 0, AgentMgntPort = 0,
       AgentDataPort = 0, TLS = None\<rparr>,
     c_Auth = \<lparr>Username = [], Password = [], Factor = []\<rparr>, c_Control = None\<rparr>"

definition ParserConfig ::
  "(string \<Rightarrow> (string \<Rightarrow> string option) option) \<Rightarrow> (config \<Rightarrow> string \<Rightarrow> config option) \<Rightarrow>
   (string \<Rightarrow> string option) \<Rightarrow> env \<Rightarrow> string \<Rightarrow> bool \<Rightarrow> (cfg_error + config) outcome" where
  "ParserConfig newCrypto yaml readFile e cfgfile server =
     (case readFile (normalFile (e_cwd e) cfgfile) of
        None \<Rightarrow> Returned (Inl Read_Failed)
      | Some bs \<Rightarrow>
          (case yaml (zero_config\<lparr>c_Server := server\<rparr>) bs of
             None \<Rightarrow> Returned (Inl Bad_Yaml)
           | Some cfg \<Rightarrow>
               (case validate newCrypto cfg of
                  Inl err \<Rightarrow> Returned (Inl err)
                | Inr cfg \<Rightarrow>
                    (case defaultValue e cfg of
                       Returned cfg \<Rightarrow> Returned (Inr cfg)
                     | Exited k \<Rightarrow> Exited k
                     | Panicked \<Rightarrow> Panicked))))"

section \<open>Addresses (http.go)\<close>

text \<open>\<open>fmt.Sprintf("%v")\<close> of an int.\<close>

fun nat_digits :: "nat \<Rightarrow> string" where
  "nat_digits n = (if n < 10 then [char_of (n + 48)] else nat_digits (n div 10) @ [char_of (n mod 10 + 48)])"

declare nat_digits.simps [simp del]

definition show_int :: "int \<Rightarrow> string" where
  "show_int i = (if i < 0 then CHR ''-'' # nat_digits (nat (- i)) else nat_digits (nat i))"

definition host_port :: "string \<Rightarrow> int \<Rightarrow> string" where
  "host_port h p = h @ '':'' @ show_int p"

text \<open>The URL \<open>SendHTTPReqWithClient\<close> builds; a server adds the agents' management port.\<close>

definition request_url :: "config \<Rightarrow> string \<Rightarrow> string \<Rightarrow> string" where
  "request_url cfg addr urlpath =
     (let schema = (if TLS (c_Net cfg) \<noteq> None then ''https'' else ''http'');
          addr = (if c_Server cfg \<and> CHR '':'' \<notin> set addr
                  then host_port addr (AgentMgntPort (c_Net cfg)) else addr)
      in schema @ ''://'' @ addr @ urlpath)"

section \<open>Lemmas\<close>

definition usable :: "config \<Rightarrow> bool" where
  "usable c \<longleftrightarrow>
     (c_Server c \<longrightarrow> AgentMgntPort (c_Net c) \<noteq> 0 \<and> AgentDataPort (c_Net c) \<noteq> 0) \<and>
     Username (c_Auth c) \<noteq> [] \<and> path_IsAbs (c_DownDir c) \<and>
     (c_Log c = [] \<or> path_IsAbs (c_Log c)) \<and>
     (\<forall>cert key. TLS (c_Net c) = Some (cert, key) \<longrightarrow> path_IsAbs cert \<and> path_IsAbs key) \<and>
     (\<exists>ctl. c_Control c = Some ctl \<and> Speed ctl \<noteq> 0 \<and> MaxActive ctl \<noteq> 0 \<and> CacheSize ctl \<noteq> 0)"

lemma defaultControl_nonzero:
  "Speed (defaultControl c) \<noteq> 0 \<and> MaxActive (defaultControl c) \<noteq> 0 \<and> CacheSize (defaultControl c) \<noteq> 0"
  by (simp add: defaultControl_def Let_def split: option.split)

lemma validate_Inr:
  "validate nc c = Inr c' \<Longrightarrow>
   c_Server c' = c_Server c \<and> c_Net c' = c_Net c \<and> Username (c_Auth c') = Username (c_Auth c) \<and>
   (c_Server c \<longrightarrow> AgentMgntPort (c_Net c) \<noteq> 0 \<and> AgentDataPort (c_Net c) \<noteq> 0) \<and>
   (\<not> c_Server c \<longrightarrow> c_DownDir c' \<noteq> []) \<and> Username (c_Auth c) \<noteq> [] \<and> c_Control c' = c_Control c"
  by (auto simp: validate_def split: if_splits option.splits)

lemma defaultValue_Returned:
  assumes "defaultValue e c = Returned c'" "path_IsAbs (e_cwd e)"
  shows "path_IsAbs (c_DownDir c') \<and> (c_Log c' = [] \<or> path_IsAbs (c_Log c')) \<and>
    (\<forall>cert key. TLS (c_Net c') = Some (cert, key) \<longrightarrow> path_IsAbs cert \<and> path_IsAbs key) \<and>
    c_Control c' = Some (defaultControl (c_Control c)) \<and> c_Server c' = c_Server c \<and>
    AgentMgntPort (c_Net c') = AgentMgntPort (c_Net c) \<and>
    AgentDataPort (c_Net c') = AgentDataPort (c_Net c) \<and> c_Auth c' = c_Auth c"
  using assms
  by (auto simp: defaultValue_def Let_def normalFile_abs
      split: outcome.splits option.splits if_splits)

lemma ParserConfig_usable:
  assumes "ParserConfig nc yaml rf e f srv = Returned (Inr c)" "path_IsAbs (e_cwd e)"
  shows "usable c"
proof -
  obtain c1 c2 where v: "validate nc c1 = Inr c2" and d: "defaultValue e c2 = Returned c"
    using assms(1) by (auto simp: ParserConfig_def split: option.splits sum.splits outcome.splits)
  show ?thesis
    using validate_Inr [OF v] defaultValue_Returned [OF d assms(2)] defaultControl_nonzero
    by (auto simp: usable_def)
qed

lemma nat_digits_no_colon: "CHR '':'' \<notin> set (nat_digits n)"
proof (induction n rule: nat_digits.induct)
  case (1 n)
  have d: "char_of (k + 48) \<noteq> CHR '':''" if "k < 10" for k :: nat
  proof
    assume "char_of (k + 48) = CHR '':''"
    then have "(of_char (char_of (k + 48)) :: nat) = of_char CHR '':''" by simp
    then show False using that by simp
  qed
  show ?case using 1 d [of n] d [of "n mod 10"] by (subst nat_digits.simps) auto
qed

end
