(* ===== verification/Listen.thy ===== *)
theory Listen
  imports Peer Config
begin

text \<open>
  \<open>p2p/listen.go\<close>: the header that opens a data connection, its authentication and the
  accept loop.  Go strings are byte strings (\<open>str_bytes\<close>).  The password hash is third-party
  code: \<open>gen\<close> stands for \<open>gcrypto.GenPbkdf2Passwd\<close> (hash and salt) and \<open>cmp\<close> for
  \<open>gcrypto.CmpPbkdf2Passwd\<close>.
\<close>

definition str_bytes :: "string \<Rightarrow> bytes" where
  "str_bytes s = map (\<lambda>c. word_of_nat (of_char c)) s"

definition bytes_str :: "bytes \<Rightarrow> string" where
  "bytes_str bs = map (\<lambda>b. char_of (unat b)) bs"

record pheader =
  h_Len :: "32 word"
  h_TaskID :: string
  h_Username :: string
  h_Password :: string
  h_Salt :: string

datatype header_error = Read_Length | Length_Invalid int | Read_Auth | Read_String

text \<open>\<open>bytes.Buffer.ReadString(0)\<close> without the delimiter, and what is left in the buffer.\<close>

definition readString :: "bytes \<Rightarrow> (bytes \<times> bytes) option" where
  "readString buf =
     (if 0 \<in> set buf then Some (takeWhile (\<lambda>b. b \<noteq> 0) buf, tl (dropWhile (\<lambda>b. b \<noteq> 0) buf))
      else None)"

text \<open>
  The header of a connection whose peer sent the bytes \<open>s\<close>.  The body is read with a single
  \<open>conn.Read\<close>, which returns what has arrived: at most \<open>arrived\<close> bytes, and an error only
  when there is none; the rest of the buffer keeps its zeros.
\<close>

definition readPHeader :: "nat \<Rightarrow> bytes \<Rightarrow> header_error + pheader" where
  "readPHeader arrived s =
     (case readNBOUint32 s of
        None \<Rightarrow> Inl Read_Length
      | Some (bslen, s1) \<Rightarrow>
          if sint bslen \<le> 0 \<or> sint bslen > 200 then Inl (Length_Invalid (sint bslen))
          else
            (let n = min (nat (sint bslen)) (min arrived (length s1)) in
             if n = 0 then Inl Read_Auth
             else
               (let bs = go_copy (replicate (nat (sint bslen)) 0) (take n s1) in
                case (do {
                  (tid, b1) \<leftarrow> readString bs;
                  (usr, b2) \<leftarrow> readString b1;
                  (pwd, b3) \<leftarrow> readString b2;
                  (salt, _) \<leftarrow> readString b3;
                  Some \<lparr>h_Len = bslen, h_TaskID = bytes_str tid, h_Username = bytes_str usr,
                    h_Password = bytes_str pwd, h_Salt = bytes_str salt\<rparr>
                }) of None \<Rightarrow> Inl Read_String | Some h \<Rightarrow> Inr h)))"

definition cstring :: "bytes \<Rightarrow> bytes" where
  "cstring v = v @ [0]"

text \<open>The bytes \<open>writePHeader\<close> puts on the connection.\<close>

definition writePHeader :: "(string \<Rightarrow> string \<times> string) \<Rightarrow> string \<Rightarrow> config \<Rightarrow> bytes" where
  "writePHeader gen taskID cfg =
     (case gen (Password (c_Auth cfg)) of (pwd, salt) \<Rightarrow>
        (let all = [str_bytes taskID, str_bytes (Username (c_Auth cfg)), str_bytes pwd, str_bytes salt];
             blen = sum_list (map (\<lambda>v. length v + 1) all)
         in be32 (word_of_nat blen) @ concat (map cstring all)))"

definition header_validate :: "(string \<Rightarrow> string \<Rightarrow> string \<Rightarrow> bool) \<Rightarrow> pheader \<Rightarrow> config \<Rightarrow> bool" where
  "header_validate cmp h cfg \<longleftrightarrow>
     h_Username h = Username (c_Auth cfg) \<and> cmp (Password (c_Auth cfg)) (h_Salt h) (h_Password h)"

section \<open>The accept loop\<close>

text \<open>
  The results of \<open>listener.Accept\<close>: a connection (peer address, the bytes its peer sends, how
  many arrive with the first read), a temporary error, or another error.  The loop's visible
  actions are the connections it hands to \<open>conChan\<close> and its sleeps; a connection with a bad
  header is dropped and the loop goes on.
\<close>

datatype accept_result = Conn string bytes nat | Temporary_Error | Fatal_Error
datatype accept_action = Deliver peer_conn | Sleep int

definition nextDelay :: "int \<Rightarrow> int" where
  "nextDelay tempDelay =
     (let d = (if tempDelay = 0 then 5000000 else tempDelay * 2) in
      if d > 1000000000 then 1000000000 else d)"

fun acceptLoop ::
  "(string \<Rightarrow> string \<Rightarrow> string \<Rightarrow> bool) \<Rightarrow> config \<Rightarrow> int \<Rightarrow> accept_result list \<Rightarrow> accept_action list" where
  "acceptLoop cmp cfg tempDelay [] = []"
| "acceptLoop cmp cfg tempDelay (Temporary_Error # as) =
     (let d = nextDelay tempDelay in Sleep d # acceptLoop cmp cfg d as)"
| "acceptLoop cmp cfg tempDelay (Fatal_Error # as) = []"
| "acceptLoop cmp cfg tempDelay (Conn addr s arrived # as) =
     (case readPHeader arrived s of
        Inl _ \<Rightarrow> acceptLoop cmp cfg 0 as
      | Inr h \<Rightarrow>
          if \<not> header_validate cmp h cfg then acceptLoop cmp cfg 0 as
          else Deliver \<lparr>pc_client = True, pc_remoteAddr = addr, pc_taskID = h_TaskID h\<rparr>
                 # acceptLoop cmp cfg 0 as)"

section \<open>Lemmas\<close>

lemma bytes_str_str_bytes [simp]: "bytes_str (str_bytes s) = s"
proof -
  have "char_of (unat (word_of_nat (of_char c) :: byte)) = c" for c
  proof -
    have "(of_char c :: nat) < 256" by simp
    then have "unat (word_of_nat (of_char c) :: byte) = of_char c"
      by (simp add: unat_of_nat take_bit_nat_eq_self)
    then show ?thesis by simp
  qed
  then show ?thesis by (simp add: bytes_str_def str_bytes_def comp_def)
qed

lemma str_bytes_zero: "0 \<in> set (str_bytes s) \<longleftrightarrow> CHR 0x00 \<in> set s"
proof -
  have "(word_of_nat (of_char c) :: byte) = 0 \<longleftrightarrow> c = CHR 0x00" for c
  proof
    assume "(word_of_nat (of_char c) :: byte) = 0"
    then have "unat (word_of_nat (of_char c) :: byte) = 0" by simp
    moreover have "(of_char c :: nat) < 256" by simp
    ultimately have "(of_char c :: nat) = 0" by (simp add: unat_of_nat take_bit_nat_eq_self)
    then have "of_char c = (of_char CHR 0x00 :: nat)" by simp
    then show "c = CHR 0x00" by (simp only: of_char_eq_iff)
  qed simp
  then show ?thesis by (force simp: str_bytes_def)
qed

lemma length_str_bytes [simp]: "length (str_bytes s) = length s"
  by (simp add: str_bytes_def)

interpretation cstr: codec cstring readString "\<lambda>v. 0 \<notin> set v"
proof unfold_locales
  fix v r :: bytes
  assume z: "0 \<notin> set v"
  have "takeWhile (\<lambda>b. b \<noteq> 0) (v @ 0 # r) = v" using z by (subst takeWhile_append2) auto
  moreover have "dropWhile (\<lambda>b. b \<noteq> 0) (v @ 0 # r) = 0 # r"
    using z by (subst dropWhile_append2) auto
  ultimately show "readString (cstring v @ r) = Some (v, r)"
    by (simp add: readString_def cstring_def)
qed

definition no_nul :: "string \<Rightarrow> bool" where
  "no_nul s \<longleftrightarrow> CHR 0x00 \<notin> set s"

lemma sint_small: "n \<le> 200 \<Longrightarrow> sint (word_of_nat n :: u32) = int n"
proof -
  assume "n \<le> 200"
  then have u: "uint (word_of_nat n :: u32) = int n"
    by (simp add: uint_nat unat_of_nat take_bit_nat_eq_self)
  have "sint (word_of_nat n :: u32) = signed_take_bit 31 (int n)"
    by (simp add: sint_uint u)
  then show ?thesis using \<open>n \<le> 200\<close> by (simp add: signed_take_bit_int_eq_self)
qed

lemma readPHeader_writePHeader:
  assumes "gen (Password (c_Auth cfg)) = (pwd, salt)"
    and "no_nul taskID" "no_nul (Username (c_Auth cfg))" "no_nul pwd" "no_nul salt"
    and "length taskID + length (Username (c_Auth cfg)) + length pwd + length salt + 4 \<le> arrived"
    and "length taskID + length (Username (c_Auth cfg)) + length pwd + length salt + 4 \<le> 200"
  shows "\<exists>n. readPHeader arrived (writePHeader gen taskID cfg @ rest) =
    Inr \<lparr>h_Len = n, h_TaskID = taskID, h_Username = Username (c_Auth cfg),
         h_Password = pwd, h_Salt = salt\<rparr>"
proof -
  let ?u = "Username (c_Auth cfg)"
  let ?all = "[str_bytes taskID, str_bytes ?u, str_bytes pwd, str_bytes salt]"
  let ?n = "length taskID + length ?u + length pwd + length salt + 4"
  let ?bs = "concat (map cstring ?all)"
  have l: "length ?bs = ?n" by (simp add: cstring_def)
  have blen: "sum_list (map (\<lambda>v. length v + 1) ?all) = ?n" by simp
  have s: "sint (word_of_nat ?n :: u32) = int ?n" using assms(7) by (rule sint_small)
  have ok: "0 \<notin> set (str_bytes taskID)" "0 \<notin> set (str_bytes ?u)" "0 \<notin> set (str_bytes pwd)"
    "0 \<notin> set (str_bytes salt)"
    using assms(2-5) by (simp_all add: str_bytes_zero no_nul_def)
  have w: "writePHeader gen taskID cfg = be32 (word_of_nat ?n) @ ?bs"
    unfolding writePHeader_def assms(1) Let_def prod.case blen by simp
  have rd: "readString (cstring v @ r) = Some (v, r)" if "0 \<notin> set v" for v r
    using that by (rule cstr.dec_enc)
  have t: "go_copy (replicate ?n 0) (take ?n (?bs @ rest)) = ?bs"
    using l by (simp add: go_copy_def)
  have m: "min ?n (min arrived (length (?bs @ rest))) = ?n" using assms(6) l by simp
  have nz: "\<not> (int ?n \<le> 0 \<or> int ?n > 200)" "?n \<noteq> 0" using assms(7) by linarith+
  show ?thesis
    unfolding w append_assoc readPHeader_def readNBOUint32_be32 option.case prod.case s nat_int
      m t Let_def if_not_P [OF nz(1)] if_not_P [OF nz(2)]
    using ok rd [of "str_bytes salt" "[]"] by (simp add: rd)
qed

end
