(* ===== verification/Float32.thy ===== *)
theory Float32
  imports Complex_Main Prelude
begin

text \<open>
  Go's \<open>float32\<close> where the code uses it for percentages and \<open>float64\<close> where it computes transfer
  rates: a finite value is the rational number it stands for; an operation rounds the exact result
  to the nearest number with a significand of 24 or 53 bits, ties to even.  The values are far from
  the overflow and underflow ranges, which are not modelled.
\<close>

fun bit_length :: "nat \<Rightarrow> nat" where
  "bit_length n = (if n = 0 then 0 else Suc (bit_length (n div 2)))"

declare bit_length.simps [simp del]

text \<open>The quotient \<open>a / b\<close> rounded to the nearest integer, ties to even.\<close>

definition round_even :: "nat \<Rightarrow> nat \<Rightarrow> nat" where
  "round_even a b =
     (let q = a div b; r = a mod b in
      if 2 * r < b \<or> (2 * r = b \<and> even q) then q else Suc q)"

text \<open>\<open>fl_quot p a b\<close> is \<open>a / b\<close> rounded to \<open>p\<close> bits, with \<open>a * 2 ^ s / b\<close> or
  \<open>a / (b * 2 ^ s)\<close> in the range of the significand.\<close>

definition fl_exp :: "nat \<Rightarrow> nat \<Rightarrow> int" where
  "fl_exp a b = (let e = int (bit_length a) - int (bit_length b) in
     if b * 2 ^ nat e \<le> a * 2 ^ nat (- e) then e else e - 1)"

definition fl_quot :: "nat \<Rightarrow> nat \<Rightarrow> nat \<Rightarrow> rat" where
  "fl_quot p a b =
     (if a = 0 \<or> b = 0 then 0
      else
        (let s = int p - 1 - fl_exp a b
         in if s \<ge> 0 then of_nat (round_even (a * 2 ^ nat s) b) / 2 ^ nat s
            else of_nat (round_even a (b * 2 ^ nat (- s))) * 2 ^ nat (- s)))"

definition f32_quot :: "nat \<Rightarrow> nat \<Rightarrow> rat" where
  "f32_quot a b = fl_quot 24 a b"

definition f32_of_nat :: "nat \<Rightarrow> rat" where
  "f32_of_nat n = f32_quot n 1"

text \<open>\<open>x / y\<close> of two positive \<open>float32\<close> values.\<close>

definition f32_div :: "rat \<Rightarrow> rat \<Rightarrow> rat" where
  "f32_div x y =
     (case quotient_of (x / y) of (n, d) \<Rightarrow> f32_quot (nat n) (nat d))"

text \<open>The \<open>float64\<close> next to a number.\<close>

definition f64 :: "rat \<Rightarrow> rat" where
  "f64 x = (case quotient_of x of (n, d) \<Rightarrow>
     if n < 0 then - fl_quot 53 (nat (- n)) (nat d) else fl_quot 53 (nat n) (nat d))"

section \<open>Rounding errors\<close>

lemma bit_length_bounds: "0 < n \<Longrightarrow> 2 ^ bit_length n \<le> 2 * n \<and> n < 2 ^ bit_length n"
proof (induction n rule: bit_length.induct)
  case (1 n)
  show ?case
  proof (cases "n div 2 = 0")
    case True
    then have "n = 1" using 1(2) by (auto simp: div_eq_0_iff)
    then show ?thesis by (simp add: bit_length.simps)
  next
    case False
    then have "2 ^ bit_length (n div 2) \<le> 2 * (n div 2)" "n div 2 < 2 ^ bit_length (n div 2)"
      using 1 by auto
    moreover have "bit_length n = Suc (bit_length (n div 2))" using 1(2) by (simp add: bit_length.simps [of n])
    moreover have "2 * (n div 2) \<le> n" "n < 2 * (n div 2) + 2" by linarith+
    ultimately show ?thesis by simp
  qed
qed

lemma powi_nat_split: "2 powi e * 2 ^ nat (- e) = (2 ^ nat e :: rat)"
  by (cases "0 \<le> e") (auto simp: power_int_def field_simps)

lemma fl_exp_le:
  assumes "0 < a" "0 < b"
  shows "2 powi (fl_exp a b) \<le> (of_nat a / of_nat b :: rat)"
proof -
  define e where "e = int (bit_length a) - int (bit_length b)"
  show ?thesis
  proof (cases "b * 2 ^ nat e \<le> a * 2 ^ nat (- e)")
    case True
    then have "of_nat (b * 2 ^ nat e) \<le> (of_nat (a * 2 ^ nat (- e)) :: rat)"
      by (simp only: of_nat_le_iff)
    then have "of_nat b * 2 ^ nat e \<le> (of_nat a * 2 ^ nat (- e) :: rat)" by simp
    then have "of_nat b * 2 powi e * 2 ^ nat (- e) \<le> (of_nat a * 2 ^ nat (- e) :: rat)"
      using powi_nat_split [of e] by (simp add: mult.assoc)
    then have "of_nat b * 2 powi e \<le> (of_nat a :: rat)" by simp
    then show ?thesis using True assms(2) by (simp add: fl_exp_def Let_def e_def field_simps)
  next
    case False
    have bl: "2 ^ bit_length a \<le> 2 * a" "b < 2 ^ bit_length b" using assms bit_length_bounds by blast+
    have "of_nat (2 ^ bit_length a) \<le> (of_nat (2 * a) :: rat)" using bl(1) by (simp only: of_nat_le_iff)
    moreover have "of_nat b \<le> (2 ^ bit_length b :: rat)"
      using bl(2) by (metis less_imp_le of_nat_le_iff of_nat_numeral of_nat_power)
    moreover have "2 powi (e - 1) * 2 ^ bit_length b = (2 ^ bit_length a / 2 :: rat)"
      by (simp add: e_def power_int_diff)
    moreover have "2 powi (e - 1) * of_nat b \<le> (2 powi (e - 1) * 2 ^ bit_length b :: rat)"
      using calculation(2) by (intro mult_left_mono) (simp_all only: zero_le_power_int zero_le_numeral)
    moreover have "of_nat (2 * a) = (2 * of_nat a :: rat)" "of_nat (2 ^ bit_length a) = (2 ^ bit_length a :: rat)"
      by simp_all
    ultimately have "2 powi (e - 1) * of_nat b \<le> (of_nat a :: rat)" by linarith
    then show ?thesis using False assms(2) by (simp add: fl_exp_def Let_def e_def field_simps)
  qed
qed

lemma round_even_error:
  assumes "0 < b"
  shows "\<bar>of_nat (round_even a b) - of_nat a / of_nat b\<bar> \<le> (1 / 2 :: rat)"
proof -
  define q x :: rat where "q = of_nat (a div b)" and "x = of_nat (a mod b) / of_nat b"
  have "(of_nat a :: rat) = of_nat b * of_nat (a div b) + of_nat (a mod b)"
    by (metis mult_div_mod_eq of_nat_add of_nat_mult)
  then have e: "of_nat a / of_nat b = q + x" using assms by (simp add: q_def x_def add_divide_distrib)
  have l: "2 * (a mod b) \<le> b \<Longrightarrow> x \<le> 1 / 2" and g: "b \<le> 2 * (a mod b) \<Longrightarrow> 1 / 2 \<le> x"
    using assms unfolding x_def by (simp_all add: field_simps)
  have x: "0 \<le> x" "x \<le> 1" using assms by (simp_all add: x_def less_imp_le)
  show ?thesis
  proof (cases "2 * (a mod b) < b \<or> (2 * (a mod b) = b \<and> even (a div b))")
    case True
    then have "round_even a b = a div b" by (simp add: round_even_def Let_def)
    moreover have "x \<le> 1 / 2" using True l by auto
    ultimately show ?thesis using x(1) e unfolding q_def by (simp only: abs_le_iff) linarith
  next
    case False
    then have "of_nat (round_even a b) = q + 1" by (simp add: round_even_def Let_def q_def)
    moreover have "1 / 2 \<le> x" using False g by linarith
    ultimately show ?thesis using x e unfolding abs_le_iff by linarith
  qed
qed

lemma fl_quot_error:
  assumes "0 < p"
  shows "\<bar>fl_quot p a b - of_nat a / of_nat b\<bar> \<le> (of_nat a / of_nat b) / 2 ^ p"
proof (cases "a = 0 \<or> b = 0")
  case True
  then show ?thesis by (auto simp: fl_quot_def)
next
  case False
  then have pos: "0 < a" "0 < b" by auto
  define q :: rat where "q = of_nat a / of_nat b"
  define s where "s = int p - 1 - fl_exp a b"
  obtain m where m: "fl_quot p a b = of_nat m * 2 powi (- s)" "\<bar>of_nat m - q * 2 powi s\<bar> \<le> 1 / 2"
  proof (cases "0 \<le> s")
    case True
    have "\<bar>of_nat (round_even (a * 2 ^ nat s) b) - q * 2 powi s\<bar> \<le> 1 / 2"
      using round_even_error [OF pos(2), of "a * 2 ^ nat s"] True by (simp add: q_def power_int_def)
    then show ?thesis using False True
      by (intro that [of "round_even (a * 2 ^ nat s) b"])
        (simp_all add: fl_quot_def Let_def s_def power_int_def power_int_minus field_simps)
  next
    case neg: False
    have "\<bar>of_nat (round_even a (b * 2 ^ nat (- s))) - q * 2 powi s\<bar> \<le> 1 / 2"
      using round_even_error [of "b * 2 ^ nat (- s)" a] neg pos(2)
      by (simp add: q_def power_int_def field_simps)
    then show ?thesis using False neg
      by (intro that [of "round_even a (b * 2 ^ nat (- s))"])
        (simp_all add: fl_quot_def Let_def s_def power_int_def)
  qed
  have "fl_quot p a b - q = (of_nat m - q * 2 powi s) * 2 powi (- s)"
    by (simp add: m(1) power_int_minus field_simps)
  then have "\<bar>fl_quot p a b - q\<bar> = \<bar>of_nat m - q * 2 powi s\<bar> * 2 powi (- s)"
    by (simp add: abs_mult)
  also have "\<dots> \<le> 1 / 2 * 2 powi (- s)" using m(2) by (intro mult_right_mono) simp_all
  also have "1 / 2 * 2 powi (- s) = (2 powi fl_exp a b / 2 ^ p :: rat)"
    by (simp add: s_def power_int_diff power_int_add field_simps)
  also have "\<dots> \<le> q / 2 ^ p" unfolding q_def by (intro divide_right_mono fl_exp_le [OF pos]) simp
  finally show ?thesis by (simp add: q_def)
qed

lemma f64_error: "0 \<le> x \<Longrightarrow> \<bar>f64 x - x\<bar> \<le> x / 2 ^ 53"
proof -
  assume x: "0 \<le> x"
  obtain n d where q: "quotient_of x = (n, d)" by (cases "quotient_of x")
  then have d: "0 < d" "x = of_int n / of_int d" by (simp_all add: quotient_of_denom_pos quotient_of_div)
  with x have n: "0 \<le> n" by (simp add: zero_le_divide_iff)
  have "f64 x = fl_quot 53 (nat n) (nat d)" using q n by (simp add: f64_def)
  moreover have "x = of_nat (nat n) / of_nat (nat d)" using d n by simp
  ultimately show ?thesis using fl_quot_error [of 53 "nat n" "nat d"] by simp
qed

lemma f64_nonneg [simp]: "0 \<le> x \<Longrightarrow> 0 \<le> f64 x"
proof -
  assume x: "0 \<le> x"
  then have "x - f64 x \<le> x / 2 ^ 53" using f64_error [of x] by linarith
  moreover have "x / 2 ^ 53 \<le> x" using x by simp
  ultimately show "0 \<le> f64 x" by linarith
qed

lemma f64_zero [simp]: "f64 0 = 0"
  using f64_error [of 0] by (simp only: diff_0_right div_0 abs_le_zero_iff order.refl)

lemma f64_upper: "0 \<le> x \<Longrightarrow> f64 x \<le> x * (1 + 1 / 2 ^ 53)"
proof -
  assume "0 \<le> x"
  then have "f64 x - x \<le> x / 2 ^ 53" using f64_error [of x] by linarith
  then show ?thesis by (simp only: distrib_left mult_1_right times_divide_eq_right)
qed

end
