(* ===== verification/Session.thy ===== *)
theory Session
  imports Piece Listen Float32
begin

text \<open>
  \<open>p2p/session.go\<close>: one task on one node.  The goroutine of \<open>Init\<close> handles one event at a
  time; a handler is a function from the state to the next state, and \<open>None\<close> is a handler that
  does not come back: it panics, or it blocks for ever.  Peers are objects: \<open>s_heap\<close> holds
  every peer made, and the map \<open>s_peers\<close> refers to them by their position there, because a
  closed peer that has left the map can still deliver messages.
\<close>

section \<open>Data\<close>

record link_chain =
  lc_DispatchAddrs :: "string list"
  lc_ServerAddr :: string

record dispatch_task =
  dt_TaskID :: string
  dt_FileType :: int
  dt_GID :: int
  dt_Version :: int
  dt_StorageDir :: string
  dt_MetaInfo :: meta_info
  dt_LinkChain :: "link_chain option"
  dt_Speed :: int

record start_task =
  st_TaskID :: string
  st_LinkChain :: "link_chain option"

record session =
  s_cfg :: config
  s_taskID :: string
  s_task :: dispatch_task
  s_disk :: disk
  s_fileStore :: "file_store option"
  s_pieceSet :: "bitset option"
  s_totalPieces :: int
  s_totalSize :: int
  s_lastPieceLength :: int
  s_goodPieces :: int
  s_downloaded :: u64
  s_activePieces :: "(int \<times> active_piece) list"
  s_heap :: "peer list"
  s_peers :: "(string \<times> nat) list"
  s_retryConn :: bool
  s_indexInChain :: int
  s_connFailCount :: int
  s_reports :: "rat list" \<comment> \<open>the percentages handed to the reporter\<close>
  s_deploys :: nat
  s_reportStep :: int
  s_initedAt :: "int option"
  s_startAt :: "int option"
  s_finishedAt :: "int option"
  s_stopSess :: "string list" \<comment> \<open>sent to the session manager\<close>
  s_ended :: bool

datatype sess_error = Eof | Unexpected_Length | Have_Out_Of_Range | Invalid_Bitfield
  | Unknown_Message byte | Piece_Out_Of_Range | No_Such_Piece | Begin_Out_Of_Range
  | Length_Out_Of_Range | Block_Too_Large | Store_Error io_error | Dial_Error

text \<open>
  What a handler meets outside the session: the time, the results of \<open>rand.Intn\<close>, the
  orders in which Go iterates over its maps, which peers' writer goroutines still take messages,
  the outcome of a dial, the files present, and the operating system.
\<close>

datatype dial_result = Dial_Failed | Header_Failed | Response_Failed | Connected string

record world =
  w_now :: int
  w_intn :: "nat \<Rightarrow> int \<Rightarrow> int"
  w_keys :: "nat \<Rightarrow> int list \<Rightarrow> int list"
  w_ids :: "nat list \<Rightarrow> nat list"
  w_writes :: "nat \<Rightarrow> bool"
  w_dial :: "string \<Rightarrow> dial_result"
  w_exists :: "string \<Rightarrow> bool"
  w_fs :: fs_env
  w_srt :: "(int \<times> int) list \<Rightarrow> (int \<times> int) list"
  w_clk :: "int \<Rightarrow> int"
  w_hashes :: "(int \<times> bytes) list \<Rightarrow> (int \<times> bytes) list"

fun returns :: "'a run \<Rightarrow> 'a option" where
  "returns (Ret x) = Some x"
| "returns _ = None"

definition NewTaskSession :: "config \<Rightarrow> disk \<Rightarrow> dispatch_task \<Rightarrow> session" where
  "NewTaskSession cfg d dt = \<lparr>s_cfg = cfg, s_taskID = dt_TaskID dt, s_task = dt, s_disk = d,
     s_fileStore = None, s_pieceSet = None, s_totalPieces = 0, s_totalSize = 0,
     s_lastPieceLength = 0, s_goodPieces = 0, s_downloaded = 0, s_activePieces = [], s_heap = [],
     s_peers = [], s_retryConn = False, s_indexInChain = 0, s_connFailCount = 0, s_reports = [],
     s_deploys = 0, s_reportStep = 0, s_initedAt = None, s_startAt = None, s_finishedAt = None,
     s_stopSess = [], s_ended = False\<rparr>"

definition pieceLen :: "session \<Rightarrow> int" where
  "pieceLen s = mi_PieceLen (dt_MetaInfo (s_task s))"

definition peer_at :: "session \<Rightarrow> nat \<Rightarrow> peer" where
  "peer_at s i = s_heap s ! i"

definition upd_peer :: "session \<Rightarrow> nat \<Rightarrow> (peer \<Rightarrow> peer) \<Rightarrow> session" where
  "upd_peer s i f = s\<lparr>s_heap := (s_heap s)[i := f (peer_at s i)]\<rparr>"

text \<open>A send on the unbuffered \<open>writeChan\<close> waits for the peer's writer goroutine.\<close>

definition send_peer :: "world \<Rightarrow> session \<Rightarrow> nat \<Rightarrow> (peer \<Rightarrow> peer) \<Rightarrow> session option" where
  "send_peer w s i f = (if w_writes w i then Some (upd_peer s i f) else None)"

definition set_active :: "session \<Rightarrow> int \<Rightarrow> active_piece \<Rightarrow> session" where
  "set_active s k a = s\<lparr>s_activePieces := AList.update k a (s_activePieces s)\<rparr>"

text \<open>\<open>go s.reportStatus(x)\<close>, which reads the task's \<open>LinkChain\<close>.\<close>

definition sess_reportStatus :: "session \<Rightarrow> rat \<Rightarrow> session option" where
  "sess_reportStatus s pecent = do {
     _ \<leftarrow> dt_LinkChain (s_task s);
     Some (s\<lparr>s_reports := s_reports s @ [pecent]\<rparr>)
   }"

definition sess_deploy :: "session \<Rightarrow> session option" where
  "sess_deploy s = do {
     _ \<leftarrow> dt_LinkChain (s_task s);
     Some (s\<lparr>s_deploys := s_deploys s + 1\<rparr>)
   }"

section \<open>Requesting blocks\<close>

definition sess_pieceLength :: "session \<Rightarrow> int \<Rightarrow> int" where
  "sess_pieceLength s piece =
     (if piece < s_totalPieces s - 1 then pieceLen s else s_lastPieceLength s)"

definition requestBlockImp :: "world \<Rightarrow> session \<Rightarrow> nat \<Rightarrow> int \<Rightarrow> int \<Rightarrow> session option" where
  "requestBlockImp w s i piece block =
     (let begin = block * standardBlockLen;
          len = (if piece = s_totalPieces s - 1
                 then (let left = s_lastPieceLength s - begin in
                       if left < standardBlockLen then left else standardBlockLen)
                 else standardBlockLen)
      in send_peer w s i (\<lambda>p. SendRequest p (w_now w) piece begin len))"

definition requestBlock2 ::
  "world \<Rightarrow> session \<Rightarrow> nat \<Rightarrow> int \<Rightarrow> bool \<Rightarrow> (session \<times> sess_error option) option" where
  "requestBlock2 w s i piece endGame = do {
     v \<leftarrow> map_of (s_activePieces s) piece;
     let (v, block) = chooseBlockToDownload v endGame;
     let s = set_active s piece v;
     if block \<ge> 0 then do {
       s \<leftarrow> requestBlockImp w s i piece block;
       Some (s, None)
     } else Some (s, Some Eof)
   }"

text \<open>
  The loops over \<open>activePieces\<close> in \<open>requestBlock\<close>: \<open>Inl\<close> when the loop returned, \<open>Inr\<close>
  with the value of \<open>err\<close> when it ran through.
\<close>

fun tryActive ::
  "world \<Rightarrow> session \<Rightarrow> nat \<Rightarrow> bool \<Rightarrow> int list \<Rightarrow> sess_error option \<Rightarrow>
   (session \<times> (sess_error option + sess_error option)) option" where
  "tryActive w s i endGame [] err = Some (s, Inr err)"
| "tryActive w s i endGame (k # ks) err = do {
     have \<leftarrow> p_have (peer_at s i);
     b \<leftarrow> IsSet have k;
     if b then do {
       (s, err) \<leftarrow> requestBlock2 w s i k endGame;
       if err \<noteq> Some Eof then Some (s, Inl err) else tryActive w s i endGame ks err
     } else tryActive w s i endGame ks err
   }"

text \<open>The loop of \<open>checkRange\<close> over the \<open>k\<close> indices from \<open>i\<close> on.\<close>

fun checkRangeLoop ::
  "(int \<times> active_piece) list \<Rightarrow> bitset \<Rightarrow> bitset \<Rightarrow> int \<Rightarrow> nat \<Rightarrow> int option" where
  "checkRangeLoop active have pieceSet i 0 = Some (-1)"
| "checkRangeLoop active have pieceSet i (Suc k) = do {
     mine \<leftarrow> IsSet pieceSet i;
     theirs \<leftarrow> (if \<not> mine then IsSet have i else Some False);
     if \<not> mine \<and> theirs \<and> map_of active i = None then Some i
     else checkRangeLoop active have pieceSet (i + 1) k
   }"

definition sess_checkRange :: "session \<Rightarrow> nat \<Rightarrow> int \<Rightarrow> int \<Rightarrow> int option" where
  "sess_checkRange s i start end = do {
     have \<leftarrow> p_have (peer_at s i);
     pieceSet \<leftarrow> s_pieceSet s;
     let clampedEnd = min_int end (min_int (bs_n have) (bs_n pieceSet));
     checkRangeLoop (s_activePieces s) have pieceSet start (nat (clampedEnd - start))
   }"

definition choosePiece :: "world \<Rightarrow> nat \<Rightarrow> session \<Rightarrow> nat \<Rightarrow> int option" where
  "choosePiece w call s i = do {
     let n = s_totalPieces s;
     start \<leftarrow> (if n \<le> 0 then None else Some (w_intn w call n));
     piece \<leftarrow> sess_checkRange s i start n;
     if piece = -1 then sess_checkRange s i 0 start else Some piece
   }"

text \<open>\<open>call\<close> numbers the calls within one handler, so that each has its own random choices.\<close>

definition requestBlock :: "world \<Rightarrow> nat \<Rightarrow> session \<Rightarrow> nat \<Rightarrow> (session \<times> sess_error option) option" where
  "requestBlock w call s i = do {
     (s, r) \<leftarrow> tryActive w s i False (w_keys w (2 * call) (map fst (s_activePieces s))) None;
     case r of
       Inl err \<Rightarrow> Some (s, err)
     | Inr err \<Rightarrow> do {
         piece \<leftarrow> choosePiece w call s i;
         if piece < 0 then do {
           (s, r) \<leftarrow> tryActive w s i True (w_keys w (2 * call + 1) (map fst (s_activePieces s))) err;
           Some (s, case r of Inl e \<Rightarrow> e | Inr e \<Rightarrow> e)
         } else do {
           a \<leftarrow> NewActivePiece (sess_pieceLength s piece);
           requestBlock2 w (set_active s piece a) i piece False
         }
       }
   }"

section \<open>Serving a request\<close>

text \<open>The 32-bit number at byte \<open>k\<close> of a message.\<close>

definition msg_u32 :: "bytes \<Rightarrow> nat \<Rightarrow> u32 option" where
  "msg_u32 message k = bytesToUint32 (take 4 (drop k message))"

definition decodeRequest ::
  "session \<Rightarrow> nat \<Rightarrow> bytes \<Rightarrow> (sess_error + u32 \<times> u32 \<times> u32) option" where
  "decodeRequest s i message =
     (if length message \<noteq> 13 then Some (Inl Unexpected_Length)
      else do {
        index \<leftarrow> msg_u32 message 1;
        begin \<leftarrow> msg_u32 message 5;
        len \<leftarrow> msg_u32 message 9;
        have \<leftarrow> p_have (peer_at s i);
        if index \<ge> word_of_int (bs_n have) then Some (Inl Piece_Out_Of_Range)
        else do {
          pieceSet \<leftarrow> s_pieceSet s;
          b \<leftarrow> IsSet pieceSet (uint index);
          Some (if \<not> b then Inl No_Such_Piece
            else if uint begin \<ge> pieceLen s then Inl Begin_Out_Of_Range
            else if uint begin + uint len > pieceLen s then Inl Length_Out_Of_Range
            else Inr (index, begin, len))
        }
      })"

text \<open>\<open>length+9\<close> is a \<open>uint32\<close>; a buffer shorter than the header panics when it is sliced.\<close>

definition piece_msg :: "u32 \<Rightarrow> u32 \<Rightarrow> bytes \<Rightarrow> bytes" where
  "piece_msg index begin data = PIECE # be32 index @ be32 begin @ data"

definition sendPiece ::
  "world \<Rightarrow> session \<Rightarrow> nat \<Rightarrow> u32 \<Rightarrow> u32 \<Rightarrow> u32 \<Rightarrow> (session \<times> sess_error option) option" where
  "sendPiece w s i index begin len =
     (let n = unat (len + 9) in
      if n < 9 then None
      else do {
        fs \<leftarrow> s_fileStore s;
        (data, _, err) \<leftarrow> returns (fs_ReadAt (s_disk s) fs (replicate (n - 9) 0)
          (uint index * pieceLen s + uint begin));
        case err of
          Some e \<Rightarrow> Some (s, Some (Store_Error e))
        | None \<Rightarrow> do {
            s \<leftarrow> send_peer w s i (\<lambda>p. sendMessage p (piece_msg index begin data));
            Some (s, None)
          }
      })"

section \<open>Receiving a block\<close>

definition decodePiece ::
  "session \<Rightarrow> nat \<Rightarrow> bytes \<Rightarrow> (sess_error + u32 \<times> u32 \<times> u32) option" where
  "decodePiece s i message =
     (if length message < 9 then Some (Inl Unexpected_Length)
      else do {
        index \<leftarrow> msg_u32 message 1;
        begin \<leftarrow> msg_u32 message 5;
        let len = (word_of_int (int (length message) - 9) :: u32);
        have \<leftarrow> p_have (peer_at s i);
        Some (if index \<ge> word_of_int (bs_n have) then Inl Piece_Out_Of_Range
          else if uint begin \<ge> pieceLen s then Inl Begin_Out_Of_Range
          else if uint begin + uint len > pieceLen s then Inl Length_Out_Of_Range
          else if unat len > maxBlockLen then Inl Block_Too_Large
          else Inr (index, begin, len))
      })"

definition percentComplete :: "session \<Rightarrow> rat" where
  "percentComplete s =
     (if s_totalPieces s > 0
      then f32_div (f32_of_nat (nat (s_goodPieces s * 100))) (f32_of_nat (nat (s_totalPieces s)))
      else 0)"

text \<open>The HAVE broadcast at the end of \<open>recordBlock\<close>.\<close>

fun broadcastHave :: "world \<Rightarrow> session \<Rightarrow> u32 \<Rightarrow> nat list \<Rightarrow> session option" where
  "broadcastHave w s piece [] = Some s"
| "broadcastHave w s piece (i # is) =
     (case p_have (peer_at s i) of
        None \<Rightarrow> broadcastHave w s piece is
      | Some have \<Rightarrow> do {
          wants \<leftarrow> (if uint piece \<ge> bs_n have then Some True
            else do { b \<leftarrow> IsSet have (uint piece); Some (\<not> b) });
          s \<leftarrow> (if wants then send_peer w s i (\<lambda>p. SendHave p piece) else Some s);
          broadcastHave w s piece is
        })"

text \<open>What \<open>recordBlock\<close> does once the last block of an active piece has arrived.\<close>

definition progress :: "world \<Rightarrow> session \<Rightarrow> session option" where
  "progress w s =
     (let percent = percentComplete s in
      if s_goodPieces s = s_totalPieces s
      then do {
        s \<leftarrow> sess_reportStatus (s\<lparr>s_finishedAt := Some (w_now w)\<rparr>) percent;
        sess_deploy s
      }
      else if \<lfloor>percent\<rfloor> > s_reportStep s
      then sess_reportStatus (s\<lparr>s_reportStep := s_reportStep s + 10\<rparr>) percent
      else Some s)"

definition finishPiece :: "world \<Rightarrow> session \<Rightarrow> nat \<Rightarrow> u32 \<Rightarrow> session option" where
  "finishPiece w s i piece = do {
     let s = s\<lparr>s_activePieces := AList.delete (uint piece) (s_activePieces s)\<rparr>;
     fs \<leftarrow> s_fileStore s;
     (good, pieceBytes, err) \<leftarrow>
       returns (checkPiece (s_disk s) fs (s_totalSize s) (dt_MetaInfo (s_task s)) (uint piece));
     if \<not> good \<or> err \<noteq> None then do {
       s \<leftarrow> sess_reportStatus s (-1);
       Some (upd_peer s i peerClose)
     } else do {
       (d, fs) \<leftarrow> returns (fs_Commit (s_disk s) fs (uint piece) pieceBytes (pieceLen s * uint piece));
       pieceSet \<leftarrow> s_pieceSet s;
       pieceSet \<leftarrow> BSet pieceSet (uint piece);
       let s = s\<lparr>s_disk := d, s_fileStore := Some fs, s_pieceSet := Some pieceSet,
         s_goodPieces := s_goodPieces s + 1\<rparr>;
       s \<leftarrow> progress w s;
       broadcastHave w s piece (w_ids w (map snd (s_peers s)))
     }
   }"

definition sess_recordBlock :: "world \<Rightarrow> session \<Rightarrow> nat \<Rightarrow> u32 \<Rightarrow> u32 \<Rightarrow> u32 \<Rightarrow> session option" where
  "sess_recordBlock w s i piece begin len = do {
     let block = uint begin div standardBlockLen;
     let s = upd_peer s i (\<lambda>p. p\<lparr>p_ourRequests :=
       AList.delete (requestIndex (uint piece) (uint begin)) (p_ourRequests p)\<rparr>);
     case map_of (s_activePieces s) (uint piece) of
       None \<Rightarrow> Some s
     | Some v \<Rightarrow> do {
         (v, _) \<leftarrow> ap_recordBlock v block;
         let s = (set_active s (uint piece) v)\<lparr>s_downloaded := s_downloaded s + ucast len\<rparr>;
         if \<not> isComplete v then Some s else finishPiece w s i piece
       }
   }"

section \<open>Messages\<close>

definition handleHave :: "world \<Rightarrow> session \<Rightarrow> nat \<Rightarrow> bytes \<Rightarrow> (session \<times> sess_error option) option" where
  "handleHave w s i message =
     (if length message \<noteq> 5 then Some (s, Some Unexpected_Length)
      else do {
        n \<leftarrow> msg_u32 message 1;
        have \<leftarrow> p_have (peer_at s i);
        if n \<ge> word_of_int (bs_n have) then Some (s, Some Have_Out_Of_Range)
        else do {
          have \<leftarrow> BSet have (uint n);
          let s = upd_peer s i (\<lambda>p. p\<lparr>p_have := Some have\<rparr>);
          if \<not> p_client (peer_at s i) then do {
            s \<leftarrow> fold (\<lambda>call r. do { s \<leftarrow> r; (s, _) \<leftarrow> requestBlock w call s i; Some s })
              [0..<maxOurRequests] (Some s);
            Some (s, None)
          } else Some (s, None)
        }
      })"

definition handleBitfield :: "world \<Rightarrow> session \<Rightarrow> nat \<Rightarrow> bytes \<Rightarrow> (session \<times> sess_error option) option" where
  "handleBitfield w s i message = do {
     have \<leftarrow> NewBitsetFromBytes (s_totalPieces s) (drop 1 message);
     let s = upd_peer s i (\<lambda>p. p\<lparr>p_have := have\<rparr>);
     if have = None then Some (s, Some Invalid_Bitfield)
     else if \<not> p_client (peer_at s i) then do {
       (s, _) \<leftarrow> requestBlock w 0 s i;
       Some (s, None)
     } else Some (s, None)
   }"

definition handleRequest :: "world \<Rightarrow> session \<Rightarrow> nat \<Rightarrow> bytes \<Rightarrow> (session \<times> sess_error option) option" where
  "handleRequest w s i message = do {
     r \<leftarrow> decodeRequest s i message;
     case r of
       Inl err \<Rightarrow> Some (s, Some err)
     | Inr (index, begin, len) \<Rightarrow> sendPiece w s i index begin len
   }"

definition handlePiece :: "world \<Rightarrow> session \<Rightarrow> nat \<Rightarrow> bytes \<Rightarrow> (session \<times> sess_error option) option" where
  "handlePiece w s i message = do {
     r \<leftarrow> decodePiece s i message;
     case r of
       Inl err \<Rightarrow> Some (s, Some err)
     | Inr (index, begin, len) \<Rightarrow> do {
         pieceSet \<leftarrow> s_pieceSet s;
         present \<leftarrow> IsSet pieceSet (uint index);
         if present then do {
           (s, _) \<leftarrow> requestBlock w 0 s i;
           Some (s, None)
         } else do {
           fs \<leftarrow> s_fileStore s;
           (d, fs, _, err) \<leftarrow> returns (fs_WriteAt (w_srt w) (w_clk w) (s_disk s) fs (drop 9 message)
             (uint index * pieceLen s + uint begin));
           let s = s\<lparr>s_disk := d, s_fileStore := Some fs\<rparr>;
           case err of
             Some e \<Rightarrow> Some (s, Some (Store_Error e))
           | None \<Rightarrow> do {
               s \<leftarrow> sess_recordBlock w s i index begin len;
               (s, _) \<leftarrow> requestBlock w 0 s i;
               Some (s, None)
             }
         }
       }
   }"

definition generalMessage :: "world \<Rightarrow> session \<Rightarrow> nat \<Rightarrow> bytes \<Rightarrow> (session \<times> sess_error option) option" where
  "generalMessage w s i message = do {
     messageID \<leftarrow> go_index message 0;
     if messageID = HAVE then handleHave w s i message
     else if messageID = BITFIELD then handleBitfield w s i message
     else if messageID = REQUEST then handleRequest w s i message
     else if messageID = PIECE then handlePiece w s i message
     else Some (s, Some (Unknown_Message messageID))
   }"

text \<open>\<open>None\<close> is the \<open>nil\<close> message of a reader or writer goroutine that has left its loop.\<close>

definition doMessage :: "world \<Rightarrow> session \<Rightarrow> nat \<Rightarrow> bytes option \<Rightarrow> (session \<times> sess_error option) option" where
  "doMessage w s i message =
     (case message of
        None \<Rightarrow> Some (s, Some Eof)
      | Some m \<Rightarrow> if m = [] then Some (s, None) else generalMessage w s i m)"

section \<open>Closing peers\<close>

definition removeRequest :: "session \<Rightarrow> int \<Rightarrow> int \<Rightarrow> session option" where
  "removeRequest s piece block =
     (case map_of (s_activePieces s) piece of
        None \<Rightarrow> Some s
      | Some v \<Rightarrow> do {
          c \<leftarrow> go_index (ap_downloaderCount v) block;
          if c > 0 then do {
            counts \<leftarrow> go_store (ap_downloaderCount v) block (c - 1);
            Some (set_active s piece (v\<lparr>ap_downloaderCount := counts\<rparr>))
          } else Some s
        })"

fun removeKeys :: "session \<Rightarrow> u64 list \<Rightarrow> session option" where
  "removeKeys s [] = Some s"
| "removeKeys s (k # ks) = do {
     s \<leftarrow> removeRequest s (request_piece k) (request_begin k div standardBlockLen);
     removeKeys s ks
   }"

definition removeRequests :: "session \<Rightarrow> nat \<Rightarrow> session option" where
  "removeRequests s i = do {
     s \<leftarrow> removeKeys s (map fst (p_ourRequests (peer_at s i)));
     Some (upd_peer s i (\<lambda>p. p\<lparr>p_ourRequests := []\<rparr>))
   }"

definition ClosePeer :: "session \<Rightarrow> nat \<Rightarrow> session option" where
  "ClosePeer s i = do {
     s \<leftarrow> removeRequests (upd_peer s i peerClose) i;
     Some (s\<lparr>s_peers := AList.delete (p_address (peer_at s i)) (s_peers s)\<rparr>)
   }"

section \<open>Connecting\<close>

definition maxRetryConnectTimes :: int where
  "maxRetryConnectTimes = 10"

definition addPeerImp :: "world \<Rightarrow> session \<Rightarrow> peer_conn \<Rightarrow> session option" where
  "addPeerImp w s c = do {
     have \<leftarrow> NewBitset (s_totalPieces s);
     let i = length (s_heap s);
     let s = s\<lparr>s_heap := s_heap s @ [(newPeer c)\<lparr>p_have := Some have\<rparr>],
       s_peers := AList.update (pc_remoteAddr c) i (s_peers s)\<rparr>;
     case s_pieceSet s of
       None \<Rightarrow> Some s
     | Some b \<Rightarrow> send_peer w s i (\<lambda>p. SendBitfield p b)
   }"

text \<open>
  When the dial fails the connection is a \<open>nil\<close> interface, and \<open>conn.Close()\<close> on it panics
  before the failure is counted.
\<close>

definition connectToPeer :: "world \<Rightarrow> session \<Rightarrow> string \<Rightarrow> session option" where
  "connectToPeer w s addr =
     (case w_dial w addr of
        Dial_Failed \<Rightarrow> None
      | Header_Failed \<Rightarrow> Some (s\<lparr>s_indexInChain := s_indexInChain s - 1, s_retryConn := True\<rparr>)
      | Response_Failed \<Rightarrow> Some (s\<lparr>s_retryConn := True\<rparr>)
      | Connected remoteAddr \<Rightarrow>
          addPeerImp w (s\<lparr>s_connFailCount := 0\<rparr>)
            \<lparr>pc_client = False, pc_remoteAddr = remoteAddr, pc_taskID = s_taskID s\<rparr>)"

definition tryNewPeer :: "world \<Rightarrow> session \<Rightarrow> session option" where
  "tryNewPeer w s = do {
     lc \<leftarrow> dt_LinkChain (s_task s);
     let s = (if s_connFailCount s \<ge> maxRetryConnectTimes
       then s\<lparr>s_indexInChain := s_indexInChain s - 1\<rparr> else s);
     let s = (if s_indexInChain s < 0 then s\<lparr>s_indexInChain := 0\<rparr> else s);
     addr \<leftarrow> go_index (lc_DispatchAddrs lc) (s_indexInChain s);
     connectToPeer w s addr
   }"

definition closePeerAndTryReconn :: "world \<Rightarrow> session \<Rightarrow> nat \<Rightarrow> session option" where
  "closePeerAndTryReconn w s i = do {
     s \<leftarrow> ClosePeer s i;
     if \<not> p_client (peer_at s i) then tryNewPeer w s else Some s
   }"

section \<open>Starting\<close>

definition initPeerBitset :: "session \<Rightarrow> nat \<Rightarrow> session option" where
  "initPeerBitset s i = do {
     have \<leftarrow> p_have (peer_at s i);
     if bs_n have \<noteq> s_totalPieces s then
       (if bs_n have \<noteq> 0 then None
        else do {
          b \<leftarrow> NewBitset (s_totalPieces s);
          Some (upd_peer s i (\<lambda>p. p\<lparr>p_have := Some b\<rparr>))
        })
     else Some s
   }"

fun initPeersBitset :: "session \<Rightarrow> nat list \<Rightarrow> session option" where
  "initPeersBitset s [] = Some s"
| "initPeersBitset s (i # is) = do { s \<leftarrow> initPeerBitset s i; initPeersBitset s is }"

text \<open>The index of the node before \<open>self\<close>: the last entry equal to \<open>self\<close>, not looking at the
  first; the old value when there is none.\<close>

fun upstreamIndex :: "string \<Rightarrow> string list \<Rightarrow> nat \<Rightarrow> int \<Rightarrow> int" where
  "upstreamIndex self addrs 0 old = old"
| "upstreamIndex self addrs (Suc idx) old =
     (if idx = 0 then old
      else if self = addrs ! idx then int idx - 1 else upstreamIndex self addrs idx old)"

definition startImp :: "world \<Rightarrow> session \<Rightarrow> start_task \<Rightarrow> session option" where
  "startImp w s st =
     (if c_Server (s_cfg s) then Some (s\<lparr>s_startAt := Some (w_now w)\<rparr>)
      else if s_totalPieces s = s_goodPieces s then sess_reportStatus s 100
      else do {
        let s = s\<lparr>s_task := (s_task s)\<lparr>dt_LinkChain := st_LinkChain st\<rparr>\<rparr>;
        lc \<leftarrow> st_LinkChain st;
        let self = host_port (Host (c_Net (s_cfg s))) (DataPort (c_Net (s_cfg s)));
        let addrs = lc_DispatchAddrs lc;
        let s = s\<lparr>s_indexInChain := upstreamIndex self addrs (length addrs) (s_indexInChain s)\<rparr>;
        s \<leftarrow> tryNewPeer w s;
        s \<leftarrow> initPeersBitset s (w_ids w (map snd (s_peers s)));
        Some (s\<lparr>s_startAt := Some (w_now w)\<rparr>)
      })"

section \<open>Initialising\<close>

text \<open>
  \<open>init\<close>: true when it succeeded.  A failed open leaves the number of pieces at 0; the partial
  sum of sizes it leaves in \<open>totalSize\<close> is read by nothing then, and is not kept.
\<close>

definition sess_init :: "world \<Rightarrow> session \<Rightarrow> (session \<times> bool) option" where
  "sess_init w s = do {
     let m = dt_MetaInfo (s_task s);
     (d, r) \<leftarrow> NewFileStore (osFs_Open (w_fs w)) (s_disk s) m;
     let s = s\<lparr>s_disk := d\<rparr>;
     case r of
       Inl _ \<Rightarrow> Some (s, False)
     | Inr (fs, totalSize) \<Rightarrow> do {
         (totalPieces, lastPieceLength) \<leftarrow> countPieces totalSize (mi_PieceLen m);
         Some (s\<lparr>s_fileStore := Some fs, s_totalSize := totalSize, s_totalPieces := totalPieces,
           s_lastPieceLength := lastPieceLength\<rparr>, True)
       }
   }"

fun setBitsFrom :: "bitset \<Rightarrow> int \<Rightarrow> nat \<Rightarrow> bitset option" where
  "setBitsFrom b i 0 = Some b"
| "setBitsFrom b i (Suc k) = do { b \<leftarrow> BSet b i; setBitsFrom b (i + 1) k }"

definition initInServer :: "world \<Rightarrow> session \<Rightarrow> session option" where
  "initInServer w s = do {
     (s, ok) \<leftarrow> sess_init w s;
     if \<not> ok then Some s
     else do {
       b \<leftarrow> NewBitset (s_totalPieces s);
       b \<leftarrow> setBitsFrom b 0 (nat (s_totalPieces s));
       Some (s\<lparr>s_goodPieces := s_totalPieces s, s_pieceSet := Some b, s_initedAt := Some (w_now w)\<rparr>)
     }
   }"

text \<open>The paths of the task moved to the node's own directory; only the last file decides whether
  the data is checked.\<close>

definition clientFiles :: "config \<Rightarrow> session \<Rightarrow> session" where
  "clientFiles cfg s =
     (let m = dt_MetaInfo (s_task s);
          files = map (\<lambda>fd. fd\<lparr>fd_Path := c_DownDir cfg\<rparr>) (mi_Files m)
      in s\<lparr>s_task := (s_task s)\<lparr>dt_MetaInfo := m\<lparr>mi_Files := files\<rparr>\<rparr>\<rparr>)"

definition filesExisted :: "world \<Rightarrow> session \<Rightarrow> bool" where
  "filesExisted w s =
     fold (\<lambda>fd _. w_exists w (path_Join [c_DownDir (s_cfg s), fd_Name fd]))
       (mi_Files (dt_MetaInfo (s_task s))) False"

definition initInClient :: "world \<Rightarrow> session \<Rightarrow> session option" where
  "initInClient w s = do {
     let existed = filesExisted w s;
     (s, ok) \<leftarrow> sess_init w (clientFiles (s_cfg s) s);
     if \<not> ok then Some s
     else if existed then do {
       fs \<leftarrow> s_fileStore s;
       (good, _, goodBits, err) \<leftarrow>
         returns (checkPieces (w_hashes w) (s_disk s) fs (s_totalSize s) (dt_MetaInfo (s_task s)));
       let s = s\<lparr>s_goodPieces := good, s_pieceSet := Some goodBits\<rparr>;
       Some (if err \<noteq> None then s else s\<lparr>s_initedAt := Some (w_now w)\<rparr>)
     } else do {
       b \<leftarrow> NewBitset (s_totalPieces s);
       Some (s\<lparr>s_pieceSet := Some b, s_goodPieces := 0, s_initedAt := Some (w_now w)\<rparr>)
     }
   }"

text \<open>\<open>Init\<close> up to its event loop.  The cache is set up only when the store is there already,
  which at this point it never is.\<close>

definition sess_Init :: "world \<Rightarrow> session \<Rightarrow> session option" where
  "sess_Init w s = (if c_Server (s_cfg s) then initInServer w s else initInClient w s)"

section \<open>Timers\<close>

definition seconds :: "int \<Rightarrow> int" where
  "seconds n = n * 1000000000"

text \<open>\<open>Time.Second()\<close>: the second within the minute, 0 for the zero time.\<close>

definition time_Second :: "int option \<Rightarrow> int" where
  "time_Second t = (case t of None \<Rightarrow> 0 | Some t \<Rightarrow> t div 1000000000 mod 60)"

fun checkRequestKeys :: "int \<Rightarrow> session \<Rightarrow> (u64 \<times> int) list \<Rightarrow> session option" where
  "checkRequestKeys now s [] = Some s"
| "checkRequestKeys now s ((k, v) # ks) = do {
     s \<leftarrow> (if now - v > seconds 30
       then removeRequest s (request_piece k) (request_begin k div standardBlockLen)
       else Some s);
     checkRequestKeys now s ks
   }"

definition doCheckRequests :: "world \<Rightarrow> session \<Rightarrow> nat \<Rightarrow> session option" where
  "doCheckRequests w s i = checkRequestKeys (w_now w) s (p_ourRequests (peer_at s i))"

fun peersKeepAlive :: "world \<Rightarrow> session \<Rightarrow> nat list \<Rightarrow> session option" where
  "peersKeepAlive w s [] = Some s"
| "peersKeepAlive w s (i # is) = do {
     let t = p_lastReadTime (peer_at s i);
     if time_Second t \<noteq> 0 \<and> (case t of None \<Rightarrow> True | Some t \<Rightarrow> w_now w - t > seconds 180)
     then do { s \<leftarrow> ClosePeer s i; peersKeepAlive w s is }
     else do {
       s \<leftarrow> doCheckRequests w s i;
       s \<leftarrow> send_peer w s i keepAlive;
       peersKeepAlive w s is
     }
   }"

text \<open>The zero time lies more than three minutes back.\<close>

definition sess_timeout :: "world \<Rightarrow> session \<Rightarrow> bool" where
  "sess_timeout w s =
     (if s_startAt s = None \<and>
         (case s_initedAt s of None \<Rightarrow> True | Some t \<Rightarrow> w_now w - t \<ge> seconds 180) then True
      else (case s_finishedAt s of None \<Rightarrow> False | Some t \<Rightarrow> w_now w - t \<ge> seconds 180))"

fun closeAll :: "session \<Rightarrow> nat list \<Rightarrow> session option" where
  "closeAll s [] = Some s"
| "closeAll s (i # is) = do { s \<leftarrow> ClosePeer s i; closeAll s is }"

definition sess_shutdown :: "world \<Rightarrow> session \<Rightarrow> session option" where
  "sess_shutdown w s = do {
     s \<leftarrow> closeAll s (w_ids w (map snd (s_peers s)));
     Some (s\<lparr>s_ended := True\<rparr>)
   }"

section \<open>The event loop\<close>

datatype sess_event = Add_Peer peer_conn | Start_Task start_task | Message nat "bytes option"
  | Keep_Alive_Tick | Speed_Tick | Retry_Tick | Quit_Session

fun sess_step :: "world \<Rightarrow> session \<Rightarrow> sess_event \<Rightarrow> session option" where
  "sess_step w s (Add_Peer c) = addPeerImp w s c"
| "sess_step w s (Start_Task st) = startImp w s st"
| "sess_step w s (Message i message) = do {
     (s, err) \<leftarrow> doMessage w (upd_peer s i (\<lambda>p. p\<lparr>p_lastReadTime := Some (w_now w)\<rparr>)) i message;
     case err of
       None \<Rightarrow> Some s
     | Some Eof \<Rightarrow> ClosePeer s i
     | Some _ \<Rightarrow> closePeerAndTryReconn w s i
   }"
| "sess_step w s Keep_Alive_Tick =
     (let s = (if sess_timeout w s then s\<lparr>s_stopSess := s_stopSess s @ [s_taskID s]\<rparr> else s)
      in peersKeepAlive w s (w_ids w (map snd (s_peers s))))"
| "sess_step w s Speed_Tick = Some s"
| "sess_step w s Retry_Tick = tryNewPeer w (s\<lparr>s_retryConn := False\<rparr>)"
| "sess_step w s Quit_Session = sess_shutdown w s"

text \<open>
  What the surroundings may do: Go's maps are iterated in any order, but every entry once, and
  \<open>rand.Intn\<close> stays in its range.  An event that can arrive: the session runs, a message names a
  peer that was made and has at most the size \<open>peerReader\<close> lets through, a retry tick
  follows an armed timer.
\<close>

definition world_ok :: "world \<Rightarrow> bool" where
  "world_ok w \<longleftrightarrow> (\<forall>k n. 0 < n \<longrightarrow> 0 \<le> w_intn w k n \<and> w_intn w k n < n) \<and>
     (\<forall>k xs. mset (w_keys w k xs) = mset xs) \<and> (\<forall>xs. mset (w_ids w xs) = mset xs) \<and>
     (\<forall>xs. mset (w_hashes w xs) = mset xs)"

fun event_ok :: "session \<Rightarrow> sess_event \<Rightarrow> bool" where
  "event_ok s (Message i m) \<longleftrightarrow> \<not> s_ended s \<and> i < length (s_heap s) \<and>
     (case m of None \<Rightarrow> True | Some b \<Rightarrow> length b \<le> maxBlockLen)"
| "event_ok s Retry_Tick \<longleftrightarrow> \<not> s_ended s \<and> s_retryConn s"
| "event_ok s _ \<longleftrightarrow> \<not> s_ended s"

inductive sess_next :: "session \<Rightarrow> session \<Rightarrow> bool" where
  event: "\<lbrakk>event_ok s e; world_ok w; sess_step w s e = Some t\<rbrakk> \<Longrightarrow> sess_next s t"

abbreviation sess_runs :: "session \<Rightarrow> session \<Rightarrow> bool" where
  "sess_runs \<equiv> sess_next\<^sup>*\<^sup>*"

inductive_cases sess_nextE: "sess_next s t"

end
