(* ===== verification/SessionInv.thy ===== *)
theory SessionInv
  imports Session
begin

text \<open>
  What a session keeps, whatever messages its peers send: the store stays the size of the task,
  the piece map holds only pieces whose SHA-1 sum is the one of the metadata, the bytes of those
  pieces never change again, no piece is both present and being downloaded.  \<open>safe s t\<close> says
  that the invariant carries over from \<open>s\<close> to \<open>t\<close> and that nothing verified was lost; it composes,
  and every operation of \<open>Session\<close> is shown to be such a step.
\<close>

section \<open>The invariant\<close>

definition sess_contents :: "session \<Rightarrow> bytes" where
  "sess_contents s = (case s_fileStore s of None \<Rightarrow> [] | Some fs \<Rightarrow> contents (s_disk s) fs)"

definition sess_ref :: "session \<Rightarrow> bytes" where
  "sess_ref s = mi_Pieces (dt_MetaInfo (s_task s))"

definition pset :: "session \<Rightarrow> nat set" where
  "pset s = (case s_pieceSet s of None \<Rightarrow> {} | Some b \<Rightarrow> elems b)"

abbreviation plen :: "session \<Rightarrow> nat" where
  "plen s \<equiv> nat (pieceLen s)"

abbreviation npieces :: "session \<Rightarrow> nat" where
  "npieces s \<equiv> piece_count (length (sess_contents s)) (plen s)"

text \<open>The store is there and has the size of the task; the piece map is well formed, counts to
  \<open>goodPieces\<close>, and every piece in it has the SHA-1 sum of the metadata.\<close>

definition store_inv :: "session \<Rightarrow> bool" where
  "store_inv s \<longleftrightarrow> 0 < pieceLen s \<and>
     (\<exists>fs. s_fileStore s = Some fs \<and> plain_store (s_disk s) fs) \<and>
     (\<exists>b. s_pieceSet s = Some b \<and> wf_bitset b \<and> Len b = int (npieces s)) \<and>
     s_totalSize s = int (length (sess_contents s)) \<and>
     s_totalPieces s = int (npieces s) \<and>
     s_lastPieceLength s = (if sess_contents s = [] then pieceLen s
       else int (length (sess_contents s) - (npieces s - 1) * plen s)) \<and>
     length (sess_ref s) = npieces s * sha1_Size \<and>
     pset s \<subseteq> good_pieces (sess_ref s) (sess_contents s) (plen s) \<and>
     s_goodPieces s = int (card (pset s))"

definition active_ok :: "session \<Rightarrow> int \<Rightarrow> active_piece \<Rightarrow> bool" where
  "active_ok s k a \<longleftrightarrow> 0 \<le> k \<and> k < s_totalPieces s \<and> nat k \<notin> pset s \<and> wf_active a \<and> \<not> isComplete a \<and>
     length (ap_downloaderCount a) = block_count (nat (sess_pieceLength s k))"

definition active_inv :: "session \<Rightarrow> bool" where
  "active_inv s \<longleftrightarrow> distinct (map fst (s_activePieces s)) \<and>
     (\<forall>k a. map_of (s_activePieces s) k = Some a \<longrightarrow> active_ok s k a)"

definition peer_ok :: "int \<Rightarrow> peer \<Rightarrow> bool" where
  "peer_ok n p \<longleftrightarrow> (\<forall>h. p_have p = Some h \<longrightarrow> wf_bitset h \<and> Len h = n)"

definition peers_inv :: "session \<Rightarrow> bool" where
  "peers_inv s \<longleftrightarrow> (\<forall>p \<in> set (s_heap s). peer_ok (s_totalPieces s) p) \<and>
     distinct (map fst (s_peers s)) \<and>
     (\<forall>addr i. map_of (s_peers s) addr = Some i \<longrightarrow> i < length (s_heap s) \<and> p_address (peer_at s i) = addr)"

definition sess_inv :: "session \<Rightarrow> bool" where
  "sess_inv s \<longleftrightarrow> store_inv s \<and> active_inv s \<and> peers_inv s"

text \<open>What never changes while a session runs, and what only grows: the bytes of a verified piece
  stay as they are.\<close>

definition sess_grows :: "session \<Rightarrow> session \<Rightarrow> bool" where
  "sess_grows s t \<longleftrightarrow> dt_MetaInfo (s_task t) = dt_MetaInfo (s_task s) \<and> s_cfg t = s_cfg s \<and>
     s_totalPieces t = s_totalPieces s \<and> length (sess_contents t) = length (sess_contents s) \<and>
     s_lastPieceLength t = s_lastPieceLength s \<and> length (s_heap s) \<le> length (s_heap t) \<and>
     (s_connFailCount s = 0 \<longrightarrow> s_connFailCount t = 0) \<and> pset s \<subseteq> pset t \<and>
     (\<forall>i \<in> pset s. piece_bytes (sess_contents t) (plen s) i = piece_bytes (sess_contents s) (plen s) i)"

definition safe :: "session \<Rightarrow> session \<Rightarrow> bool" where
  "safe s t \<longleftrightarrow> (sess_inv s \<longrightarrow> sess_inv t \<and> sess_grows s t)"

lemma grows_refl [simp]: "sess_grows s s"
  by (simp add: sess_grows_def)

lemma grows_pieceLen: "sess_grows s t \<Longrightarrow> pieceLen t = pieceLen s"
  by (simp add: sess_grows_def pieceLen_def)

lemma grows_trans: "sess_grows s t \<Longrightarrow> sess_grows t u \<Longrightarrow> sess_grows s u"
  using grows_pieceLen [of s t] by (auto simp: sess_grows_def)

lemma safe_refl [simp, intro]: "safe s s"
  by (simp add: safe_def)

lemma safe_trans [trans]: "safe s t \<Longrightarrow> safe t u \<Longrightarrow> safe s u"
  using grows_trans by (auto simp: safe_def)

text \<open>The fields the store part depends on.\<close>

definition core :: "session \<Rightarrow> _" where
  "core s = (s_cfg s, dt_MetaInfo (s_task s), s_disk s, s_fileStore s, s_pieceSet s,
     s_totalPieces s, s_totalSize s, s_goodPieces s, s_lastPieceLength s, s_connFailCount s)"

lemma core_views:
  assumes "core t = core s"
  shows "sess_contents t = sess_contents s" "sess_ref t = sess_ref s" "pset t = pset s"
    "pieceLen t = pieceLen s" "s_totalPieces t = s_totalPieces s" "store_inv t = store_inv s"
    "active_ok t = active_ok s" "s_pieceSet t = s_pieceSet s" "s_fileStore t = s_fileStore s"
    "length (s_heap s) \<le> length (s_heap t) \<Longrightarrow> sess_grows s t"
proof -
  note c = assms [unfolded core_def prod.inject]
  show 1: "sess_contents t = sess_contents s" "sess_ref t = sess_ref s" "pset t = pset s"
    "pieceLen t = pieceLen s" "s_totalPieces t = s_totalPieces s" "s_pieceSet t = s_pieceSet s"
    "s_fileStore t = s_fileStore s"
    using c by (simp_all add: sess_contents_def sess_ref_def pset_def pieceLen_def cong: option.case_cong)
  show "store_inv t = store_inv s" using c unfolding store_inv_def 1 by simp
  show "active_ok t = active_ok s" using c by (intro ext) (simp add: active_ok_def sess_pieceLength_def 1)
  show "length (s_heap s) \<le> length (s_heap t) \<Longrightarrow> sess_grows s t"
    using c by (simp add: sess_grows_def 1)
qed

lemma core_upd_peer [simp]: "core (upd_peer s i f) = core s"
  by (simp add: core_def upd_peer_def)

lemma core_set_active [simp]: "core (set_active s k a) = core s"
  by (simp add: core_def set_active_def)

section \<open>Steps that keep the invariant\<close>

text \<open>Changing one peer, keeping its address and the length of its piece map.\<close>

definition keeps_peer :: "int \<Rightarrow> (peer \<Rightarrow> peer) \<Rightarrow> bool" where
  "keeps_peer n f \<longleftrightarrow> (\<forall>p. peer_ok n p \<longrightarrow> peer_ok n (f p)) \<and> (\<forall>p. p_address (f p) = p_address p)"

named_theorems keeps \<open>peer operations that keep a peer well formed\<close>

lemma keeps_SendRequest [keeps]: "keeps_peer n (\<lambda>p. SendRequest p now k b l)"
  by (simp add: keeps_peer_def peer_ok_def SendRequest_def sendMessage_def)

lemma keeps_sendMessage [keeps]: "keeps_peer n (\<lambda>p. sendMessage p m)"
  by (simp add: keeps_peer_def peer_ok_def sendMessage_def)

lemma keeps_SendHave [keeps]: "keeps_peer n (\<lambda>p. SendHave p k)"
  by (simp add: keeps_peer_def peer_ok_def SendHave_def sendMessage_def)

lemma keeps_SendBitfield [keeps]: "keeps_peer n (\<lambda>p. SendBitfield p b)"
  by (simp add: keeps_peer_def peer_ok_def SendBitfield_def sendMessage_def)

lemma keeps_keepAlive [keeps]: "keeps_peer n keepAlive"
  by (simp add: keeps_peer_def peer_ok_def keepAlive_def sendMessage_def)

lemma keeps_peerClose [keeps]: "keeps_peer n peerClose"
  by (simp add: keeps_peer_def peer_ok_def peerClose_def)

lemma keeps_requests [keeps]: "keeps_peer n (\<lambda>p. p\<lparr>p_ourRequests := f p\<rparr>)"
  by (simp add: keeps_peer_def peer_ok_def)

lemma keeps_time [keeps]: "keeps_peer n (\<lambda>p. p\<lparr>p_lastReadTime := t\<rparr>)"
  by (simp add: keeps_peer_def peer_ok_def)

lemma keeps_have: "\<forall>h. b = Some h \<longrightarrow> wf_bitset h \<and> Len h = n \<Longrightarrow> keeps_peer n (\<lambda>p. p\<lparr>p_have := b\<rparr>)"
  by (simp add: keeps_peer_def peer_ok_def)

lemma inv_upd_peer:
  assumes "sess_inv s" "keeps_peer (s_totalPieces s) f"
  shows "sess_inv (upd_peer s i f)"
proof -
  let ?t = "upd_peer s i f"
  have c: "core ?t = core s" by simp
  have a: "active_inv ?t = active_inv s"
    by (simp add: active_inv_def core_views [OF c]) (simp add: upd_peer_def)
  have "peers_inv ?t"
  proof (cases "i < length (s_heap s)")
    case True
    have "peer_ok (s_totalPieces s) (s_heap s ! i)"
      using assms(1) True by (simp add: sess_inv_def peers_inv_def)
    then have "peer_ok (s_totalPieces s) (f (s_heap s ! i))" "p_address (f (s_heap s ! i)) = p_address (s_heap s ! i)"
      using assms(2) by (simp_all add: keeps_peer_def)
    then show ?thesis using assms(1) True
      unfolding sess_inv_def peers_inv_def core_views [OF c]
      by (auto simp: upd_peer_def peer_at_def nth_list_update dest!: set_update_subset_insert [THEN subsetD])
  next
    case False
    then show ?thesis using assms(1) by (simp add: sess_inv_def upd_peer_def list_update_beyond)
  qed
  then show ?thesis using assms(1) a core_views(6) [OF c] by (simp add: sess_inv_def)
qed

lemma safe_upd_peer:
  assumes "keeps_peer (s_totalPieces s) f"
  shows "safe s (upd_peer s i f)"
  using inv_upd_peer [OF _ assms] core_views(10) [of "upd_peer s i f" s]
  by (simp add: safe_def) (simp add: upd_peer_def)

lemma safe_send_peer:
  "send_peer w s i f = Some t \<Longrightarrow> keeps_peer (s_totalPieces s) f \<Longrightarrow> safe s t"
  by (auto simp: send_peer_def safe_upd_peer split: if_splits)

lemma send_peer_core: "send_peer w s i f = Some t \<Longrightarrow> core t = core s"
  by (auto simp: send_peer_def split: if_splits)

text \<open>Changing fields outside the invariant.\<close>

lemma safe_other:
  assumes "core t = core s" "s_heap t = s_heap s" "s_peers t = s_peers s"
    "s_activePieces t = s_activePieces s"
  shows "safe s t"
proof -
  have "sess_inv t = sess_inv s"
    by (simp add: sess_inv_def active_inv_def peers_inv_def peer_at_def core_views [OF assms(1)] assms)
  then show ?thesis using core_views(10) [OF assms(1)] by (simp add: safe_def assms(2))
qed

lemma safe_reportStatus: "sess_reportStatus s x = Some t \<Longrightarrow> safe s t"
  by (auto simp: sess_reportStatus_def bind_eq_Some_conv core_def intro!: safe_other)

lemma safe_set_active:
  assumes "sess_inv s \<Longrightarrow> active_ok s k a"
  shows "safe s (set_active s k a)"
proof -
  let ?t = "set_active s k a"
  have c: "core ?t = core s" by simp
  have "sess_inv ?t" if "sess_inv s"
  proof -
    have "active_inv ?t"
      using that assms [OF that] unfolding sess_inv_def active_inv_def core_views [OF c]
      by (auto simp: set_active_def distinct_update update_Some_unfold)
    then show ?thesis using that unfolding sess_inv_def core_views(6) [OF c]
      by (simp add: peers_inv_def core_views [OF c]) (simp add: set_active_def peer_at_def)
  qed
  then show ?thesis using core_views(10) [OF c] by (simp add: safe_def set_active_def)
qed

section \<open>Requests keep the invariant\<close>

lemma choose_keeps:
  assumes "chooseBlockToDownload v e = (v', b)" "wf_active v" "\<not> isComplete v"
  shows "wf_active v' \<and> \<not> isComplete v' \<and> length (ap_downloaderCount v') = length (ap_downloaderCount v) \<and>
    (b = -1 \<and> v' = v \<and> \<not> e \<or> 0 \<le> b \<and> nat b < length (ap_downloaderCount v))"
proof -
  have upd: "wf_active (v\<lparr>ap_downloaderCount := (ap_downloaderCount v)[i := x]\<rparr>) \<and>
      \<not> isComplete (v\<lparr>ap_downloaderCount := (ap_downloaderCount v)[i := x]\<rparr>)"
    if "i < length (ap_downloaderCount v)" "x \<ge> 0" for i x
  proof -
    have "x \<in> set ((ap_downloaderCount v)[i := x])" "x \<noteq> -1"
      using that by (auto intro: set_update_memI)
    then have "\<not> isComplete (v\<lparr>ap_downloaderCount := (ap_downloaderCount v)[i := x]\<rparr>)"
      by (auto simp: isComplete_def allDone_iff)
    then show ?thesis using that assms(2)
      by (auto simp: wf_active_def dest!: set_update_subset_insert [THEN subsetD])
  qed
  show ?thesis
  proof (cases e)
    case True
    then show ?thesis
      using chooseEndgame_spec [OF assms(2)] assms(1,3) upd by auto
  next
    case False
    show ?thesis
    proof (cases "0 \<in> set (ap_downloaderCount v)")
      case True
      let ?i = "length (takeWhile (\<lambda>v. v \<noteq> 0) (ap_downloaderCount v))"
      have "?i < length (ap_downloaderCount v)" using True
        by (metis (mono_tags, lifting) length_takeWhile_le order_le_less set_takeWhileD takeWhile_eq_take take_all)
      then show ?thesis using assms(1) False True upd [of ?i 1]
        by (auto simp: chooseNormal_spec Let_def)
    next
      case no: False
      then show ?thesis using assms False by (auto simp: chooseNormal_spec)
    qed
  qed
qed

lemma safe_requestBlockImp: "requestBlockImp w s i piece block = Some t \<Longrightarrow> safe s t"
  unfolding requestBlockImp_def Let_def by (rule safe_send_peer) (auto intro: keeps)

lemma requestBlockImp_core:
  "requestBlockImp w s i piece block = Some t \<Longrightarrow>
   core t = core s \<and> s_activePieces t = s_activePieces s"
  by (auto simp: requestBlockImp_def Let_def send_peer_def upd_peer_def core_def split: if_splits)

lemma safe_requestBlock2:
  assumes "requestBlock2 w s i piece e = Some (t, err)"
  shows "safe s t"
proof -
  obtain v where v: "map_of (s_activePieces s) piece = Some v"
    using assms by (auto simp: requestBlock2_def bind_eq_Some_conv)
  obtain v' b where c: "chooseBlockToDownload v e = (v', b)" by (cases "chooseBlockToDownload v e")
  have r: "(if b \<ge> 0 then do { s \<leftarrow> requestBlockImp w (set_active s piece v') i piece b; Some (s, None) }
      else Some (set_active s piece v', Some Eof)) = Some (t, err)"
    using assms by (simp add: requestBlock2_def v c Let_def)
  have "safe s (set_active s piece v')"
    using choose_keeps [OF c] v
    by (intro safe_set_active) (auto simp: sess_inv_def active_inv_def active_ok_def)
  moreover have "safe (set_active s piece v') t"
    using r by (auto simp: bind_eq_Some_conv safe_requestBlockImp split: if_splits)
  ultimately show ?thesis by (rule safe_trans)
qed

lemma safe_tryActive: "tryActive w s i e ks err = Some (t, r) \<Longrightarrow> safe s t"
proof (induction w s i e ks err rule: tryActive.induct)
  case (2 w s i endGame k ks err)
  obtain hv b where h: "p_have (peer_at s i) = Some hv" "IsSet hv k = Some b"
    using "2.prems" by (auto simp: bind_eq_Some_conv)
  show ?case
  proof (cases b)
    case True
    obtain s1 err1 where r: "requestBlock2 w s i k endGame = Some (s1, err1)"
      and t: "(if err1 \<noteq> Some Eof then Some (s1, Inl err1) else tryActive w s1 i endGame ks err1) = Some (t, r)"
      using "2.prems" h True by (auto simp: bind_eq_Some_conv)
    have "safe s1 t"
      using t "2.IH"(1) [OF h True r refl] by (auto split: if_splits)
    with safe_requestBlock2 [OF r] show ?thesis by (rule safe_trans)
  next
    case False
    then show ?thesis using "2.IH"(2) [OF h False] "2.prems" h by simp
  qed
qed auto

lemma checkRangeLoop_SomeD:
  "checkRangeLoop active have pieceSet i k = Some p \<Longrightarrow> 0 \<le> p \<Longrightarrow>
   i \<le> p \<and> p < i + int k \<and> IsSet pieceSet p = Some False \<and> IsSet have p = Some True \<and>
   map_of active p = None"
proof (induction active "have" pieceSet i k rule: checkRangeLoop.induct)
  case (2 active hv pieceSet i k)
  obtain mine theirs where m: "IsSet pieceSet i = Some mine"
    and th: "(if \<not> mine then IsSet hv i else Some False) = Some theirs"
    using "2.prems" by (auto simp: bind_eq_Some_conv)
  show ?case
  proof (cases "\<not> mine \<and> theirs \<and> map_of active i = None")
    case True
    then show ?thesis using "2.prems" m th by auto
  next
    case False
    then show ?thesis using "2.IH" [OF m th False] "2.prems" m th by auto
  qed
qed auto

lemma checkRange_SomeD:
  assumes "sess_checkRange s i start end = Some p" "0 \<le> p"
  shows "\<exists>have b. p_have (peer_at s i) = Some have \<and> s_pieceSet s = Some b \<and> p < bs_n b \<and>
    p < bs_n have \<and> start \<le> p \<and> p < end \<and>
    IsSet b p = Some False \<and> IsSet have p = Some True \<and> map_of (s_activePieces s) p = None"
  using assms checkRangeLoop_SomeD
  by (fastforce simp: sess_checkRange_def bind_eq_Some_conv min_int_def Let_def split: if_splits)

lemma choosePiece_SomeD:
  assumes "choosePiece w call s i = Some p" "0 \<le> p"
  shows "\<exists>have b. p_have (peer_at s i) = Some have \<and> s_pieceSet s = Some b \<and> p < bs_n b \<and>
    p < bs_n have \<and>
    IsSet b p = Some False \<and> IsSet have p = Some True \<and> map_of (s_activePieces s) p = None"
  using assms checkRange_SomeD
  by (fastforce simp: choosePiece_def bind_eq_Some_conv Let_def split: if_splits)

lemma pset_notin:
  assumes "store_inv s" "s_pieceSet s = Some b" "IsSet b p = Some False" "0 \<le> p" "p < bs_n b"
  shows "nat p \<notin> pset s"
proof -
  have "wf_bitset b" "int (nat p) < Len b" using assms by (auto simp: store_inv_def Len_def)
  from bs.member [OF this] show ?thesis using assms by (simp add: pset_def)
qed

lemma lastPieceLength_pos:
  assumes "store_inv s"
  shows "0 < s_lastPieceLength s"
proof -
  have P: "0 < plen s" using assms by (simp add: store_inv_def)
  show ?thesis
  proof (cases "sess_contents s = []")
    case True
    then show ?thesis using assms by (simp add: store_inv_def)
  next
    case False
    then have "0 < length (sess_contents s) - (npieces s - 1) * plen s"
      using piece_count_last(1) [OF P, of "length (sess_contents s)"] P by (simp split: if_splits)
    moreover have "s_lastPieceLength s = (if sess_contents s = [] then pieceLen s
        else int (length (sess_contents s) - (npieces s - 1) * plen s))"
      using assms unfolding store_inv_def by blast
    ultimately show ?thesis using False by (simp only: if_False of_nat_0_less_iff)
  qed
qed

lemma new_active_ok:
  assumes "store_inv s" "NewActivePiece (sess_pieceLength s p) = Some a"
    and "0 \<le> p" "p < s_totalPieces s" "nat p \<notin> pset s"
  shows "active_ok s p a"
proof -
  let ?l = "sess_pieceLength s p"
  have l: "0 < ?l" using assms(1) lastPieceLength_pos [OF assms(1)]
    by (simp add: sess_pieceLength_def store_inv_def)
  then have a: "a = \<lparr>ap_downloaderCount = replicate (block_count (nat ?l)) 0, ap_pieceLength = ?l\<rparr>"
    using NewActivePiece_eq [of "nat ?l"] assms(2) by simp
  have "0 < nat standardBlockLen" by (simp add: standardBlockLen_def)
  then have "0 < block_count (nat ?l)"
    unfolding block_count_def using piece_count_less [of "nat standardBlockLen" 0 "nat ?l"] l by simp
  then show ?thesis using assms by (simp add: active_ok_def a wf_active_def isComplete_def allDone_iff)
qed

lemma safe_requestBlock:
  assumes "requestBlock w call s i = Some (t, err)"
  shows "safe s t"
proof -
  obtain s1 r where a: "tryActive w s i False (w_keys w (2 * call) (map fst (s_activePieces s))) None = Some (s1, r)"
    and rest: "(case r of Inl err \<Rightarrow> Some (s1, err)
      | Inr err \<Rightarrow> do {
         piece \<leftarrow> choosePiece w call s1 i;
         if piece < 0 then do {
           (s, r) \<leftarrow> tryActive w s1 i True (w_keys w (2 * call + 1) (map fst (s_activePieces s1))) err;
           Some (s, case r of Inl e \<Rightarrow> e | Inr e \<Rightarrow> e)
         } else do {
           a \<leftarrow> NewActivePiece (sess_pieceLength s1 piece);
           requestBlock2 w (set_active s1 piece a) i piece False
         }}) = Some (t, err)"
    using assms by (auto simp: requestBlock_def bind_eq_Some_conv)
  have s1: "safe s s1" using safe_tryActive [OF a] .
  have "safe s1 t"
  proof (cases r)
    case (Inl e)
    then show ?thesis using rest by simp
  next
    case (Inr e)
    then obtain piece where p: "choosePiece w call s1 i = Some piece" using rest by (auto simp: bind_eq_Some_conv)
    show ?thesis
    proof (cases "piece < 0")
      case True
      then show ?thesis using rest Inr p by (auto simp: bind_eq_Some_conv dest: safe_tryActive)
    next
      case False
      then obtain a where a: "NewActivePiece (sess_pieceLength s1 piece) = Some a"
        and r2: "requestBlock2 w (set_active s1 piece a) i piece False = Some (t, err)"
        using rest Inr p by (auto simp: bind_eq_Some_conv)
      obtain b where b: "s_pieceSet s1 = Some b" "piece < bs_n b" "IsSet b piece = Some False"
        using choosePiece_SomeD [OF p] False by auto
      have "active_ok s1 piece a" if i: "sess_inv s1"
      proof -
        have st: "store_inv s1" using i by (simp add: sess_inv_def)
        show ?thesis
          using pset_notin [OF st b(1,3)] b st False new_active_ok [OF st a]
          by (auto simp: store_inv_def Len_def)
      qed
      then have "safe s1 (set_active s1 piece a)" by (rule safe_set_active)
      then show ?thesis using safe_requestBlock2 [OF r2] by (rule safe_trans)
    qed
  qed
  with s1 show ?thesis by (rule safe_trans)
qed

lemma safe_requestMany:
  "fold (\<lambda>call r. do { s \<leftarrow> r; (s, _) \<leftarrow> requestBlock w call s i; Some s }) calls (Some s) = Some t \<Longrightarrow>
   safe s t"
proof (induction calls arbitrary: s)
  case (Cons c calls)
  have none: "fold (\<lambda>call r. do { s \<leftarrow> r; (s, _) \<leftarrow> requestBlock w call s i; Some s }) calls None = None"
    by (induction calls) auto
  then obtain s1 e where r: "requestBlock w c s i = Some (s1, e)" and
    t: "fold (\<lambda>call r. do { s \<leftarrow> r; (s, _) \<leftarrow> requestBlock w call s i; Some s }) calls (Some s1) = Some t"
    using Cons.prems by (cases "requestBlock w c s i") auto
  show ?case using safe_requestBlock [OF r] Cons.IH [OF t] by (rule safe_trans)
qed simp

section \<open>Closing and connecting keep the invariant\<close>

lemma safe_removeRequest:
  assumes "removeRequest s piece block = Some t"
  shows "safe s t"
proof (cases "map_of (s_activePieces s) piece")
  case None
  then show ?thesis using assms by (simp add: removeRequest_def)
next
  case (Some v)
  then obtain c where c: "go_index (ap_downloaderCount v) block = Some c"
    and r: "(if c > 0 then do {
            counts \<leftarrow> go_store (ap_downloaderCount v) block (c - 1);
            Some (set_active s piece (v\<lparr>ap_downloaderCount := counts\<rparr>))
          } else Some s) = Some t"
    using assms by (auto simp: removeRequest_def bind_eq_Some_conv)
  show ?thesis
  proof (cases "c > 0")
    case True
    let ?v = "v\<lparr>ap_downloaderCount := (ap_downloaderCount v)[nat block := c - 1]\<rparr>"
    have b: "nat block < length (ap_downloaderCount v)" using go_index_SomeD [OF c] by simp
    have t: "t = set_active s piece ?v"
      using r True by (auto simp: bind_eq_Some_conv dest!: go_store_SomeD)
    have "c - 1 \<in> set (ap_downloaderCount ?v)" "c - 1 \<noteq> -1" using b True by (auto intro: set_update_memI)
    then have "\<not> isComplete ?v" unfolding isComplete_def allDone_iff by blast
    moreover have "wf_active v \<Longrightarrow> wf_active ?v"
      using True by (auto simp: wf_active_def dest!: set_update_subset_insert [THEN subsetD])
    ultimately show ?thesis using Some unfolding t
      by (intro safe_set_active) (auto simp: sess_inv_def active_inv_def active_ok_def)
  qed (use r in simp)
qed

lemma safe_removeKeys: "removeKeys s ks = Some t \<Longrightarrow> safe s t"
  by (induction ks arbitrary: s)
    (auto simp: bind_eq_Some_conv intro: safe_trans [OF safe_removeRequest])

lemma safe_removeRequests: "removeRequests s i = Some t \<Longrightarrow> safe s t"
  by (auto simp: removeRequests_def bind_eq_Some_conv
      intro!: safe_trans [OF safe_removeKeys safe_upd_peer] keeps)

lemma safe_delete_peer: "safe s (s\<lparr>s_peers := AList.delete addr (s_peers s)\<rparr>)"
proof -
  let ?t = "s\<lparr>s_peers := AList.delete addr (s_peers s)\<rparr>"
  have c: "core ?t = core s" by (simp add: core_def)
  have "peers_inv s \<Longrightarrow> peers_inv ?t"
    by (auto simp: peers_inv_def distinct_delete delete_conv' peer_at_def split: if_splits)
  then show ?thesis using core_views(10) [OF c]
    by (simp add: safe_def sess_inv_def core_views [OF c] active_inv_def)
qed

lemma safe_ClosePeer: "ClosePeer s i = Some t \<Longrightarrow> safe s t"
  unfolding ClosePeer_def bind_eq_Some_conv
  by (elim exE conjE) (blast intro: safe_trans safe_upd_peer keeps safe_removeRequests safe_delete_peer)

lemma safe_new_peer:
  assumes "NewBitset (s_totalPieces s) = Some b"
  shows "safe s (s\<lparr>s_heap := s_heap s @ [(newPeer c)\<lparr>p_have := Some b\<rparr>],
    s_peers := AList.update (pc_remoteAddr c) (length (s_heap s)) (s_peers s)\<rparr>)" (is "safe s ?t")
proof -
  have c: "core ?t = core s" by (simp add: core_def)
  have "peers_inv ?t" if "peers_inv s" "0 \<le> s_totalPieces s"
  proof -
    have "wf_bitset b \<and> Len b = s_totalPieces s" using bs.new [OF that(2)] assms by auto
    then have "peer_ok (s_totalPieces s) ((newPeer c)\<lparr>p_have := Some b\<rparr>)" by (simp add: peer_ok_def)
    then show ?thesis using that(1)
      by (auto simp: peers_inv_def distinct_update update_Some_unfold peer_at_def nth_append newPeer_def)
  qed
  moreover have "store_inv s \<Longrightarrow> 0 \<le> s_totalPieces s" by (auto simp: store_inv_def)
  ultimately show ?thesis using core_views(10) [OF c]
    by (simp add: safe_def sess_inv_def core_views [OF c] active_inv_def)
qed

lemma safe_addPeerImp: "addPeerImp w s c = Some t \<Longrightarrow> safe s t"
  unfolding addPeerImp_def bind_eq_Some_conv Let_def
  by (elim exE conjE)
    (auto split: option.splits dest: safe_new_peer [where c = c]
      intro: safe_trans safe_send_peer keeps)

lemma safe_connFailCount: "safe s (s\<lparr>s_connFailCount := 0\<rparr>)"
  by (auto simp: safe_def sess_inv_def store_inv_def active_inv_def active_ok_def peers_inv_def
      sess_grows_def sess_contents_def sess_ref_def pset_def pieceLen_def peer_at_def
      sess_pieceLength_def)

lemma safe_connectToPeer:
  assumes "connectToPeer w s addr = Some t"
  shows "safe s t"
proof (cases "w_dial w addr")
  case (Connected remoteAddr)
  then have "safe (s\<lparr>s_connFailCount := 0\<rparr>) t"
    using assms by (auto simp: connectToPeer_def intro: safe_addPeerImp)
  with safe_connFailCount show ?thesis by (rule safe_trans)
qed (use assms in \<open>auto simp: connectToPeer_def core_def intro!: safe_other\<close>)

text \<open>The place in the chain that \<open>tryNewPeer\<close> dials.\<close>

definition next_index :: "session \<Rightarrow> int" where
  "next_index s =
     (let i = (if s_connFailCount s \<ge> maxRetryConnectTimes then s_indexInChain s - 1
               else s_indexInChain s)
      in if i < 0 then 0 else i)"

lemma tryNewPeer_eq:
  "tryNewPeer w s = do {
     lc \<leftarrow> dt_LinkChain (s_task s);
     addr \<leftarrow> go_index (lc_DispatchAddrs lc) (next_index s);
     connectToPeer w (s\<lparr>s_indexInChain := next_index s\<rparr>) addr
   }"
  by (simp add: tryNewPeer_def next_index_def Let_def)

lemma safe_tryNewPeer:
  assumes "tryNewPeer w s = Some t"
  shows "safe s t"
proof -
  obtain addr where t: "connectToPeer w (s\<lparr>s_indexInChain := next_index s\<rparr>) addr = Some t"
    using assms by (auto simp: tryNewPeer_eq bind_eq_Some_conv)
  have "safe s (s\<lparr>s_indexInChain := next_index s\<rparr>)" by (auto simp: core_def intro!: safe_other)
  then show ?thesis using safe_connectToPeer [OF t] by (rule safe_trans)
qed

lemma safe_closePeerAndTryReconn: "closePeerAndTryReconn w s i = Some t \<Longrightarrow> safe s t"
  by (auto simp: closePeerAndTryReconn_def bind_eq_Some_conv split: if_splits
      intro: safe_ClosePeer safe_trans [OF safe_ClosePeer safe_tryNewPeer])

lemma safe_closeAll: "closeAll s is = Some t \<Longrightarrow> safe s t"
  by (induction "is" arbitrary: s)
    (auto simp: bind_eq_Some_conv intro: safe_trans [OF safe_ClosePeer])

section \<open>Starting and timers keep the invariant\<close>

lemma safe_initPeerBitset:
  assumes "initPeerBitset s i = Some t"
  shows "safe s t"
proof -
  obtain h where h: "p_have (peer_at s i) = Some h"
    using assms by (cases "p_have (peer_at s i)") (simp_all add: initPeerBitset_def)
  have r: "(if bs_n h \<noteq> s_totalPieces s then
       (if bs_n h \<noteq> 0 then None
        else do {
          b \<leftarrow> NewBitset (s_totalPieces s);
          Some (upd_peer s i (\<lambda>p. p\<lparr>p_have := Some b\<rparr>))
        })
     else Some s) = Some t"
    using assms by (simp add: initPeerBitset_def h)
  show ?thesis
  proof (cases "t = s")
    case False
    then obtain b where b: "NewBitset (s_totalPieces s) = Some b"
      and t: "t = upd_peer s i (\<lambda>p. p\<lparr>p_have := Some b\<rparr>)"
      using r by (auto simp: bind_eq_Some_conv split: if_splits)
    have "safe s t" if "0 \<le> s_totalPieces s"
      using bs.new [OF that] b unfolding t by (intro safe_upd_peer keeps_have) auto
    then show ?thesis by (auto simp: safe_def sess_inv_def store_inv_def)
  qed simp
qed

lemma safe_initPeersBitset: "initPeersBitset s is = Some t \<Longrightarrow> safe s t"
  by (induction "is" arbitrary: s)
    (auto simp: bind_eq_Some_conv intro: safe_trans [OF safe_initPeerBitset])

lemma safe_fields:
  "safe s (s\<lparr>s_indexInChain := x\<rparr>)" "safe s (s\<lparr>s_startAt := a\<rparr>)" "safe s (s\<lparr>s_retryConn := r\<rparr>)"
  "safe s (s\<lparr>s_stopSess := q\<rparr>)" "safe s (s\<lparr>s_ended := e\<rparr>)" "safe s (s\<lparr>s_reportStep := n\<rparr>)"
  "safe s (s\<lparr>s_finishedAt := f\<rparr>)" "safe s (s\<lparr>s_downloaded := dl\<rparr>)" "safe s (s\<lparr>s_deploys := k\<rparr>)"
  "safe s (s\<lparr>s_task := (s_task s)\<lparr>dt_LinkChain := lc\<rparr>\<rparr>)"
  by (auto simp: core_def intro!: safe_other)

lemma safe_startImp:
  assumes "startImp w s st = Some t"
  shows "safe s t"
proof (cases "c_Server (s_cfg s) \<or> s_totalPieces s = s_goodPieces s")
  case True
  then show ?thesis using assms safe_fields(2) safe_reportStatus
    by (auto simp: startImp_def split: if_splits)
next
  case False
  let ?s1 = "s\<lparr>s_task := (s_task s)\<lparr>dt_LinkChain := st_LinkChain st\<rparr>\<rparr>"
  obtain x s2 s3 where s2: "tryNewPeer w (?s1\<lparr>s_indexInChain := x\<rparr>) = Some s2"
    and s3: "initPeersBitset s2 (w_ids w (map snd (s_peers s2))) = Some s3"
    and t: "t = s3\<lparr>s_startAt := Some (w_now w)\<rparr>"
    using assms False by (auto simp: startImp_def Let_def bind_eq_Some_conv)
  have "safe s ?s1" by (rule safe_fields)
  also have "safe ?s1 (?s1\<lparr>s_indexInChain := x\<rparr>)" by (rule safe_fields)
  also have "safe (?s1\<lparr>s_indexInChain := x\<rparr>) s2" using s2 by (rule safe_tryNewPeer)
  also have "safe s2 s3" using s3 by (rule safe_initPeersBitset)
  also have "safe s3 t" unfolding t by (rule safe_fields)
  finally show ?thesis .
qed

lemma safe_checkRequestKeys: "checkRequestKeys now s ks = Some t \<Longrightarrow> safe s t"
  by (induction now s ks rule: checkRequestKeys.induct)
    (auto simp: bind_eq_Some_conv split: if_splits intro: safe_trans [OF safe_removeRequest])

lemma safe_peersKeepAlive: "peersKeepAlive w s is = Some t \<Longrightarrow> safe s t"
proof (induction "is" arbitrary: s)
  case (Cons i "is")
  show ?case
  proof (cases "time_Second (p_lastReadTime (peer_at s i)) \<noteq> 0 \<and>
      (case p_lastReadTime (peer_at s i) of None \<Rightarrow> True | Some t \<Rightarrow> w_now w - t > seconds 180)")
    case True
    then show ?thesis using Cons by (auto simp: bind_eq_Some_conv intro: safe_trans [OF safe_ClosePeer])
  next
    case False
    then obtain s1 s2 where "doCheckRequests w s i = Some s1" "send_peer w s1 i keepAlive = Some s2"
        "peersKeepAlive w s2 is = Some t"
      using Cons.prems by (auto simp: bind_eq_Some_conv Let_def)
    then show ?thesis
      using Cons.IH safe_checkRequestKeys safe_send_peer keeps
      unfolding doCheckRequests_def by (metis safe_trans)
  qed
qed simp

section \<open>Blocks keep the invariant\<close>

lemma piece_windows_apart:
  fixes i j P b n :: nat
  assumes "i \<noteq> j" "b + n \<le> P"
  shows "j * P + P \<le> i * P + b \<or> i * P + b + n \<le> j * P"
proof -
  have "Suc j * P \<le> i * P \<or> Suc i * P \<le> j * P"
    using assms(1) mult_le_mono1 [of "Suc j" i P] mult_le_mono1 [of "Suc i" j P] by linarith
  then show ?thesis using assms(2) by auto
qed

lemma write_safe:
  assumes inv: "sess_inv s" and fs: "s_fileStore s = Some fs" and i: "i \<notin> pset s"
    and le: "b + length data \<le> plen s"
    and wr: "fs_WriteAt srt clk (s_disk s) fs data (int (i * plen s + b)) = Ret (d, fs', n, err)"
  shows "safe s (s\<lparr>s_disk := d, s_fileStore := Some fs'\<rparr>)"
    and "\<forall>j. j \<noteq> i \<longrightarrow> piece_bytes (contents d fs') (plen s) j = piece_bytes (sess_contents s) (plen s) j"
proof -
  let ?t = "s\<lparr>s_disk := d, s_fileStore := Some fs'\<rparr>" and ?P = "plen s"
  have st: "store_inv s" using inv by (simp add: sess_inv_def)
  have pl: "wf_store (s_disk s) fs" "fs_cache fs = None"
    using st fs by (auto simp: store_inv_def plain_store_def)
  then have w: "RawWriteAt (s_disk s) fs data (int (i * ?P + b)) = (d, n, err)" and f': "fs' = fs"
    using wr by (auto simp: fs_WriteAt_def split: prod.splits)
  have sw: "st_write (s_disk s, fs) data (int (i * ?P + b)) = ((d, fs), n, err)"
    using w by (simp add: st_write_def)
  have c: "sess_contents s = contents (s_disk s) fs" "sess_contents ?t = contents d fs"
    using fs by (simp_all add: sess_contents_def f')
  have wf: "wf_store d fs" using store.wr_ok [of "(s_disk s, fs)", OF _ sw] pl by simp
  have len: "length (sess_contents ?t) = length (sess_contents s)"
    using store.wr_size [of "(s_disk s, fs)", OF _ sw] pl by (simp add: c)
  have win: "piece_bytes (sess_contents ?t) ?P j = piece_bytes (sess_contents s) ?P j" if "j \<noteq> i" for j
    using store.window_after_write [of "(s_disk s, fs)", OF _ sw, of "j * ?P" ?P] pl
      piece_windows_apart [OF _ le, of i j] that by (simp add: c piece_bytes_def)
  then show "\<forall>j. j \<noteq> i \<longrightarrow> piece_bytes (contents d fs') ?P j = piece_bytes (sess_contents s) ?P j"
    unfolding c(2) [symmetric, unfolded f' [symmetric]] by simp
  have views: "sess_ref ?t = sess_ref s" "pset ?t = pset s" "pieceLen ?t = pieceLen s"
    by (simp_all add: sess_ref_def pset_def pieceLen_def)
  have good: "j \<in> good_pieces (sess_ref s) (sess_contents ?t) ?P"
    if "j \<in> pset s" "j \<in> good_pieces (sess_ref s) (sess_contents s) ?P" for j
  proof -
    have "j \<noteq> i" using that i by auto
    then show ?thesis using that win [of j] len by (auto simp: good_pieces_def)
  qed
  have nil: "sess_contents ?t = [] \<longleftrightarrow> sess_contents s = []" using len by (metis length_0_conv)
  have "pset s \<subseteq> good_pieces (sess_ref s) (sess_contents ?t) ?P"
    using st good unfolding store_inv_def by blast
  moreover have "\<exists>fs. s_fileStore ?t = Some fs \<and> plain_store (s_disk ?t) fs"
    using wf pl by (simp add: plain_store_def f')
  ultimately have "store_inv ?t"
    using st unfolding store_inv_def views len nil by simp
  moreover have "active_inv ?t = active_inv s"
    by (simp add: active_inv_def active_ok_def sess_pieceLength_def views)
  moreover have "peers_inv ?t = peers_inv s" by (simp add: peers_inv_def peer_at_def)
  moreover have "sess_grows s ?t"
  proof -
    have "\<forall>j \<in> pset s. piece_bytes (sess_contents ?t) ?P j = piece_bytes (sess_contents s) ?P j"
    proof
      fix j assume "j \<in> pset s"
      then have "j \<noteq> i" using i by auto
      then show "piece_bytes (sess_contents ?t) ?P j = piece_bytes (sess_contents s) ?P j" by (rule win)
    qed
    then show ?thesis using len by (simp add: sess_grows_def views)
  qed
  ultimately show "safe s ?t" using inv by (simp add: safe_def sess_inv_def)
qed

lemma safe_progress:
  assumes "progress w s = Some t"
  shows "safe s t"
proof (cases "s_goodPieces s = s_totalPieces s")
  case True
  then obtain s1 where r: "sess_reportStatus (s\<lparr>s_finishedAt := Some (w_now w)\<rparr>) (percentComplete s) = Some s1"
    and t: "t = s1\<lparr>s_deploys := s_deploys s1 + 1\<rparr>"
    using assms by (auto simp: progress_def Let_def bind_eq_Some_conv sess_deploy_def)
  have "safe s (s\<lparr>s_finishedAt := Some (w_now w)\<rparr>)" by (rule safe_fields)
  also have "safe \<dots> s1" using r by (rule safe_reportStatus)
  also have "safe s1 t" unfolding t by (rule safe_fields)
  finally show ?thesis .
next
  case False
  then show ?thesis using assms safe_trans [OF safe_fields(6) safe_reportStatus]
    by (auto simp: progress_def Let_def split: if_splits)
qed

lemma safe_broadcastHave: "broadcastHave w s piece is = Some t \<Longrightarrow> safe s t"
proof (induction "is" arbitrary: s)
  case (Cons i "is")
  show ?case
  proof (cases "p_have (peer_at s i)")
    case None
    then show ?thesis using Cons by simp
  next
    case (Some h)
    then obtain wants s1 where s1: "(if wants then send_peer w s i (\<lambda>p. SendHave p piece) else Some s) = Some s1"
      and t: "broadcastHave w s1 piece is = Some t"
      using Cons.prems by (auto simp: bind_eq_Some_conv)
    have "safe s s1" using s1 by (auto split: if_splits intro: safe_send_peer keeps)
    then show ?thesis using Cons.IH [OF t] by (rule safe_trans)
  qed
qed simp

lemma delete_active_inv:
  assumes "active_inv s"
  shows "active_inv (s\<lparr>s_activePieces := AList.delete k (s_activePieces s)\<rparr>)"
  using assms
  by (auto simp: active_inv_def distinct_delete delete_conv' active_ok_def pset_def
      sess_pieceLength_def pieceLen_def split: if_splits)

lemma piece_done_inv:
  assumes inv: "sess_inv s" and fresh: "map_of (s_activePieces s) (int i) = None"
    and i: "i < npieces s" "i \<notin> pset s" "i \<in> good_pieces (sess_ref s) (sess_contents s) (plen s)"
    and b: "s_pieceSet s = Some b" "BSet b (int i) = Some b'"
  shows "safe s (s\<lparr>s_pieceSet := Some b', s_goodPieces := s_goodPieces s + 1\<rparr>)"
proof -
  let ?t = "s\<lparr>s_pieceSet := Some b', s_goodPieces := s_goodPieces s + 1\<rparr>"
  have st: "store_inv s" using inv by (simp add: sess_inv_def)
  have wb: "wf_bitset b" "Len b = int (npieces s)" "int i < Len b"
    using st b i(1) by (auto simp: store_inv_def)
  then have b': "wf_bitset b'" "Len b' = Len b" "elems b' = insert i (elems b)"
    using bs.put [OF wb(1,3)] b(2) by auto
  have views: "sess_ref ?t = sess_ref s" "sess_contents ?t = sess_contents s" "pieceLen ?t = pieceLen s"
    "pset ?t = insert i (pset s)"
    by (simp_all add: sess_ref_def sess_contents_def pieceLen_def pset_def b' b(1) cong: option.case_cong)
  have "finite (pset s)" using bs.finite_members [OF wb(1)] b(1) by (simp add: pset_def)
  then have "store_inv ?t"
    using st i b' wb(2) unfolding store_inv_def views by (auto simp: good_pieces_def)
  moreover have "active_inv ?t"
    using inv fresh unfolding sess_inv_def active_inv_def active_ok_def sess_pieceLength_def views
    by (auto simp: nat_eq_iff)
  moreover have "peers_inv ?t = peers_inv s" by (simp add: peers_inv_def peer_at_def)
  ultimately show ?thesis
    using inv by (auto simp: safe_def sess_inv_def sess_grows_def views)
qed

lemma sess_checkPiece:
  assumes "store_inv s" "s_fileStore s = Some fs" "i < npieces s"
  shows "checkPiece (s_disk s) fs (s_totalSize s) (dt_MetaInfo (s_task s)) (int i) =
    Ret (i \<in> good_pieces (sess_ref s) (sess_contents s) (plen s), piece_bytes (sess_contents s) (plen s) i,
      if i \<in> good_pieces (sess_ref s) (sess_contents s) (plen s) then None else Some Sum_Mismatch)"
proof -
  have p: "plain_store (s_disk s) fs" and c: "contents (s_disk s) fs = sess_contents s"
    and P: "mi_PieceLen (dt_MetaInfo (s_task s)) = int (plen s)" "0 < plen s"
    and l: "length (mi_Pieces (dt_MetaInfo (s_task s))) = npieces s * sha1_Size"
    using assms by (auto simp: store_inv_def sess_contents_def pieceLen_def sess_ref_def)
  have "s_totalSize s = int (length (sess_contents s))" using assms(1) unfolding store_inv_def by blast
  then show ?thesis using checkPiece_eq [OF p c P assms(3) l] by (simp add: sess_ref_def)
qed

lemma finishPiece_inv:
  assumes st: "store_inv s" "peers_inv s"
    and act: "active_inv (s\<lparr>s_activePieces := AList.delete (uint piece) (s_activePieces s)\<rparr>)"
    and i: "uint piece < s_totalPieces s" "unat piece \<notin> pset s"
    and fin: "finishPiece w s i piece = Some t"
  shows "sess_inv t \<and> sess_grows s t"
proof -
  let ?s = "s\<lparr>s_activePieces := AList.delete (uint piece) (s_activePieces s)\<rparr>"
  have c: "core ?s = core s" by (simp add: core_def)
  have inv: "sess_inv ?s"
    using st act unfolding sess_inv_def core_views(6) [OF c]
    by (simp add: peers_inv_def peer_at_def)
  have gr: "sess_grows s ?s" using core_views(10) [OF c] by simp
  have u: "uint piece = int (unat piece)" by simp
  have "s_totalPieces s = int (npieces s)" using st(1) unfolding store_inv_def by blast
  then have n: "unat piece < npieces s" using i(1) u by (metis of_nat_less_iff)
  obtain fs where fs: "s_fileStore s = Some fs" using st(1) by (auto simp: store_inv_def)
  let ?good = "unat piece \<in> good_pieces (sess_ref s) (sess_contents s) (plen s)"
  have chk: "checkPiece (s_disk s) fs (s_totalSize s) (dt_MetaInfo (s_task s)) (uint piece) =
      Ret (?good, piece_bytes (sess_contents s) (plen s) (unat piece), if ?good then None else Some Sum_Mismatch)"
    using sess_checkPiece [OF st(1) fs n] by (simp only: u)
  let ?s2 = "\<lambda>b'. ?s\<lparr>s_pieceSet := Some b', s_goodPieces := s_goodPieces ?s + 1\<rparr>"
  have cm: "fs_Commit (s_disk s) fs k p off = Ret (s_disk s, fs)" for k p off
    using st(1) fs by (auto simp: fs_Commit_def store_inv_def plain_store_def)
  have same: "s\<lparr>s_activePieces := A, s_fileStore := Some fs, s_pieceSet := B, s_goodPieces := G\<rparr> =
      s\<lparr>s_activePieces := A, s_pieceSet := B, s_goodPieces := G\<rparr>" for A B G
    using fs by (cases s) simp
  have "safe ?s t"
  proof (cases ?good)
    case False
    then obtain s1 where r: "sess_reportStatus ?s (-1) = Some s1" and t: "t = upd_peer s1 i peerClose"
      using fin by (auto simp: finishPiece_def Let_def fs chk bind_eq_Some_conv)
    show ?thesis unfolding t using safe_reportStatus [OF r] safe_upd_peer [OF keeps_peerClose]
      by (rule safe_trans)
  next
    case True
    obtain b b' s2 where b: "s_pieceSet s = Some b" "BSet b (uint piece) = Some b'"
      and pr: "progress w (?s2 b') = Some s2"
      and br: "broadcastHave w s2 piece (w_ids w (map snd (s_peers s2))) = Some t"
      using fin True by (auto simp: finishPiece_def Let_def fs chk cm same bind_eq_Some_conv)
    have fresh: "map_of (s_activePieces ?s) (int (unat piece)) = None"
      by (simp add: delete_conv')
    have "safe ?s (?s2 b')"
      by (rule piece_done_inv [OF inv fresh])
        (use n i(2) True b in \<open>simp_all add: core_views [OF c]\<close>)
    also have "safe \<dots> s2" using pr by (rule safe_progress)
    also have "safe s2 t" using br by (rule safe_broadcastHave)
    finally show ?thesis .
  qed
  then show ?thesis using inv gr grows_trans by (auto simp: safe_def)
qed

lemma recordBlock_wf:
  assumes "ap_recordBlock v block = Some (v', c)" "wf_active v"
  shows "wf_active v' \<and> length (ap_downloaderCount v') = length (ap_downloaderCount v)"
  using assms by (auto simp: ap_recordBlock_def wf_active_def bind_eq_Some_conv
      dest!: go_store_SomeD set_update_subset_insert [THEN subsetD])

lemma set_active_views [simp]:
  "s_heap (set_active s k a) = s_heap s" "s_peers (set_active s k a) = s_peers s"
  "s_activePieces (set_active s k a) = AList.update k a (s_activePieces s)"
  "s_totalPieces (set_active s k a) = s_totalPieces s"
  by (simp_all add: set_active_def)

lemma safe_block_recorded:
  assumes v: "map_of (s_activePieces s) (uint piece) = Some v"
    and r: "ap_recordBlock v block = Some (v', c)"
    and t: "(if \<not> isComplete v' then Some ((set_active s (uint piece) v')\<lparr>s_downloaded := x\<rparr>)
      else finishPiece w ((set_active s (uint piece) v')\<lparr>s_downloaded := x\<rparr>) i piece) = Some t"
  shows "safe s t"
proof -
  define s2 where "s2 = set_active s (uint piece) v'"
  define s3 where "s3 = s2\<lparr>s_downloaded := x\<rparr>"
  have t': "(if \<not> isComplete v' then Some s3 else finishPiece w s3 i piece) = Some t"
    using t by (simp only: s2_def s3_def)
  have ok: "active_ok s (uint piece) v" if "sess_inv s"
    using that v by (simp add: sess_inv_def active_inv_def)
  have s23: "safe s2 s3" unfolding s3_def by (rule safe_fields)
  show ?thesis
  proof (cases "isComplete v'")
    case False
    have "active_ok s (uint piece) v'" if "sess_inv s"
      using ok [OF that] recordBlock_wf [OF r] False by (simp add: active_ok_def)
    then have "safe s s2" unfolding s2_def by (rule safe_set_active)
    moreover have "t = s3" using t' False by simp
    ultimately show ?thesis using s23 safe_trans by blast
  next
    case True
    have f: "finishPiece w s3 i piece = Some t" using t' True by simp
    have c: "core s3 = core s" by (simp add: core_def s3_def s2_def set_active_def)
    have a: "s_activePieces s3 = AList.update (uint piece) v' (s_activePieces s)" "s_heap s3 = s_heap s"
      "s_peers s3 = s_peers s" by (simp_all add: s3_def s2_def)
    have "sess_inv t \<and> sess_grows s t" if inv: "sess_inv s"
    proof -
      have "store_inv s3" using inv core_views(6) [OF c] by (simp add: sess_inv_def)
      moreover have "peers_inv s3"
        using inv core_views(5) [OF c] by (simp add: sess_inv_def peers_inv_def peer_at_def a)
      moreover have "active_inv (s3\<lparr>s_activePieces := AList.delete (uint piece) (s_activePieces s3)\<rparr>)"
      proof -
        have "active_inv (s\<lparr>s_activePieces := AList.delete (uint piece) (s_activePieces s)\<rparr>)"
          using inv delete_active_inv by (simp add: sess_inv_def)
        moreover have "core (s3\<lparr>s_activePieces := A\<rparr>) = core (s\<lparr>s_activePieces := A\<rparr>)" for A
          using c by (simp add: core_def)
        note core_views(7) [OF this]
        ultimately show ?thesis by (simp add: active_inv_def a delete_update_same)
      qed
      moreover have "uint piece < s_totalPieces s3" "unat piece \<notin> pset s3"
        using ok [OF inv] core_views(3,5) [OF c] by (simp_all add: active_ok_def)
      ultimately have "sess_inv t \<and> sess_grows s3 t" using f by (rule finishPiece_inv)
      moreover have "sess_grows s s3" using core_views(10) [OF c] by (simp add: a)
      ultimately show ?thesis using grows_trans by blast
    qed
    then show ?thesis by (simp add: safe_def)
  qed
qed

lemma safe_recordBlock:
  assumes "sess_recordBlock w s i piece begin len = Some t"
  shows "safe s t"
proof -
  define s1 where "s1 = upd_peer s i (\<lambda>p. p\<lparr>p_ourRequests :=
       AList.delete (requestIndex (uint piece) (uint begin)) (p_ourRequests p)\<rparr>)"
  have s1: "safe s s1" unfolding s1_def by (rule safe_upd_peer) (rule keeps)
  have e: "(case map_of (s_activePieces s1) (uint piece) of
       None \<Rightarrow> Some s1
     | Some v \<Rightarrow> do {
         (v, _) \<leftarrow> ap_recordBlock v (uint begin div standardBlockLen);
         if \<not> isComplete v then Some ((set_active s1 (uint piece) v)\<lparr>s_downloaded := s_downloaded s1 + ucast len\<rparr>)
         else finishPiece w ((set_active s1 (uint piece) v)\<lparr>s_downloaded := s_downloaded s1 + ucast len\<rparr>) i piece
       }) = Some t"
    using assms unfolding sess_recordBlock_def Let_def s1_def .
  have "safe s1 t"
  proof (cases "map_of (s_activePieces s1) (uint piece)")
    case (Some v)
    then obtain v' c where r: "ap_recordBlock v (uint begin div standardBlockLen) = Some (v', c)"
      using e by (cases "ap_recordBlock v (uint begin div standardBlockLen)") auto
    show ?thesis
      using e unfolding Some r option.case Option.bind.simps prod.case
      by (rule safe_block_recorded [OF Some r])
  qed (use e in simp)
  with s1 show ?thesis by (rule safe_trans)
qed

section \<open>Messages keep the invariant\<close>

lemma index_in_range:
  fixes index :: u32
  assumes "\<not> index \<ge> word_of_int n" "0 \<le> n"
  shows "uint index < n"
proof -
  have "uint index < uint (word_of_int n :: u32)" using assms(1) by (simp add: word_less_def not_le)
  also have "\<dots> \<le> n" using assms(2) by (simp add: uint_word_of_int zmod_le_nonneg_dividend)
  finally show ?thesis .
qed

lemma decodePiece_InrD:
  assumes "decodePiece s i message = Some (Inr (index, begin, len))"
    and "sess_inv s" "i < length (s_heap s)" "length message \<le> maxBlockLen"
  shows "unat index < npieces s \<and> unat begin + length (drop 9 message) \<le> plen s \<and> 9 \<le> length message"
proof -
  obtain hv where hv: "p_have (peer_at s i) = Some hv"
    and l: "\<not> length message < 9"
    and c: "(if index \<ge> word_of_int (bs_n hv) then Inl Piece_Out_Of_Range
          else if uint begin \<ge> pieceLen s then Inl Begin_Out_Of_Range
          else if uint begin + uint len > pieceLen s then Inl Length_Out_Of_Range
          else if unat len > maxBlockLen then Inl Block_Too_Large
          else Inr (index, begin, len)) = (Inr (index, begin, len) :: sess_error + u32 \<times> u32 \<times> u32)"
    and len: "len = word_of_int (int (length message) - 9)"
    using assms(1) by (auto simp: decodePiece_def bind_eq_Some_conv Let_def split: if_splits)
  have "peer_ok (s_totalPieces s) (peer_at s i)"
    using assms(2,3) by (simp add: sess_inv_def peers_inv_def peer_at_def)
  then have n: "bs_n hv = s_totalPieces s" using hv by (simp add: peer_ok_def Len_def)
  have tp: "s_totalPieces s = int (npieces s)" "0 < pieceLen s"
    using assms(2) unfolding sess_inv_def store_inv_def by blast+
  have "\<not> index \<ge> word_of_int (s_totalPieces s)" using c n by (auto split: if_splits)
  from index_in_range [OF this] have "int (unat index) < int (npieces s)" using tp by simp
  then have "unat index < npieces s" by (simp only: of_nat_less_iff)
  moreover have "uint len = int (length message) - 9"
    using l assms(4) unfolding len uint_word_of_int_eq
    by (intro take_bit_int_eq_self) (simp_all add: maxBlockLen_def)
  moreover have "uint begin + uint len \<le> pieceLen s" using c by (auto split: if_splits)
  ultimately show ?thesis using l tp(2) by (simp add: le_nat_iff)
qed

lemma safe_handlePiece:
  assumes "handlePiece w s i message = Some (t, err)" "i < length (s_heap s)" "length message \<le> maxBlockLen"
  shows "safe s t"
proof (cases "sess_inv s")
  case True
  obtain r where r: "decodePiece s i message = Some r"
    using assms(1) by (auto simp: handlePiece_def bind_eq_Some_conv)
  show ?thesis
  proof (cases r)
    case (Inl e)
    then show ?thesis using assms(1) r by (simp add: handlePiece_def)
  next
    case (Inr ibl)
    obtain index bgn len where ibl: "ibl = (index, bgn, len)" by (cases ibl)
    note d = decodePiece_InrD [OF r [unfolded Inr ibl] True assms(2,3)]
    obtain b where b: "s_pieceSet s = Some b" "wf_bitset b" "Len b = int (npieces s)"
      using True by (auto simp: sess_inv_def store_inv_def)
    have "int (unat index) < Len b" using d b(3) by (simp only: of_nat_less_iff)
    then have mem: "IsSet b (uint index) = Some (unat index \<in> pset s)"
      using bs.member [OF b(2), of "unat index"] b(1) by (simp add: pset_def)
    obtain fs where fs: "s_fileStore s = Some fs" using True by (auto simp: sess_inv_def store_inv_def)
    have off: "uint index * pieceLen s + uint bgn = int (unat index * plen s + unat bgn)"
      using True by (simp add: sess_inv_def store_inv_def)
    define wr where "wr = fs_WriteAt (w_srt w) (w_clk w) (s_disk s) fs (drop 9 message)
        (int (unat index * plen s + unat bgn))"
    have e: "(if unat index \<in> pset s
         then do { (s, _) \<leftarrow> requestBlock w 0 s i; Some (s, None) }
         else do {
           (d, fs, _, err) \<leftarrow> returns wr;
           case err of
             Some e \<Rightarrow> Some (s\<lparr>s_disk := d, s_fileStore := Some fs\<rparr>, Some (Store_Error e))
           | None \<Rightarrow> do {
               s \<leftarrow> sess_recordBlock w (s\<lparr>s_disk := d, s_fileStore := Some fs\<rparr>) i index bgn len;
               (s, _) \<leftarrow> requestBlock w 0 s i;
               Some (s, None)
             }
         }) = Some (t, err)"
      using assms(1) unfolding handlePiece_def r Inr ibl Let_def wr_def
      by (simp only: Option.bind.simps sum.case prod.case b(1) mem fs off)
    show ?thesis
    proof (cases "unat index \<in> pset s")
      case yes: True
      then have "do { (s, _) \<leftarrow> requestBlock w 0 s i; Some (s, None :: sess_error option) } = Some (t, err)"
        using e by simp
      then show ?thesis by (auto simp: bind_eq_Some_conv dest: safe_requestBlock)
    next
      case no: False
      obtain d' fs' n err1 where wr: "wr = Ret (d', fs', n, err1)"
        using e no by (cases wr) auto
      let ?s1 = "s\<lparr>s_disk := d', s_fileStore := Some fs'\<rparr>"
      have t: "(case err1 of
             Some e \<Rightarrow> Some (?s1, Some (Store_Error e))
           | None \<Rightarrow> do {
               s \<leftarrow> sess_recordBlock w ?s1 i index bgn len;
               (s, _) \<leftarrow> requestBlock w 0 s i;
               Some (s, None)
             }) = Some (t, err)"
        using e no unfolding wr by (simp only: if_False returns.simps Option.bind.simps prod.case)
      have "safe s ?s1"
        using d by (intro write_safe(1) [OF True fs no _ wr [unfolded wr_def]]) blast
      also have "safe ?s1 t"
      proof (cases err1)
        case None
        then obtain s2 e2 where "sess_recordBlock w ?s1 i index bgn len = Some s2"
            "requestBlock w 0 s2 i = Some (t, e2)"
          using t by (auto simp: bind_eq_Some_conv)
        then show ?thesis using safe_recordBlock safe_requestBlock safe_trans by blast
      qed (use t in simp)
      finally show ?thesis .
    qed
  qed
qed (simp add: safe_def)

lemma safe_handleHave:
  assumes "handleHave w s i message = Some (t, err)" "i < length (s_heap s)"
  shows "safe s t"
proof (cases "sess_inv s \<and> t \<noteq> s")
  case True
  then have inv: "sess_inv s" by simp
  obtain n hv hv' where n: "msg_u32 message 1 = Some n" and hv: "p_have (peer_at s i) = Some hv"
    and le: "\<not> n \<ge> word_of_int (bs_n hv)" and st: "BSet hv (uint n) = Some hv'"
    and l5: "length message = 5"
    using assms(1) True by (auto simp: handleHave_def bind_eq_Some_conv split: if_splits)
  let ?s1 = "upd_peer s i (\<lambda>p. p\<lparr>p_have := Some hv'\<rparr>)"
  have "peer_ok (s_totalPieces s) (peer_at s i)"
    using inv assms(2) by (simp add: sess_inv_def peers_inv_def peer_at_def)
  then have h: "wf_bitset hv" "Len hv = s_totalPieces s" using hv by (simp_all add: peer_ok_def)
  have "0 \<le> s_totalPieces s" using inv by (auto simp: sess_inv_def store_inv_def)
  then have "uint n < Len hv" using index_in_range [OF le] h(2) by (simp add: Len_def)
  then have "wf_bitset hv'" "Len hv' = s_totalPieces s"
    using bs.put [OF h(1), of "unat n"] st h(2) by auto
  then have s1: "safe s ?s1" by (intro safe_upd_peer keeps_have) simp
  have "safe ?s1 t"
  proof (cases "p_client (peer_at ?s1 i)")
    case True
    then show ?thesis using assms(1) n hv le st l5 by (simp add: handleHave_def)
  next
    case False
    then have "fold (\<lambda>call r. do { s \<leftarrow> r; (s, _) \<leftarrow> requestBlock w call s i; Some s })
              [0..<maxOurRequests] (Some ?s1) = Some t"
      using assms(1) n hv le st l5 by (auto simp: handleHave_def Let_def bind_eq_Some_conv)
    then show ?thesis by (rule safe_requestMany)
  qed
  with s1 show ?thesis by (rule safe_trans)
qed (auto simp: safe_def)

lemma safe_handleBitfield:
  assumes "handleBitfield w s i message = Some (t, err)"
  shows "safe s t"
proof (cases "sess_inv s")
  case True
  obtain hv where hv: "NewBitsetFromBytes (s_totalPieces s) (drop 1 message) = Some hv"
    and t: "(let s = upd_peer s i (\<lambda>p. p\<lparr>p_have := hv\<rparr>) in
      if hv = None then Some (s, Some Invalid_Bitfield)
      else if \<not> p_client (peer_at s i) then do { (s, _) \<leftarrow> requestBlock w 0 s i; Some (s, None) }
      else Some (s, None)) = Some (t, err)"
    using assms by (auto simp: handleBitfield_def bind_eq_Some_conv)
  have "s_totalPieces s = int (npieces s)" using True unfolding sess_inv_def store_inv_def by blast
  then have "\<forall>h. hv = Some h \<longrightarrow> wf_bitset h \<and> Len h = s_totalPieces s"
    using hv by (auto simp: NewBitsetFromBytes_nat wf_bitset_iff Len_def fresh_bitset_def split: if_splits)
  then have "safe s (upd_peer s i (\<lambda>p. p\<lparr>p_have := hv\<rparr>))" by (intro safe_upd_peer keeps_have)
  also have "safe \<dots> t"
    using t by (auto simp: Let_def bind_eq_Some_conv split: if_splits dest: safe_requestBlock)
  finally show ?thesis .
qed (simp add: safe_def)

lemma safe_handleRequest:
  assumes "handleRequest w s i message = Some (t, err)"
  shows "safe s t"
proof -
  have sp: "safe s t" if "sendPiece w s i index bgn len = Some (t, err)" for index bgn len
    using that by (auto simp: sendPiece_def Let_def bind_eq_Some_conv split: if_splits option.splits
        intro: safe_send_peer keeps)
  obtain r where r: "decodeRequest s i message = Some r"
    using assms by (auto simp: handleRequest_def bind_eq_Some_conv)
  show ?thesis
  proof (cases r)
    case (Inl e)
    then show ?thesis using assms r by (simp add: handleRequest_def)
  next
    case (Inr x)
    then show ?thesis using assms r sp by (cases x) (simp add: handleRequest_def)
  qed
qed

lemma safe_doMessage:
  assumes "doMessage w s i message = Some (t, err)" "i < length (s_heap s)"
    and "case message of None \<Rightarrow> True | Some b \<Rightarrow> length b \<le> maxBlockLen"
  shows "safe s t"
  using assms
  by (auto simp: doMessage_def generalMessage_def bind_eq_Some_conv split: option.splits if_splits
      dest: safe_handleHave safe_handleBitfield safe_handleRequest safe_handlePiece)

lemma safe_sess_step:
  assumes "sess_step w s e = Some t" "event_ok s e"
  shows "safe s t"
proof (cases e)
  case (Message i m)
  let ?s = "upd_peer s i (\<lambda>p. p\<lparr>p_lastReadTime := Some (w_now w)\<rparr>)"
  obtain s1 err where m: "doMessage w ?s i m = Some (s1, err)"
    and t: "(case err of None \<Rightarrow> Some s1 | Some Eof \<Rightarrow> ClosePeer s1 i | Some _ \<Rightarrow> closePeerAndTryReconn w s1 i) = Some t"
    using assms(1) Message by (auto simp: bind_eq_Some_conv)
  have "safe s ?s" by (rule safe_upd_peer) (rule keeps)
  also have "safe ?s s1"
    using safe_doMessage [OF m] assms(2) Message by (simp add: upd_peer_def split: option.splits)
  also have "safe s1 t"
    using t safe_ClosePeer safe_closePeerAndTryReconn
    by (auto split: option.splits sess_error.splits)
  finally show ?thesis .
next
  case Keep_Alive_Tick
  then show ?thesis using assms(1) safe_peersKeepAlive safe_trans [OF safe_fields(4) safe_peersKeepAlive]
    by (auto simp: Let_def split: if_splits)
next
  case Retry_Tick
  then show ?thesis using assms(1) safe_trans [OF safe_fields(3) safe_tryNewPeer] by auto
next
  case Quit_Session
  then show ?thesis using assms(1) safe_trans [OF safe_closeAll safe_fields(5)]
    by (auto simp: sess_shutdown_def bind_eq_Some_conv)
qed (use assms in \<open>auto simp: safe_addPeerImp safe_startImp\<close>)

lemma inv_grows_step:
  assumes "sess_inv s" "sess_next s t"
  shows "sess_inv t \<and> sess_grows s t"
  using assms safe_sess_step by (elim sess_nextE) (force simp: safe_def)

interpretation sess: machine sess_next sess_inv sess_grows
proof unfold_locales
  fix s t u
  show "sess_inv s \<Longrightarrow> sess_next s t \<Longrightarrow> sess_inv t \<and> sess_grows s t" by (rule inv_grows_step)
  show "sess_grows s s" by (rule grows_refl)
  show "sess_grows s t \<Longrightarrow> sess_grows t u \<Longrightarrow> sess_grows s u" by (rule grows_trans)
qed

end
