(* ===== verification/SessionProps.thy ===== *)
theory SessionProps
  imports SessionInv
begin

text \<open>
  What the invariant of a session gives: a client that has opened its files starts in it, every
  run keeps it, a session that counts all its pieces has exactly the bytes the metadata
  describes; and how two sessions exchange a block.  The last sections show the ways a session
  goes wrong.
\<close>

section \<open>Initialising establishes the invariant\<close>

definition total_length :: "meta_info \<Rightarrow> nat" where
  "total_length m = nat (sum_list (map fd_Length (mi_Files m)))"

lemma sess_init_ok:
  assumes "sess_init w s = Some (t, ok)" "s_fileStore s = None" "s_fileStore t = Some fs"
    and "distinct (map fe_file (fs_files fs))" "mi_PieceLen (dt_MetaInfo (s_task s)) = int P" "0 < P"
  shows "\<exists>d. ok \<and> plain_store d fs \<and>
    length (contents d fs) = total_length (dt_MetaInfo (s_task s)) \<and>
    t = s\<lparr>s_disk := d, s_fileStore := Some fs, s_totalSize := int (length (contents d fs)),
      s_totalPieces := int (piece_count (length (contents d fs)) P),
      s_lastPieceLength := (if length (contents d fs) = 0 then int P
        else int (length (contents d fs) - (piece_count (length (contents d fs)) P - 1) * P))\<rparr>"
proof -
  obtain d r where o1: "NewFileStore (osFs_Open (w_fs w)) (s_disk s) (dt_MetaInfo (s_task s)) = Some (d, r)"
    and t1: "(case r of
       Inl _ \<Rightarrow> Some (s\<lparr>s_disk := d\<rparr>, False)
     | Inr (fs, totalSize) \<Rightarrow> do {
         (totalPieces, lastPieceLength) \<leftarrow> countPieces totalSize (int P);
         Some (s\<lparr>s_disk := d, s_fileStore := Some fs, s_totalSize := totalSize, s_totalPieces := totalPieces,
           s_lastPieceLength := lastPieceLength\<rparr>, True)
       }) = Some (t, ok)"
    using assms(1) unfolding sess_init_def Let_def assms(5) by (auto simp: bind_eq_Some_conv)
  obtain fs' n where r: "r = Inr (fs', n)" using t1 assms(2,3) by (cases r) auto
  have f: "fs' = fs" using t1 assms(3) by (auto simp: r bind_eq_Some_conv)
  note wf = osfs.NewFileStore_wf [OF o1 [unfolded r f] assms(4)]
  have n: "n = int (length (contents d fs))" using wf by blast
  have "length (contents d fs) = total_length (dt_MetaInfo (s_task s))"
    unfolding total_length_def using wf by (metis nat_int)
  moreover have "plain_store d fs" using wf by (simp add: plain_store_def)
  moreover have "(s\<lparr>s_disk := d, s_fileStore := Some fs, s_totalSize := n,
      s_totalPieces := int (piece_count (length (contents d fs)) P),
      s_lastPieceLength := (if length (contents d fs) = 0 then int P
        else int (length (contents d fs) - (piece_count (length (contents d fs)) P - 1) * P))\<rparr>, True) = (t, ok)"
    using t1 unfolding r f n sum.case prod.case countPieces_eq [OF assms(6)]
    by (simp only: Option.bind.simps prod.case option.inject)
  ultimately show ?thesis using n by (intro exI [of _ d]) simp
qed

lemma client_ready:
  assumes f: "s_fileStore t = Some fs" "plain_store (s_disk t) fs" "contents (s_disk t) fs = cs"
    and P: "mi_PieceLen (dt_MetaInfo (s_task t)) = int P" "0 < P"
    and n: "s_totalSize t = int (length cs)" "s_totalPieces t = int (piece_count (length cs) P)"
      "s_lastPieceLength t = (if length cs = 0 then int P else int (length cs - (piece_count (length cs) P - 1) * P))"
    and r: "length (mi_Pieces (dt_MetaInfo (s_task t))) = piece_count (length cs) P * sha1_Size"
    and b: "s_pieceSet t = Some b" "wf_bitset b" "Len b = int (piece_count (length cs) P)"
      "elems b \<subseteq> good_pieces (mi_Pieces (dt_MetaInfo (s_task t))) cs P"
      "s_goodPieces t = int (card (elems b))"
    and e: "s_activePieces t = []" "s_heap t = []" "s_peers t = []"
  shows "sess_inv t \<and> sess_contents t = cs \<and> plen t = P"
proof -
  have v: "sess_contents t = cs" "sess_ref t = mi_Pieces (dt_MetaInfo (s_task t))" "pieceLen t = int P"
    "pset t = elems b"
    using f P b by (simp_all add: sess_contents_def sess_ref_def pieceLen_def pset_def)
  have "store_inv t"
    unfolding store_inv_def v using f P n r b by simp
  then show ?thesis using v e by (simp add: sess_inv_def active_inv_def peers_inv_def)
qed

text \<open>The last step of \<open>initInClient\<close>, on the session its \<open>init\<close> leaves.\<close>

lemma client_finish:
  assumes s: "(if existed then do {
       fs \<leftarrow> s_fileStore s1;
       (good, _, goodBits, err) \<leftarrow>
         returns (checkPieces (w_hashes w) (s_disk s1) fs (s_totalSize s1) (dt_MetaInfo (s_task s1)));
       let s = s1\<lparr>s_goodPieces := good, s_pieceSet := Some goodBits\<rparr>;
       Some (if err \<noteq> None then s else s\<lparr>s_initedAt := Some (w_now w)\<rparr>)
     } else do {
       b \<leftarrow> NewBitset (s_totalPieces s1);
       Some (s1\<lparr>s_pieceSet := Some b, s_goodPieces := 0, s_initedAt := Some (w_now w)\<rparr>)
     }) = Some s"
    and w: "world_ok w"
    and f: "s_fileStore s1 = Some fs" "plain_store (s_disk s1) fs" "contents (s_disk s1) fs = cs"
    and P: "mi_PieceLen (dt_MetaInfo (s_task s1)) = int P" "0 < P"
    and n: "s_totalSize s1 = int (length cs)" "s_totalPieces s1 = int (piece_count (length cs) P)"
      "s_lastPieceLength s1 = (if length cs = 0 then int P else int (length cs - (piece_count (length cs) P - 1) * P))"
    and r: "length (mi_Pieces (dt_MetaInfo (s_task s1))) = piece_count (length cs) P * sha1_Size"
    and e: "s_activePieces s1 = []" "s_heap s1 = []" "s_peers s1 = []"
  shows "sess_inv s \<and> sess_contents s = cs \<and> plen s = P \<and> s_task s = s_task s1 \<and> s_cfg s = s_cfg s1 \<and>
    pset s = (if existed then good_pieces (mi_Pieces (dt_MetaInfo (s_task s1))) cs P else {}) \<and>
    s_activePieces s = [] \<and> s_heap s = []"
proof (cases existed)
  case True
  have perm: "mset (w_hashes w xs) = mset xs" for xs using w by (simp add: world_ok_def)
  obtain good bad b where c: "checkPieces (w_hashes w) (s_disk s1) fs (int (length cs)) (dt_MetaInfo (s_task s1)) =
      Ret (good, bad, b, None)" and g: "good = int (card (elems b))"
    and b: "wf_bitset b" "Len b = int (piece_count (length cs) P)"
      "elems b = good_pieces (mi_Pieces (dt_MetaInfo (s_task s1))) cs P"
    using checkPieces_eq [OF f(2,3) P perm r] by auto
  have "s = s1\<lparr>s_goodPieces := good, s_pieceSet := Some b, s_initedAt := Some (w_now w)\<rparr>"
    using s True by (simp add: f(1) n(1) c Let_def)
  then show ?thesis
    using client_ready [of s fs cs P b] f P n r b g e True by (simp add: pset_def)
next
  case False
  then obtain b where b: "NewBitset (s_totalPieces s1) = Some b"
    and s': "s = s1\<lparr>s_pieceSet := Some b, s_goodPieces := 0, s_initedAt := Some (w_now w)\<rparr>"
    using s by (auto simp: bind_eq_Some_conv)
  have "wf_bitset b" "Len b = int (piece_count (length cs) P)" "elems b = {}"
    using bs.new [of "s_totalPieces s1"] b n(2) by auto
  then show ?thesis
    using client_ready [of s fs cs P b] f P n r e False by (simp add: s' pset_def)
qed

lemma init_client:
  assumes "sess_Init w (NewTaskSession cfg d dt) = Some s" "\<not> c_Server cfg" "world_ok w"
    and "mi_PieceLen (dt_MetaInfo dt) = int P" "0 < P"
    and "length (mi_Pieces (dt_MetaInfo dt)) = piece_count (total_length (dt_MetaInfo dt)) P * sha1_Size"
    and "s_fileStore s = Some fs" "distinct (map fe_file (fs_files fs))"
  shows "sess_inv s \<and> s_activePieces s = [] \<and> s_heap s = [] \<and> sess_ref s = mi_Pieces (dt_MetaInfo dt) \<and>
    plen s = P \<and> length (sess_contents s) = total_length (dt_MetaInfo dt) \<and> s_cfg s = cfg"
proof -
  define sn where "sn = NewTaskSession cfg d dt"
  define s0 where "s0 = clientFiles cfg sn"
  define m where "m = dt_MetaInfo (s_task s0)"
  have c: "s_cfg sn = cfg" by (simp add: sn_def NewTaskSession_def)
  have s0: "s_fileStore s0 = None" "s_activePieces s0 = []" "s_heap s0 = []" "s_peers s0 = []" "s_cfg s0 = cfg"
    by (simp_all add: s0_def sn_def clientFiles_def NewTaskSession_def Let_def)
  have m: "mi_PieceLen m = int P" "mi_Pieces m = mi_Pieces (dt_MetaInfo dt)"
    "total_length m = total_length (dt_MetaInfo dt)"
    using assms(4)
    by (simp_all add: m_def s0_def sn_def clientFiles_def NewTaskSession_def Let_def total_length_def comp_def)
  have e: "initInClient w sn = Some s" using assms(1,2) c by (simp add: sess_Init_def sn_def [symmetric])
  then obtain s1 ok where i: "sess_init w s0 = Some (s1, ok)"
    unfolding initInClient_def Let_def c s0_def [symmetric] by (cases "sess_init w s0") auto
  note e1 = e [unfolded initInClient_def Let_def c s0_def [symmetric] i Option.bind.simps prod.case]
  have "s_fileStore s1 = Some fs"
  proof -
    have "s_fileStore s = s_fileStore s1"
      using e1 by (cases ok; cases "filesExisted w sn") (auto simp: bind_eq_Some_conv)
    then show ?thesis using assms(7) by simp
  qed
  then obtain d1 where ok: ok and pl: "plain_store d1 fs" and len: "length (contents d1 fs) = total_length m"
    and s1: "s1 = s0\<lparr>s_disk := d1, s_fileStore := Some fs, s_totalSize := int (length (contents d1 fs)),
      s_totalPieces := int (piece_count (length (contents d1 fs)) P),
      s_lastPieceLength := (if length (contents d1 fs) = 0 then int P
        else int (length (contents d1 fs) - (piece_count (length (contents d1 fs)) P - 1) * P))\<rparr>"
    using sess_init_ok [OF i s0(1) _ assms(8) m(1) [unfolded m_def] assms(5)] unfolding m_def by blast
  have f: "s_fileStore s1 = Some fs" "plain_store (s_disk s1) fs" "contents (s_disk s1) fs = contents d1 fs"
    "s_task s1 = s_task s0" "s_cfg s1 = cfg" "s_activePieces s1 = []" "s_heap s1 = []" "s_peers s1 = []"
    "s_totalSize s1 = int (length (contents d1 fs))"
    "s_totalPieces s1 = int (piece_count (length (contents d1 fs)) P)"
    "s_lastPieceLength s1 = (if length (contents d1 fs) = 0 then int P
        else int (length (contents d1 fs) - (piece_count (length (contents d1 fs)) P - 1) * P))"
    using pl by (simp_all add: s1 s0)
  have ms: "dt_MetaInfo (s_task s1) = m" by (simp add: f m_def)
  have l: "length (mi_Pieces (dt_MetaInfo (s_task s1))) = piece_count (length (contents d1 fs)) P * sha1_Size"
    using assms(6) len m by (simp add: ms)
  have "mi_PieceLen (dt_MetaInfo (s_task s1)) = int P" using m(1) ms by simp
  note fin = client_finish [OF _ assms(3) f(1-3) this assms(5) f(9-11) l f(6-8)]
  show ?thesis
    using fin [unfolded Let_def, of "filesExisted w sn" s] e1 ok f len m ms
    by (simp add: sess_ref_def)
qed

end
