(* ===== verification/SessionRequest.thy ===== *)
theory SessionRequest
  imports SessionProps
begin

text \<open>
  What a session asks a peer for, and how it answers a request: the effect of
  \<open>requestBlock\<close> on every branch, and the two ends of the exchange of one block.
\<close>

section \<open>What a session requests\<close>

definition block_len :: "session \<Rightarrow> int \<Rightarrow> int \<Rightarrow> int" where
  "block_len s k b =
     (if k = s_totalPieces s - 1 then min (s_lastPieceLength s - b * standardBlockLen) standardBlockLen
      else standardBlockLen)"

lemma requestBlockImp_eq:
  "requestBlockImp w s i k b =
     send_peer w s i (\<lambda>p. SendRequest p (w_now w) k (b * standardBlockLen) (block_len s k b))"
  by (simp add: requestBlockImp_def block_len_def Let_def min_def)

text \<open>One request for block \<open>b\<close> of piece \<open>k\<close> went to peer \<open>i\<close>, and nothing else to anybody.\<close>

definition requested :: "world \<Rightarrow> session \<Rightarrow> session \<Rightarrow> nat \<Rightarrow> int \<Rightarrow> int \<Rightarrow> bool" where
  "requested w s t i k b \<longleftrightarrow>
     s_heap t = (s_heap s)[i := SendRequest (peer_at s i) (w_now w) k (b * standardBlockLen) (block_len s k b)]"

definition wanted :: "session \<Rightarrow> nat \<Rightarrow> int \<Rightarrow> bool" where
  "wanted s i k \<longleftrightarrow> 0 \<le> k \<and> k < s_totalPieces s \<and> nat k \<notin> pset s \<and>
     (\<exists>hv. p_have (peer_at s i) = Some hv \<and> IsSet hv k = Some True)"

lemma requestBlock2_effect:
  assumes "requestBlock2 w s i k e = Some (t, err)" "sess_inv s"
  shows "core t = core s \<and> (\<exists>a. s_activePieces t = AList.update k a (s_activePieces s)) \<and>
    (err = Some Eof \<and> s_heap t = s_heap s \<or>
     err = None \<and> (\<exists>b. 0 \<le> b \<and> nat b < block_count (nat (sess_pieceLength s k)) \<and> requested w s t i k b))"
proof -
  obtain v where v: "map_of (s_activePieces s) k = Some v"
    using assms(1) by (auto simp: requestBlock2_def bind_eq_Some_conv)
  obtain v' b where c: "chooseBlockToDownload v e = (v', b)" by (cases "chooseBlockToDownload v e")
  have r: "(if b \<ge> 0 then do { s \<leftarrow> requestBlockImp w (set_active s k v') i k b; Some (s, None) }
      else Some (set_active s k v', Some Eof)) = Some (t, err)"
    using assms(1) by (simp add: requestBlock2_def v c Let_def)
  have ok: "active_ok s k v" using v assms(2) by (simp add: sess_inv_def active_inv_def)
  then have len: "length (ap_downloaderCount v) = block_count (nat (sess_pieceLength s k))"
    by (simp add: active_ok_def)
  show ?thesis
  proof (cases "b \<ge> 0")
    case True
    then obtain s1 where s1: "requestBlockImp w (set_active s k v') i k b = Some s1" and t: "t = s1" "err = None"
      using r by (auto simp: bind_eq_Some_conv)
    have "block_len (set_active s k v') k b = block_len s k b"
      by (simp add: block_len_def set_active_def)
    then have "requested w s s1 i k b"
      using s1 by (auto simp: requestBlockImp_eq send_peer_def requested_def upd_peer_def peer_at_def split: if_splits)
    moreover have "core s1 = core s" "s_activePieces s1 = AList.update k v' (s_activePieces s)"
      using requestBlockImp_core [OF s1] by simp_all
    moreover have "nat b < block_count (nat (sess_pieceLength s k))"
      using choose_keeps [OF c] ok len True by (auto simp: active_ok_def)
    ultimately show ?thesis using t True by blast
  next
    case False
    then show ?thesis using r by auto
  qed
qed

lemma tryActive_effect:
  assumes "tryActive w s i e ks err = Some (t, r)" "sess_inv s" "\<forall>k \<in> set ks. map_of (s_activePieces s) k \<noteq> None"
  shows "core t = core s \<and> sess_inv t \<and>
    ((\<exists>e'. r = Inr e') \<and> s_heap t = s_heap s \<or>
     r = Inl None \<and> (\<exists>k b. wanted s i k \<and> 0 \<le> b \<and> nat b < block_count (nat (sess_pieceLength s k)) \<and>
       requested w s t i k b))"
  using assms
proof (induction w s i e ks err arbitrary: r rule: tryActive.induct)
  case (2 w s i e k ks err)
  obtain hv b where h: "p_have (peer_at s i) = Some hv" "IsSet hv k = Some b"
    using "2.prems"(1) by (auto simp: bind_eq_Some_conv)
  show ?case
  proof (cases b)
    case True
    obtain s1 err1 where r1: "requestBlock2 w s i k e = Some (s1, err1)"
      and t: "(if err1 \<noteq> Some Eof then Some (s1, Inl err1) else tryActive w s1 i e ks err1) = Some (t, r)"
      using "2.prems"(1) h True by (auto simp: bind_eq_Some_conv)
    have i1: "sess_inv s1" using safe_requestBlock2 [OF r1] "2.prems"(2) by (simp add: safe_def)
    note eff = requestBlock2_effect [OF r1 "2.prems"(2)]
    have w: "wanted s i k"
    proof -
      obtain a where "map_of (s_activePieces s) k = Some a" using "2.prems"(3) by auto
      then have "active_ok s k a" using "2.prems"(2) by (simp add: sess_inv_def active_inv_def)
      then show ?thesis using h True by (simp add: wanted_def active_ok_def)
    qed
    show ?thesis
    proof (cases "err1 = Some Eof")
      case eof: True
      have dom: "\<forall>k \<in> set ks. map_of (s_activePieces s1) k \<noteq> None"
      proof
        fix x assume "x \<in> set ks"
        then have "map_of (s_activePieces s) x \<noteq> None" using "2.prems"(3) by simp
        moreover obtain a where "s_activePieces s1 = AList.update k a (s_activePieces s)" using eff by blast
        ultimately show "map_of (s_activePieces s1) x \<noteq> None"
          by (auto simp: update_conv' simp del: not_None_eq map_of_eq_None_iff)
      qed
      have hs: "s_heap s1 = s_heap s" and c1: "core s1 = core s" using eff eof by auto
      have "tryActive w s1 i e ks err1 = Some (t, r)" using t eof by simp
      note ih = "2.IH"(1) [OF h True r1 refl _ this i1 dom]
      have "core t = core s1 \<and> sess_inv t \<and>
        ((\<exists>e'. r = Inr e') \<and> s_heap t = s_heap s1 \<or>
         r = Inl None \<and> (\<exists>k b. wanted s1 i k \<and> 0 \<le> b \<and> nat b < block_count (nat (sess_pieceLength s1 k)) \<and>
           requested w s1 t i k b))"
        using ih eof by simp
      moreover have "wanted s1 = wanted s" "requested w s1 t i = requested w s t i"
        "sess_pieceLength s1 = sess_pieceLength s"
        using c1 core_views(3,4,5) [OF c1]
        by (auto simp: fun_eq_iff wanted_def requested_def hs peer_at_def block_len_def sess_pieceLength_def core_def)
      ultimately show ?thesis using c1 hs by simp
    next
      case False
      then have "err1 = None" "t = s1" "r = Inl None" using t eff by auto
      then show ?thesis using eff w i1 by auto
    qed
  next
    case False
    then have "tryActive w s i e ks err = Some (t, r)" using "2.prems"(1) h by simp
    then show ?thesis using "2.IH"(2) [OF h False] "2.prems"(2,3) by simp
  qed
qed auto

lemma requestBlock_effect:
  assumes "requestBlock w call s i = Some (t, err)" "sess_inv s" "world_ok w"
  shows "core t = core s \<and> sess_inv t \<and>
    (s_heap t = s_heap s \<or>
     (\<exists>k b. wanted s i k \<and> 0 \<le> b \<and> nat b < block_count (nat (sess_pieceLength s k)) \<and>
       requested w s t i k b))"
proof -
  have keys: "set (w_keys w n xs) = set xs" for n xs
    using assms(3) by (metis world_ok_def set_mset_mset)
  have dom: "\<forall>k \<in> set (w_keys w n (map fst (s_activePieces s'))). map_of (s_activePieces s') k \<noteq> None" for n s'
    by (auto simp: keys map_of_eq_None_iff)
  obtain s1 r where a: "tryActive w s i False (w_keys w (2 * call) (map fst (s_activePieces s))) None = Some (s1, r)"
    and rest: "(case r of Inl err \<Rightarrow> Some (s1, err)
      | Inr err \<Rightarrow> do {
         piece \<leftarrow> choosePiece w call s1 i;
         if piece < 0 then do {
           (s, r) \<leftarrow> tryActive w s1 i True (w_keys w (2 * call + 1) (map fst (s_activePieces s1))) err;
           Some (s, case r of Inl e \<Rightarrow> e | Inr e \<Rightarrow> e)
         } else do {
           a \<leftarrow> NewActivePiece (sess_pieceLength s1 piece);
           requestBlock2 w (set_active s1 piece a) i piece False
         }}) = Some (t, err)"
    using assms(1) by (auto simp: requestBlock_def bind_eq_Some_conv)
  note e1 = tryActive_effect [OF a assms(2) dom]
  show ?thesis
  proof (cases r)
    case (Inl e)
    then show ?thesis using rest e1 by auto
  next
    case (Inr e)
    then have h1: "s_heap s1 = s_heap s" and c1: "core s1 = core s" and i1: "sess_inv s1" using e1 by auto
    have same: "wanted s1 = wanted s" "requested w s1 t i = requested w s t i"
      "sess_pieceLength s1 = sess_pieceLength s"
      using c1 core_views(3,4,5) [OF c1]
      by (auto simp: fun_eq_iff wanted_def requested_def h1 peer_at_def block_len_def sess_pieceLength_def core_def)
    obtain piece where p: "choosePiece w call s1 i = Some piece" using rest Inr by (auto simp: bind_eq_Some_conv)
    show ?thesis
    proof (cases "piece < 0")
      case True
      then obtain r2 where a2: "tryActive w s1 i True (w_keys w (2 * call + 1) (map fst (s_activePieces s1))) e = Some (t, r2)"
        using rest Inr p by (auto simp: bind_eq_Some_conv)
      from tryActive_effect [OF a2 i1 dom] show ?thesis using h1 c1 same by auto
    next
      case False
      then obtain a where a: "NewActivePiece (sess_pieceLength s1 piece) = Some a"
        and r2: "requestBlock2 w (set_active s1 piece a) i piece False = Some (t, err)"
        using rest Inr p by (auto simp: bind_eq_Some_conv)
      obtain hv b where b: "p_have (peer_at s1 i) = Some hv" "s_pieceSet s1 = Some b" "piece < bs_n b"
          "IsSet b piece = Some False" "IsSet hv piece = Some True"
        using choosePiece_SomeD [OF p] False by auto
      have st: "store_inv s1" using i1 by (simp add: sess_inv_def)
      have np: "nat piece \<notin> pset s1" using pset_notin [OF st b(2,4)] b(3) False by simp
      have pl: "piece < s_totalPieces s1" using st b(2,3) by (auto simp: store_inv_def Len_def)
      have ok: "active_ok s1 piece a" using new_active_ok [OF st a _ pl np] False by simp
      let ?s2 = "set_active s1 piece a"
      have i2: "sess_inv ?s2" using safe_set_active [of s1 piece a] ok i1 by (simp add: safe_def)
      have c2: "core ?s2 = core s1" "s_heap ?s2 = s_heap s1" by simp_all
      have same2: "wanted ?s2 = wanted s1" "requested w ?s2 t i = requested w s1 t i"
        "sess_pieceLength ?s2 = sess_pieceLength s1"
        using c2 core_views(3,4,5) [OF c2(1)]
        by (auto simp: fun_eq_iff wanted_def requested_def peer_at_def block_len_def sess_pieceLength_def core_def)
      have w: "wanted s1 i piece" using b np pl False by (simp add: wanted_def)
      show ?thesis
        using requestBlock2_effect [OF r2 i2] safe_requestBlock2 [OF r2] i2 w same same2 c1 c2 h1
        by (auto simp: safe_def)
    qed
  qed
qed

lemma block_start: "b < block_count n \<longleftrightarrow> int b * standardBlockLen < int n"
proof -
  have s: "int (nat standardBlockLen) = standardBlockLen" by (simp add: standardBlockLen_def)
  have "b < block_count n \<longleftrightarrow> b * nat standardBlockLen < n"
    unfolding block_count_def by (rule piece_count_less) (simp add: standardBlockLen_def)
  also have "\<dots> \<longleftrightarrow> int b * standardBlockLen < int n" using s by (metis of_nat_less_iff of_nat_mult)
  finally show ?thesis .
qed

lemma block_len_fits:
  assumes "store_inv s" "0 \<le> b" "nat b < block_count (nat (sess_pieceLength s k))" "k < s_totalPieces s"
    and "standardBlockLen dvd pieceLen s"
  shows "0 < block_len s k b \<and> block_len s k b \<le> standardBlockLen \<and>
    b * standardBlockLen + block_len s k b \<le> sess_pieceLength s k"
proof -
  have pos: "0 < sess_pieceLength s k"
    using assms(1) lastPieceLength_pos [OF assms(1)] by (simp add: sess_pieceLength_def store_inv_def)
  have lt: "b * standardBlockLen < sess_pieceLength s k"
    using assms(2,3) pos block_start [of "nat b" "nat (sess_pieceLength s k)"] by simp
  show ?thesis
  proof (cases "k = s_totalPieces s - 1")
    case True
    then have "sess_pieceLength s k = s_lastPieceLength s" by (simp add: sess_pieceLength_def)
    then show ?thesis using lt True by (simp add: block_len_def)
  next
    case False
    then have pl: "sess_pieceLength s k = pieceLen s" using assms(4) by (simp add: sess_pieceLength_def)
    obtain q where q: "pieceLen s = standardBlockLen * q" using assms(5) by (elim dvdE)
    have "b < q" using lt unfolding pl q by (simp add: mult.commute)
    then have "standardBlockLen * (b + 1) \<le> standardBlockLen * q" by (intro mult_left_mono) (simp_all add: standardBlockLen_def)
    then show ?thesis using False pl q by (simp add: block_len_def algebra_simps)
  qed
qed

section \<open>Serving and receiving a block\<close>

lemma msg_u32_request:
  "msg_u32 (request_msg k b l) 1 = Some (word_of_int k)"
  "msg_u32 (request_msg k b l) 5 = Some (word_of_int b)"
  "msg_u32 (request_msg k b l) 9 = Some (word_of_int l)"
  "length (request_msg k b l) = 13"
proof -
  have t: "take 4 (be32 x @ r) = be32 x" for x r by simp
  have d: "drop 5 (m # be32 x @ r) = r" "drop 9 (m # be32 x @ be32 y @ r) = r" for m x y r
    by (simp_all add: be32_def)
  have b: "bytesToUint32 (be32 x) = Some x" for x using bytesToUint32_be32 [of x "[]"] by simp
  show "msg_u32 (request_msg k b l) 1 = Some (word_of_int k)"
    "msg_u32 (request_msg k b l) 5 = Some (word_of_int b)"
    "msg_u32 (request_msg k b l) 9 = Some (word_of_int l)"
    "length (request_msg k b l) = 13"
    by (simp_all add: request_msg_def msg_u32_def t d b)
qed

lemma msg_u32_piece:
  "msg_u32 (piece_msg k b data) 1 = Some k"
  "msg_u32 (piece_msg k b data) 5 = Some b"
  "drop 9 (piece_msg k b data) = data" "length (piece_msg k b data) = 9 + length data"
proof -
  have d: "drop 5 (m # be32 x @ r) = r" "drop 9 (m # be32 x @ be32 y @ r) = r" for m x y r
    by (simp_all add: be32_def)
  show "msg_u32 (piece_msg k b data) 1 = Some k" "msg_u32 (piece_msg k b data) 5 = Some b"
    "drop 9 (piece_msg k b data) = data" "length (piece_msg k b data) = 9 + length data"
    using bytesToUint32_be32 [of k "[]"] bytesToUint32_be32 [of b "[]"]
    by (simp_all add: piece_msg_def msg_u32_def d)
qed

lemma word_index_in_range:
  fixes n :: int
  assumes "n < 2 ^ 32" "0 \<le> k" "k < n"
  shows "\<not> (word_of_int k :: u32) \<ge> word_of_int n" "uint (word_of_int k :: u32) = k"
    "unat (word_of_int k :: u32) = nat k"
proof -
  show u: "uint (word_of_int k :: u32) = k"
    using assms by (simp add: uint_word_of_int_eq take_bit_int_eq_self)
  have "uint (word_of_int n :: u32) = n" using assms by (simp add: uint_word_of_int_eq take_bit_int_eq_self)
  then show "\<not> (word_of_int k :: u32) \<ge> word_of_int n" using u assms by (simp add: word_le_def)
  show "unat (word_of_int k :: u32) = nat k" using u by (simp add: unat_eq_nat_uint)
qed

text \<open>A request in range is decoded to what it asks for when the node has verified the piece.\<close>

lemma decode_request:
  assumes "sess_inv s" "i < length (s_heap s)" "p_have (peer_at s i) = Some hv"
    and "s_totalPieces s < 2 ^ 32" "pieceLen s < 2 ^ 32"
    and "0 \<le> k" "k < s_totalPieces s" "0 \<le> b" "b < pieceLen s" "0 \<le> l" "b + l \<le> pieceLen s"
  shows "decodeRequest s i (request_msg k b l) =
    Some (if nat k \<in> pset s then Inr (word_of_int k, word_of_int b, word_of_int l) else Inl No_Such_Piece)"
proof -
  obtain pb where pb: "s_pieceSet s = Some pb" "wf_bitset pb" "Len pb = int (npieces s)"
    using assms(1) by (auto simp: sess_inv_def store_inv_def)
  have tp: "s_totalPieces s = int (npieces s)" using assms(1) unfolding sess_inv_def store_inv_def by blast
  have "peer_ok (s_totalPieces s) (peer_at s i)"
    using assms(1,2) by (simp add: sess_inv_def peers_inv_def peer_at_def)
  then have n: "bs_n hv = s_totalPieces s" using assms(3) by (simp add: peer_ok_def Len_def)
  note wk = word_index_in_range [OF assms(4,6,7)]
  have "int (nat k) < Len pb" using assms(6,7) tp pb(3) by simp
  then have mem: "IsSet pb k = Some (nat k \<in> pset s)"
    using bs.member [OF pb(2), of "nat k"] assms(6) pb(1) by (simp add: pset_def)
  have ub: "uint (word_of_int b :: u32) = b" "uint (word_of_int l :: u32) = l"
    using assms by (simp_all add: uint_word_of_int_eq take_bit_int_eq_self)
  show ?thesis
    using wk(1) assms by (simp add: decodeRequest_def msg_u32_request [unfolded One_nat_def] n pb(1) wk(2) mem ub)
qed

text \<open>A request inside a piece the node has is answered with exactly its bytes.\<close>

lemma serve_request:
  assumes "sess_inv s" "i < length (s_heap s)" "p_have (peer_at s i) = Some hv"
    and "s_totalPieces s < 2 ^ 32" "pieceLen s + 9 < 2 ^ 32" "w_writes w i"
    and "nat k \<in> pset s" "0 \<le> k" "0 \<le> b" "b < pieceLen s" "0 \<le> l" "b + l \<le> pieceLen s"
  shows "handleRequest w s i (request_msg k b l) =
    Some (upd_peer s i (\<lambda>p. sendMessage p (piece_msg (word_of_int k) (word_of_int b)
      (read_padded (sess_contents s) (nat k * plen s + nat b) (nat l)))), None)"
proof -
  have st: "store_inv s" using assms(1) by (simp add: sess_inv_def)
  have np: "nat k < npieces s" using st assms(7) by (auto simp: store_inv_def good_pieces_def)
  have tp: "s_totalPieces s = int (npieces s)" using st unfolding store_inv_def by blast
  have k: "k < s_totalPieces s" using np tp assms(8) by linarith
  note wk = word_index_in_range [OF assms(4,8) k]
  have ub: "uint (word_of_int b :: u32) = b" "uint (word_of_int l :: u32) = l"
    using assms by (simp_all add: uint_word_of_int_eq take_bit_int_eq_self)
  have dec: "decodeRequest s i (request_msg k b l) = Some (Inr (word_of_int k, word_of_int b, word_of_int l))"
    using decode_request [OF assms(1-4) _ assms(8) k assms(9-12)] assms(5,7) by simp
  have len: "unat (word_of_int l + 9 :: u32) = nat l + 9"
  proof -
    have "word_of_int l + 9 = (word_of_int (l + 9) :: u32)" by simp
    moreover have "uint (word_of_int (l + 9) :: u32) = l + 9"
      using assms by (simp only: uint_word_of_int_eq) (simp add: take_bit_int_eq_self)
    ultimately show ?thesis using assms(11) by (simp add: unat_eq_nat_uint nat_add_distrib)
  qed
  obtain fs where fs: "s_fileStore s = Some fs" "plain_store (s_disk s) fs" using st by (auto simp: store_inv_def)
  have c: "contents (s_disk s) fs = sess_contents s" using fs by (simp add: sess_contents_def)
  have off: "k * pieceLen s + b = int (nat k * plen s + nat b)"
    using assms(8,9) st by (simp add: store_inv_def)
  have rd: "fs_ReadAt (s_disk s) fs (replicate (nat l) 0) (k * pieceLen s + b) =
      Ret (read_padded (sess_contents s) (nat k * plen s + nat b) (nat l),
        int (min (nat l) (length (sess_contents s) - (nat k * plen s + nat b))), None)"
    using store.rd_eq [of "(s_disk s, fs)" "replicate (nat l) 0" "nat k * plen s + nat b"] fs(2) c
    unfolding off by (simp add: fs_ReadAt_def st_read_def plain_store_def)
  show ?thesis
    by (simp add: handleRequest_def dec sendPiece_def len fs(1) wk(2) ub rd send_peer_def assms(6))
qed

text \<open>Every other message of the kind REQUEST is refused: nothing is sent and nothing changes.\<close>

lemma refuse_request:
  assumes "handleRequest w s i message = Some (t, Some err)" "sess_inv s"
  shows "t = s"
proof -
  obtain r where r: "decodeRequest s i message = Some r"
    using assms by (auto simp: handleRequest_def bind_eq_Some_conv)
  have sp: "t = s" if "sendPiece w s i index bgn len = Some (t, Some err)" for index bgn len
    using that by (auto simp: sendPiece_def Let_def bind_eq_Some_conv split: if_splits option.splits)
  show ?thesis using assms r sp by (cases r) (auto simp: handleRequest_def)
qed

end
