(* ===== verification/SessionData.thy ===== *)
theory SessionData
  imports SessionRequest
begin

text \<open>
  Where the bytes of a message go: the only handler that writes files is \<open>handlePiece\<close>, it
  writes inside one piece that is not verified yet, and no verified piece is ever lost.
\<close>

section \<open>Where the bytes of a message go\<close>

definition stored :: "session \<Rightarrow> disk \<times> file_store option" where
  "stored s = (s_disk s, s_fileStore s)"

lemma stored_core: "core t = core s \<Longrightarrow> stored t = stored s"
  by (simp add: core_def stored_def)

lemma contents_stored: "stored t = stored s \<Longrightarrow> sess_contents t = sess_contents s"
  by (simp add: stored_def sess_contents_def cong: option.case_cong)

lemma broadcastHave_core: "broadcastHave w s piece is = Some t \<Longrightarrow> core t = core s"
proof (induction "is" arbitrary: s)
  case (Cons i "is")
  then show ?case
    by (auto simp: bind_eq_Some_conv split: option.splits if_splits dest!: send_peer_core)
qed simp

lemma reportStatus_core: "sess_reportStatus s x = Some t \<Longrightarrow> core t = core s"
  by (auto simp: sess_reportStatus_def bind_eq_Some_conv core_def)

lemma progress_core: "progress w s = Some t \<Longrightarrow> core t = core s"
  by (auto simp: progress_def Let_def bind_eq_Some_conv sess_deploy_def core_def sess_reportStatus_def
      split: if_splits)

lemma finishPiece_stored:
  assumes "finishPiece w s i piece = Some t" "s_fileStore s = Some fs" "fs_cache fs = None"
  shows "stored t = stored s"
proof -
  let ?s = "s\<lparr>s_activePieces := AList.delete (uint piece) (s_activePieces s)\<rparr>"
  have cm: "fs_Commit d fs k p off = Ret (d, fs)" for d k p off using assms(3) by (simp add: fs_Commit_def)
  obtain good bytes err where chk: "returns (checkPiece (s_disk s) fs (s_totalSize s)
      (dt_MetaInfo (s_task s)) (uint piece)) = Some (good, bytes, err)"
    using assms(1,2) by (auto simp: finishPiece_def Let_def bind_eq_Some_conv)
  show ?thesis
  proof (cases "\<not> good \<or> err \<noteq> None")
    case True
    then have "do { s \<leftarrow> sess_reportStatus ?s (-1); Some (upd_peer s i peerClose) } = Some t"
      using assms(1) by (simp add: finishPiece_def Let_def assms(2) chk)
    then obtain s1 where "sess_reportStatus ?s (-1) = Some s1" "t = upd_peer s1 i peerClose"
      by (auto simp: bind_eq_Some_conv)
    then show ?thesis using reportStatus_core [of ?s] by (auto simp: stored_def core_def upd_peer_def)
  next
    case False
    then obtain b s1 where "progress w (?s\<lparr>s_fileStore := Some fs, s_pieceSet := Some b,
         s_goodPieces := s_goodPieces s + 1\<rparr>) = Some s1"
      and "broadcastHave w s1 piece (w_ids w (map snd (s_peers s1))) = Some t"
      using assms(1) by (auto simp: finishPiece_def Let_def assms(2) chk cm bind_eq_Some_conv)
    then have "core t = core (?s\<lparr>s_fileStore := Some fs, s_pieceSet := Some b,
         s_goodPieces := s_goodPieces s + 1\<rparr>)"
      using progress_core broadcastHave_core by metis
    then show ?thesis using assms(2) by (simp add: stored_def core_def)
  qed
qed

lemma recordBlock_stored:
  assumes "sess_recordBlock w s i piece begin len = Some t" "s_fileStore s = Some fs" "fs_cache fs = None"
  shows "stored t = stored s"
proof -
  define s1 where "s1 = upd_peer s i (\<lambda>p. p\<lparr>p_ourRequests :=
       AList.delete (requestIndex (uint piece) (uint begin)) (p_ourRequests p)\<rparr>)"
  have c: "stored s1 = stored s" by (simp add: s1_def stored_def upd_peer_def)
  have e: "(case map_of (s_activePieces s1) (uint piece) of
       None \<Rightarrow> Some s1
     | Some v \<Rightarrow> do {
         (v, _) \<leftarrow> ap_recordBlock v (uint begin div standardBlockLen);
         if \<not> isComplete v then Some ((set_active s1 (uint piece) v)\<lparr>s_downloaded := s_downloaded s1 + ucast len\<rparr>)
         else finishPiece w ((set_active s1 (uint piece) v)\<lparr>s_downloaded := s_downloaded s1 + ucast len\<rparr>) i piece
       }) = Some t"
    using assms unfolding sess_recordBlock_def Let_def s1_def by blast
  show ?thesis
  proof (cases "map_of (s_activePieces s1) (uint piece)")
    case (Some v)
    then obtain v' c' where "ap_recordBlock v (uint begin div standardBlockLen) = Some (v', c')"
      using e by (cases "ap_recordBlock v (uint begin div standardBlockLen)") auto
    note e' = e [unfolded Some this option.case Option.bind.simps prod.case]
    let ?s3 = "(set_active s1 (uint piece) v')\<lparr>s_downloaded := s_downloaded s1 + ucast len\<rparr>"
    have s3: "stored ?s3 = stored s1" "s_fileStore ?s3 = Some fs"
      using c assms(2) by (simp_all add: stored_def set_active_def)
    then have "stored t = stored s1"
      using e' finishPiece_stored [OF _ s3(2) assms(3)] by (cases "isComplete v'") auto
    then show ?thesis using c by simp
  qed (use e c in simp)
qed

lemma decodePiece_index:
  assumes "decodePiece s i message = Some (Inr (index, begin, len))"
  shows "msg_u32 message 1 = Some index" "msg_u32 message 5 = Some begin"
proof (atomize (full), cases "length message < 9")
  case False
  then obtain index' begin' hv where "msg_u32 message 1 = Some index'" "msg_u32 message 5 = Some begin'"
    "p_have (peer_at s i) = Some hv"
    using assms by (auto simp: decodePiece_def Let_def bind_eq_Some_conv)
  then show "msg_u32 message 1 = Some index \<and> msg_u32 message 5 = Some begin"
    using assms False by (simp add: decodePiece_def Let_def split: if_splits)
qed (use assms in \<open>simp add: decodePiece_def\<close>)

text \<open>The state right after the write of a PIECE message, and what follows it.\<close>

lemma piece_written:
  assumes "handlePiece w s i message = Some (t, err)" "sess_inv s" "i < length (s_heap s)"
    and "length message \<le> maxBlockLen" "world_ok w" "msg_u32 message 1 = Some index"
  shows "sess_contents t = sess_contents s \<and> (unat index \<in> pset s \<or> (\<exists>e. decodePiece s i message = Some (Inl e))) \<or>
    unat index \<notin> pset s \<and>
    (\<exists>bgn fs d' fs' n err1. msg_u32 message 5 = Some bgn \<and> unat bgn + length (drop 9 message) \<le> plen s \<and>
      s_fileStore s = Some fs \<and> fs_WriteAt (w_srt w) (w_clk w) (s_disk s) fs (drop 9 message)
        (int (unat index * plen s + unat bgn)) = Ret (d', fs', n, err1) \<and>
      sess_contents t = contents d' fs')"
proof -
  obtain r where r: "decodePiece s i message = Some r"
    using assms(1) by (auto simp: handlePiece_def bind_eq_Some_conv)
  show ?thesis
  proof (cases r)
    case (Inl e)
    then show ?thesis using assms(1) r by (simp add: handlePiece_def)
  next
    case (Inr ibl)
    obtain index' bgn len where ibl: "ibl = (index', bgn, len)" by (cases ibl)
    have ix: "index' = index"
      using decodePiece_index(1) [OF r [unfolded Inr ibl]] assms(6) by simp
    note d = decodePiece_InrD [OF r [unfolded Inr ibl ix] assms(2-4)]
    obtain b where b: "s_pieceSet s = Some b" "wf_bitset b" "Len b = int (npieces s)"
      using assms(2) by (auto simp: sess_inv_def store_inv_def)
    have "int (unat index) < Len b" using d b(3) by (simp only: of_nat_less_iff)
    then have mem: "IsSet b (uint index) = Some (unat index \<in> pset s)"
      using bs.member [OF b(2), of "unat index"] b(1) by (simp add: pset_def)
    obtain fs where fs: "s_fileStore s = Some fs" "fs_cache fs = None"
      using assms(2) by (auto simp: sess_inv_def store_inv_def plain_store_def)
    have off: "uint index * pieceLen s + uint bgn = int (unat index * plen s + unat bgn)"
      using assms(2) by (simp add: sess_inv_def store_inv_def)
    define wr where "wr = fs_WriteAt (w_srt w) (w_clk w) (s_disk s) fs (drop 9 message)
        (int (unat index * plen s + unat bgn))"
    have e: "(if unat index \<in> pset s
         then do { (s, _) \<leftarrow> requestBlock w 0 s i; Some (s, None) }
         else do {
           (d, fs, _, err) \<leftarrow> returns wr;
           case err of
             Some e \<Rightarrow> Some (s\<lparr>s_disk := d, s_fileStore := Some fs\<rparr>, Some (Store_Error e))
           | None \<Rightarrow> do {
               s \<leftarrow> sess_recordBlock w (s\<lparr>s_disk := d, s_fileStore := Some fs\<rparr>) i index bgn len;
               (s, _) \<leftarrow> requestBlock w 0 s i;
               Some (s, None)
             }
         }) = Some (t, err)"
      using assms(1) unfolding handlePiece_def r Inr ibl ix Let_def wr_def
      by (simp only: Option.bind.simps sum.case prod.case b(1) mem fs off)
    show ?thesis
    proof (cases "unat index \<in> pset s")
      case True
      then have "do { (s, _) \<leftarrow> requestBlock w 0 s i; Some (s, None :: sess_error option) } = Some (t, err)"
        using e by simp
      then obtain e2 where rb: "requestBlock w 0 s i = Some (t, e2)"
        by (auto simp: bind_eq_Some_conv)
      have "core t = core s" by (rule requestBlock_effect [OF rb assms(2,5), THEN conjunct1])
      then show ?thesis using True core_views(1) [of t s] by blast
    next
      case False
      obtain d' fs' n err1 where wr: "wr = Ret (d', fs', n, err1)"
        using e False by (cases wr) auto
      let ?s1 = "s\<lparr>s_disk := d', s_fileStore := Some fs'\<rparr>"
      have t: "(case err1 of
             Some e \<Rightarrow> Some (?s1, Some (Store_Error e))
           | None \<Rightarrow> do {
               s \<leftarrow> sess_recordBlock w ?s1 i index bgn len;
               (s, _) \<leftarrow> requestBlock w 0 s i;
               Some (s, None)
             }) = Some (t, err)"
        using e False unfolding wr by (simp only: if_False returns.simps Option.bind.simps prod.case)
      have le: "unat bgn + length (drop 9 message) \<le> plen s" using d by blast
      note ws = write_safe [OF assms(2) fs(1) False le wr [unfolded wr_def]]
      have c': "fs_cache fs' = None"
        using wr fs(2) by (auto simp: wr_def fs_WriteAt_def split: prod.splits)
      have "stored t = stored ?s1"
      proof (cases err1)
        case None
        then obtain s2 e2 where s2: "sess_recordBlock w ?s1 i index bgn len = Some s2"
            and t: "requestBlock w 0 s2 i = Some (t, e2)"
          using t by (auto simp: bind_eq_Some_conv)
        have i2: "sess_inv s2" using safe_trans [OF ws(1) safe_recordBlock [OF s2]] assms(2) by (simp add: safe_def)
        have "core t = core s2" by (rule requestBlock_effect [OF t i2 assms(5), THEN conjunct1])
        then show ?thesis using stored_core [of t s2] recordBlock_stored [OF s2 _ c'] by simp
      qed (use t in simp)
      then have "sess_contents t = sess_contents ?s1" by (rule contents_stored)
      then have "sess_contents t = contents d' fs'" by (simp add: sess_contents_def)
      then show ?thesis
        using False le fs(1) wr [unfolded wr_def] decodePiece_index(2) [OF r [unfolded Inr ibl]] by blast
    qed
  qed
qed

lemma piece_frame:
  assumes "handlePiece w s i message = Some (t, err)" "sess_inv s" "i < length (s_heap s)"
    and "length message \<le> maxBlockLen" "world_ok w" "msg_u32 message 1 = Some index" "j \<noteq> unat index"
  shows "piece_bytes (sess_contents t) (plen s) j = piece_bytes (sess_contents s) (plen s) j"
  using piece_written [OF assms(1-6)] write_safe(2) [OF assms(2)] assms(7) by fastforce

section \<open>Properties\<close>

text \<open>C1: A client that opens its files and starts a task never trusts unverified bytes: in every
  state it can reach, whatever its peers send and in whatever order, each piece of its piece map
  has the SHA-1 sum the metadata names, the count of good pieces is the number of these
  pieces, no verified piece is ever lost or rewritten, and a session that counts all pieces has
  files whose sums are exactly those of the metadata.\<close>

theorem client_run_correct:
  assumes "sess_Init w (NewTaskSession cfg d dt) = Some s" "\<not> c_Server cfg" "world_ok w"
    and "mi_PieceLen (dt_MetaInfo dt) = int P" "0 < P"
    and "length (mi_Pieces (dt_MetaInfo dt)) = piece_count (total_length (dt_MetaInfo dt)) P * sha1_Size"
    and "s_fileStore s = Some fs" "distinct (map fe_file (fs_files fs))"
    and "sess_runs s t"
  shows "(\<forall>i \<in> pset t. window (mi_Pieces (dt_MetaInfo dt)) (i * sha1_Size) sha1_Size =
      sha1 (window (sess_contents t) (i * P) P)) \<and>
    s_goodPieces t = int (card (pset t)) \<and> pset s \<subseteq> pset t \<and>
    (\<forall>i \<in> pset s. window (sess_contents t) (i * P) P = window (sess_contents s) (i * P) P) \<and>
    length (sess_contents t) = total_length (dt_MetaInfo dt) \<and>
    (s_goodPieces t = s_totalPieces t \<longrightarrow> piece_sums (sess_contents t) P = mi_Pieces (dt_MetaInfo dt))"
proof -
  note init = init_client [OF assms(1-8)]
  have inv: "sess_inv t" and gr: "sess_grows s t" using sess.runs_inv [OF assms(9)] init by blast+
  have pl: "plen t = P" using gr init grows_pieceLen [OF gr] by simp
  have rf: "sess_ref t = mi_Pieces (dt_MetaInfo dt)" using gr init by (simp add: sess_grows_def sess_ref_def)
  have len: "length (sess_contents t) = total_length (dt_MetaInfo dt)" using gr init by (simp add: sess_grows_def)
  have st: "store_inv t" using inv by (simp add: sess_inv_def)
  have good: "pset t \<subseteq> good_pieces (mi_Pieces (dt_MetaInfo dt)) (sess_contents t) P"
    using st unfolding store_inv_def pl rf by blast
  have full: "piece_sums (sess_contents t) P = mi_Pieces (dt_MetaInfo dt)"
    if "s_goodPieces t = s_totalPieces t"
  proof -
    let ?n = "piece_count (length (sess_contents t)) P"
    have "card (pset t) = ?n" using that st unfolding store_inv_def pl by (metis of_nat_eq_iff)
    moreover have "pset t \<subseteq> {0..<?n}" using good by (auto simp: good_pieces_def)
    ultimately have "pset t = {0..<?n}" by (intro card_subset_eq) simp_all
    then have "\<forall>i < ?n. window (mi_Pieces (dt_MetaInfo dt)) (i * sha1_Size) sha1_Size =
        map (\<lambda>i. sha1 (piece_bytes (sess_contents t) P i)) [0..<?n] ! i"
      using good by (auto simp: good_pieces_def)
    then show ?thesis
      unfolding piece_sums_def using assms(6) len
      by (intro windows_concat [symmetric, of _ ?n sha1_Size]) simp_all
  qed
  have "\<forall>i \<in> pset s. window (sess_contents t) (i * P) P = window (sess_contents s) (i * P) P"
    using gr init by (simp add: sess_grows_def piece_bytes_def)
  moreover have "pset s \<subseteq> pset t" using gr by (simp add: sess_grows_def)
  moreover have "s_goodPieces t = int (card (pset t))" using st unfolding store_inv_def by blast
  ultimately show ?thesis using good full len by (auto simp: good_pieces_def piece_bytes_def)
qed

definition ex_cfg :: config where
  "ex_cfg = zero_config\<lparr>c_DownDir := ''/d''\<rparr>"

definition ex_task :: dispatch_task where
  "ex_task = \<lparr>dt_TaskID = ''t'', dt_FileType = 0, dt_GID = 0, dt_Version = 0, dt_StorageDir = [],
     dt_MetaInfo = \<lparr>mi_Length = 3, mi_PieceLen = 2, mi_Pieces = replicate 40 0,
       mi_Files = [\<lparr>fd_Length = 3, fd_Path = ''/s'', fd_Name = ''f'', fd_Sum = []\<rparr>]\<rparr>,
     dt_LinkChain = Some \<lparr>lc_DispatchAddrs = [''s:1'', ''c:2''], lc_ServerAddr = ''s:0''\<rparr>,
     dt_Speed = 1\<rparr>"

definition ex_world :: world where
  "ex_world = \<lparr>w_now = 7, w_intn = \<lambda>_ _. 0, w_keys = \<lambda>_ xs. xs, w_ids = \<lambda>xs. xs,
     w_writes = \<lambda>_. True, w_dial = \<lambda>_. Connected ''s:1'', w_exists = \<lambda>_. False,
     w_fs = \<lparr>fe_cwd = Some ''/'', fe_mkdirAll = \<lambda>_. True, fe_statFails = \<lambda>_. False,
       fe_create = \<lambda>_. True, fe_truncate = \<lambda>_. True\<rparr>,
     w_srt = \<lambda>xs. xs, w_clk = \<lambda>_. 0, w_hashes = \<lambda>xs. xs\<rparr>"

lemma ex_world_ok: "world_ok ex_world"
  by (simp add: world_ok_def ex_world_def)

definition ex_file_store :: file_store where
  "ex_file_store = \<lparr>fs_offsets = [0], fs_files = [\<lparr>fe_length = 3, fe_file = ''/d/f''\<rparr>], fs_cache = None\<rparr>"

lemma ex_open:
  "osFs_Open (w_fs ex_world) Map.empty [''/d'', ''f''] 3 = Some ([''/d/f'' \<mapsto> [0, 0, 0]], Inr ''/d/f'')"
  by (simp add: osFs_Open_def ex_world_def path_Join_def path_Clean_def path_IsAbs_def ensureDirectory_def
      ensureExists_def path_Split_def truncate_to_def pad_to_def Let_def dot_def dotdot_def numeral_3_eq_3)

lemma ex_init:
  "sess_Init ex_world (NewTaskSession ex_cfg Map.empty ex_task) =
    Some ((clientFiles ex_cfg (NewTaskSession ex_cfg Map.empty ex_task))\<lparr>s_disk := [''/d/f'' \<mapsto> [0, 0, 0]],
      s_fileStore := Some ex_file_store, s_totalSize := 3, s_totalPieces := 2, s_lastPieceLength := 1,
      s_pieceSet := Some (fresh_bitset 2), s_goodPieces := 0, s_initedAt := Some 7\<rparr>)"
proof -
  have c: "countPieces 3 2 = Some (2, 1)" using countPieces_eq [of 2 3] by (simp add: piece_count_def)
  have b: "NewBitset 2 = Some (fresh_bitset 2)" using NewBitset_nat [of 2] by simp
  show ?thesis
    by (simp add: sess_Init_def initInClient_def sess_init_def clientFiles_def NewTaskSession_def
        ex_cfg_def ex_task_def zero_config_def NewFileStore_def ex_open Let_def c b ex_file_store_def
        filesExisted_def) (simp add: ex_world_def)
qed

theorem client_run_correct_witness:
  "\<exists>s t. sess_Init ex_world (NewTaskSession ex_cfg Map.empty ex_task) = Some s \<and>
    sess_step ex_world s Speed_Tick = Some t \<and> length (sess_contents t) = 3"
proof -
  obtain s where s: "sess_Init ex_world (NewTaskSession ex_cfg Map.empty ex_task) = Some s"
    and f: "s_fileStore s = Some ex_file_store" "s_ended s = False"
    using ex_init by (simp add: clientFiles_def NewTaskSession_def Let_def)
  have h: "\<not> c_Server ex_cfg" "mi_PieceLen (dt_MetaInfo ex_task) = int 2"
    "total_length (dt_MetaInfo ex_task) = 3"
    "length (mi_Pieces (dt_MetaInfo ex_task)) = piece_count (total_length (dt_MetaInfo ex_task)) 2 * sha1_Size"
    "distinct (map fe_file (fs_files ex_file_store))"
    by (simp_all add: ex_cfg_def zero_config_def ex_task_def total_length_def piece_count_def sha1_Size_def
        ex_file_store_def)
  have "sess_next s s" using f ex_world_ok by (intro sess_next.intros [of s Speed_Tick ex_world]) simp_all
  then have r: "sess_runs s s" by (rule r_into_rtranclp)
  from client_run_correct [OF s h(1) ex_world_ok h(2) _ h(4) f(1) h(5) r] show ?thesis
    using s h(3) by (intro exI [of _ s]) simp
qed

text \<open>C6: A PIECE message, whoever sends it and whatever its index, offset and data, changes only
  bytes of the piece it names, and nothing of a piece that is already verified.\<close>

theorem piece_message_confined:
  assumes "sess_inv s" "i < length (s_heap s)" "length message \<le> maxBlockLen" "world_ok w"
    and "handlePiece w s i message = Some (t, err)" "msg_u32 message 1 = Some index"
    and "j \<noteq> unat index \<or> j \<in> pset s"
  shows "window (sess_contents t) (j * plen s) (plen s) = window (sess_contents s) (j * plen s) (plen s)"
proof -
  have gr: "sess_grows s t" using safe_handlePiece [OF assms(5,2,3)] assms(1) by (simp add: safe_def)
  show ?thesis
  proof (cases "j \<in> pset s")
    case True
    then show ?thesis using gr by (simp add: sess_grows_def piece_bytes_def)
  next
    case False
    then have "j \<noteq> unat index" using assms(7) by simp
    then show ?thesis using piece_frame [OF assms(5,1-4,6)] by (simp add: piece_bytes_def)
  qed
qed

text \<open>A small session: piece 0 of three is verified, one peer is connected.\<close>

definition ex_peer :: peer where
  "ex_peer = (newPeer \<lparr>pc_client = True, pc_remoteAddr = ''c'', pc_taskID = ''t''\<rparr>)
     \<lparr>p_have := Some (fresh_bitset 3)\<rparr>"

definition ex_seed :: session where
  "ex_seed = (NewTaskSession ex_cfg ex_disk (ex_task\<lparr>dt_MetaInfo := ex_meta\<rparr>))
     \<lparr>s_fileStore := Some ex_store, s_pieceSet := Some ((fresh_bitset 3)\<lparr>bs_b := [128]\<rparr>),
      s_totalPieces := 3, s_totalSize := 5, s_lastPieceLength := 1, s_goodPieces := 1,
      s_heap := [ex_peer], s_peers := [(''c'', 0)]\<rparr>"

lemma ex_set:
  "wf_bitset ((fresh_bitset 3)\<lparr>bs_b := [128]\<rparr>)" "Len ((fresh_bitset 3)\<lparr>bs_b := [128]\<rparr>) = 3"
  "elems ((fresh_bitset 3)\<lparr>bs_b := [128]\<rparr>) = {0}"
proof -
  have n: "NewBitset (int 3) = Some (fresh_bitset 3)" by (rule NewBitset_nat)
  then have f: "wf_bitset (fresh_bitset 3)" "Len (fresh_bitset 3) = int 3" "elems (fresh_bitset 3) = {}"
    using bs.new [of "int 3"] by auto
  have "BSet (fresh_bitset 3) (int 0) = Some ((fresh_bitset 3)\<lparr>bs_b := [128]\<rparr>)"
    by (simp add: BSet_def fresh_bitset_def bit_mask_def go_index_def go_store_def)
  then show "wf_bitset ((fresh_bitset 3)\<lparr>bs_b := [128]\<rparr>)" "Len ((fresh_bitset 3)\<lparr>bs_b := [128]\<rparr>) = 3"
    "elems ((fresh_bitset 3)\<lparr>bs_b := [128]\<rparr>) = {0}"
    using bs.put [OF f(1), of 0] f(2,3) by auto
qed

lemma ex_views:
  "sess_contents ex_seed = [1, 2, 3, 4, 5]" "pset ex_seed = {0}" "pieceLen ex_seed = 2"
  "sess_ref ex_seed = sha1 [1, 2] @ sha1 [0, 0] @ sha1 [5]" "s_heap ex_seed = [ex_peer]"
  "s_totalPieces ex_seed = 3"
  by (simp_all add: ex_seed_def NewTaskSession_def sess_contents_def ex_contents pset_def ex_set
      pieceLen_def ex_meta_def sess_ref_def)

lemma ex_inv: "sess_inv ex_seed"
proof -
  have n: "npieces ex_seed = 3" by (simp add: ex_views piece_count_def)
  have good: "0 \<in> good_pieces (sess_ref ex_seed) (sess_contents ex_seed) (plen ex_seed)"
    using n by (simp add: good_pieces_def ex_views piece_bytes_def window_def)
  have f: "s_fileStore ex_seed = Some ex_store" "s_disk ex_seed = ex_disk"
    "s_pieceSet ex_seed = Some ((fresh_bitset 3)\<lparr>bs_b := [128]\<rparr>)" "s_totalSize ex_seed = 5"
    "s_lastPieceLength ex_seed = 1" "s_goodPieces ex_seed = 1" "s_activePieces ex_seed = []"
    "s_peers ex_seed = [(''c'', 0)]"
    by (simp_all add: ex_seed_def NewTaskSession_def)
  have "store_inv ex_seed"
    unfolding store_inv_def n using good
    by (simp add: f ex_views ex_set plain_store_def ex_wf)
  moreover have "peer_ok 3 ex_peer" using wf_fresh [of 3] by (simp add: peer_ok_def ex_peer_def Len_def fresh_bitset_def)
  then have "peers_inv ex_seed"
    by (auto simp: peers_inv_def f ex_views peer_at_def ex_peer_def newPeer_def)
  ultimately show ?thesis by (simp add: sess_inv_def active_inv_def f)
qed

lemma maxBlockLen_ge: "n \<le> 200 \<Longrightarrow> n \<le> maxBlockLen"
  by (simp add: maxBlockLen_def)

lemma ex_IsSet:
  "IsSet ((fresh_bitset 3)\<lparr>bs_b := [128]\<rparr>) 0 = Some True"
  "IsSet ((fresh_bitset 3)\<lparr>bs_b := [128]\<rparr>) 1 = Some False"
  "IsSet ((fresh_bitset 3)\<lparr>bs_b := [128]\<rparr>) 2 = Some False"
  "IsSet (fresh_bitset 3) 0 = Some False" "IsSet (fresh_bitset 3) 1 = Some False"
  "IsSet (fresh_bitset 3) 2 = Some False"
proof -
  have "elems (fresh_bitset 3) = {}" "Len (fresh_bitset 3) = 3"
    using bs.new [of "int 3"] NewBitset_nat [of 3] by auto
  then show "IsSet ((fresh_bitset 3)\<lparr>bs_b := [128]\<rparr>) 0 = Some True"
    "IsSet ((fresh_bitset 3)\<lparr>bs_b := [128]\<rparr>) 1 = Some False"
    "IsSet ((fresh_bitset 3)\<lparr>bs_b := [128]\<rparr>) 2 = Some False"
    "IsSet (fresh_bitset 3) 0 = Some False" "IsSet (fresh_bitset 3) 1 = Some False"
    "IsSet (fresh_bitset 3) 2 = Some False"
    using bs.member [OF ex_set(1), of 0] bs.member [OF ex_set(1), of 1] bs.member [OF ex_set(1), of 2]
      bs.member [OF wf_fresh, of 0 3] bs.member [OF wf_fresh, of 1 3] bs.member [OF wf_fresh, of 2 3]
    by (simp_all add: ex_set)
qed

lemma checkRangeLoop_nothing:
  "\<forall>j. i \<le> j \<and> j < i + int k \<longrightarrow> IsSet b j \<noteq> None \<and> IsSet h j = Some False \<Longrightarrow>
   checkRangeLoop a h b i k = Some (-1)"
proof (induction k arbitrary: i)
  case (Suc k)
  obtain m where "IsSet b i = Some m" "IsSet h i = Some False" using Suc.prems by force
  moreover have "checkRangeLoop a h b (i + 1) k = Some (-1)" using Suc.prems by (intro Suc.IH) simp
  ultimately show ?case by (cases m) simp_all
qed simp

text \<open>The peer has nothing to ask for, so \<open>requestBlock\<close> leaves the session alone.\<close>

lemma fresh_bitset_n [simp]: "bs_n (fresh_bitset n) = int n"
  by (simp add: fresh_bitset_def)

lemma ex_nothing_to_request:
  assumes "s_activePieces s = []" "s_totalPieces s = 3" "peer_at s 0 = ex_peer"
    and "s_pieceSet s = Some b" "bs_n b = 3" "\<forall>j \<in> {0, 1, 2}. IsSet b j \<noteq> None"
  shows "requestBlock ex_world c s 0 = Some (s, None)"
proof -
  have h: "p_have (peer_at s 0) = Some (fresh_bitset 3)" by (simp add: assms(3) ex_peer_def)
  have n: "bs_n (fresh_bitset 3) = 3" by (simp add: fresh_bitset_def)
  have "checkRangeLoop [] (fresh_bitset 3) b 0 3 = Some (-1)"
  proof (rule checkRangeLoop_nothing, intro allI impI)
    fix j :: int assume "0 \<le> j \<and> j < 0 + int 3"
    then consider "j = 0" | "j = 1" | "j = 2" by linarith
    then show "IsSet b j \<noteq> None \<and> IsSet (fresh_bitset 3) j = Some False"
      using assms(6) by cases (simp_all add: ex_IsSet)
  qed
  then have r: "sess_checkRange s 0 0 3 = Some (-1)"
    unfolding sess_checkRange_def h assms(1,4) by (simp add: min_int_def Let_def n assms(5) del: checkRangeLoop.simps)
  have r0: "sess_checkRange s 0 0 0 = Some (-1)"
    unfolding sess_checkRange_def h assms(1,4) by (simp add: min_int_def Let_def n assms(5))
  have "w_keys ex_world n [] = []" "w_intn ex_world c 3 = 0" for n by (simp_all add: ex_world_def)
  then show ?thesis
    by (simp add: requestBlock_def assms(1,2) choosePiece_def Let_def r r0)
qed

theorem piece_message_confined_witness:
  "\<exists>t err. handlePiece ex_world ex_seed 0 (piece_msg 1 0 [9]) = Some (t, err) \<and>
    window (sess_contents t) 0 2 = [1, 2]"
proof -
  have le: "\<not> (3 :: u32) \<le> 1" by (simp add: word_le_nat_alt)
  have h: "p_have (peer_at ex_seed 0) = Some (fresh_bitset 3)" using ex_views by (simp add: peer_at_def ex_peer_def)
  have d: "decodePiece ex_seed 0 (piece_msg 1 0 [9]) = Some (Inr (1, 0, 1))"
    using le by (simp add: decodePiece_def msg_u32_piece [unfolded One_nat_def] h ex_views maxBlockLen_def)
  obtain x where w: "fs_WriteAt (w_srt ex_world) (w_clk ex_world) ex_disk ex_store [9] 2 =
      Ret (x, ex_store, 1, None)"
    using RawWriteAt_spec [OF ex_wf, of 2 "[9]" "[0]"] by (auto simp: ex_contents fs_WriteAt_def)
  have s: "s_pieceSet ex_seed = Some ((fresh_bitset 3)\<lparr>bs_b := [128]\<rparr>)" "s_fileStore ex_seed = Some ex_store"
    "s_disk ex_seed = ex_disk" "s_activePieces ex_seed = []"
    by (simp_all add: ex_seed_def NewTaskSession_def)
  let ?s1 = "ex_seed\<lparr>s_disk := x, s_fileStore := Some ex_store\<rparr>"
  let ?s2 = "upd_peer ?s1 0 (\<lambda>p. p\<lparr>p_ourRequests := AList.delete (requestIndex 1 0) (p_ourRequests p)\<rparr>)"
  have p2: "peer_at ?s2 0 = ex_peer"
    using ex_views by (simp add: upd_peer_def peer_at_def) (simp add: ex_peer_def newPeer_def)
  have r2: "sess_recordBlock ex_world ?s1 0 1 0 1 = Some ?s2"
    by (simp add: sess_recordBlock_def s upd_peer_def)
  have r3: "requestBlock ex_world 0 ?s2 0 = Some (?s2, None)"
    by (rule ex_nothing_to_request [of _ "(fresh_bitset 3)\<lparr>bs_b := [128]\<rparr>"])
      (use p2 in \<open>simp_all add: upd_peer_def s ex_views ex_IsSet ex_bool_eq\<close>)
  have hp: "handlePiece ex_world ex_seed 0 (piece_msg 1 0 [9]) = Some (?s2, None)"
    by (simp add: handlePiece_def d s ex_IsSet msg_u32_piece ex_views w r2 r3)
  have "window (sess_contents ?s2) (0 * plen ex_seed) (plen ex_seed) =
      window (sess_contents ex_seed) (0 * plen ex_seed) (plen ex_seed)"
    by (rule piece_message_confined [OF ex_inv _ _ ex_world_ok hp msg_u32_piece(1)])
      (simp_all add: ex_views msg_u32_piece maxBlockLen_ge)
  then have "window (sess_contents ?s2) 0 2 = [1, 2]" by (simp add: ex_views window_def)
  then show ?thesis using hp by blast
qed

end
