(* ===== verification/SessionClaims.thy ===== *)
theory SessionClaims
  imports SessionData
begin

text \<open>
  The promises two sessions make each other (what is requested, what is served, how a block
  travels) and the ways a session goes wrong: what a client falls back on when it cannot use a
  node, the messages that bring a node down, a late close, and the keep-alive check.
\<close>

section \<open>Receiving a block\<close>

lemma decode_piece_ok:
  assumes "sess_inv s" "i < length (s_heap s)" "p_have (peer_at s i) = Some hv"
    and "s_totalPieces s < 2 ^ 32" "pieceLen s < 2 ^ 32"
    and "0 \<le> k" "k < s_totalPieces s" "0 \<le> b" "b < pieceLen s" "b + int (length data) \<le> pieceLen s"
    and "length data \<le> maxBlockLen"
  shows "decodePiece s i (piece_msg (word_of_int k) (word_of_int b) data) =
    Some (Inr (word_of_int k, word_of_int b, word_of_nat (length data)))"
proof -
  have "peer_ok (s_totalPieces s) (peer_at s i)"
    using assms(1,2) by (simp add: sess_inv_def peers_inv_def peer_at_def)
  then have n: "bs_n hv = s_totalPieces s" using assms(3) by (simp add: peer_ok_def Len_def)
  note wk = word_index_in_range [OF assms(4,6,7)]
  have "uint (word_of_int (int (length data)) :: u32) = int (length data)"
    using assms(5,8,10) by (simp only: uint_word_of_int_eq) (simp add: take_bit_int_eq_self)
  then have ud: "uint (word_of_nat (length data) :: u32) = int (length data)" by simp
  then have nd: "unat (word_of_nat (length data) :: u32) = length data" by (simp only: unat_eq_nat_uint nat_int)
  have ub: "uint (word_of_int b :: u32) = b"
    using assms by (simp add: uint_word_of_int_eq take_bit_int_eq_self)
  show ?thesis
    using wk(1) assms
    by (simp add: decodePiece_def msg_u32_piece [unfolded One_nat_def] n ub ud nd)
qed

text \<open>The data of an accepted PIECE message is in the files afterwards.\<close>

lemma piece_stored:
  assumes "handlePiece w s i (piece_msg (word_of_int k) (word_of_int b) data) = Some (t, err)" "world_ok w"
    and "sess_inv s" "i < length (s_heap s)" "p_have (peer_at s i) = Some hv"
    and "s_totalPieces s < 2 ^ 32" "pieceLen s < 2 ^ 32"
    and "0 \<le> k" "k < s_totalPieces s" "0 \<le> b" "b < pieceLen s" "b + int (length data) \<le> pieceLen s"
    and "length data + 9 \<le> maxBlockLen" "nat k \<notin> pset s"
    and "nat k * plen s + nat b + length data \<le> length (sess_contents s)"
  shows "window (sess_contents t) (nat k * plen s + nat b) (length data) = data"
proof -
  let ?m = "piece_msg (word_of_int k) (word_of_int b) data"
  note wk = word_index_in_range [OF assms(6,8,9)]
  have ub: "unat (word_of_int b :: u32) = nat b"
    using assms by (simp add: unat_eq_nat_uint uint_word_of_int_eq take_bit_int_eq_self)
  have len: "length ?m \<le> maxBlockLen" using assms(13) by (simp add: msg_u32_piece)
  have dec: "decodePiece s i ?m = Some (Inr (word_of_int k, word_of_int b, word_of_nat (length data)))"
    using decode_piece_ok [OF assms(3-12)] assms(13) by simp
  have no: "\<not> (\<exists>e. decodePiece s i ?m = Some (Inl e))" "unat (word_of_int k :: u32) \<notin> pset s"
    using dec assms(14) wk(3) by simp_all
  obtain bgn fs d' fs' n err1 where m: "msg_u32 ?m 5 = Some bgn" and fs: "s_fileStore s = Some fs"
    and wr0: "fs_WriteAt (w_srt w) (w_clk w) (s_disk s) fs (drop 9 ?m)
      (int (unat (word_of_int k :: u32) * plen s + unat bgn)) = Ret (d', fs', n, err1)"
    and c: "sess_contents t = contents d' fs'"
    using piece_written [OF assms(1,3,4) len assms(2) msg_u32_piece(1)] no by blast
  have "bgn = word_of_int b" using m by (simp add: msg_u32_piece)
  then have wr: "fs_WriteAt (w_srt w) (w_clk w) (s_disk s) fs data (int (nat k * plen s + nat b)) = Ret (d', fs', n, err1)"
    using wr0 unfolding msg_u32_piece(3) wk(3) by (simp only: ub)
  have pl: "wf_store (s_disk s) fs" "fs_cache fs = None"
    using assms(3) fs by (auto simp: sess_inv_def store_inv_def plain_store_def)
  then have "st_write (s_disk s, fs) data (int (nat k * plen s + nat b)) = ((d', fs), n, err1)" and f: "fs' = fs"
    using wr by (auto simp: fs_WriteAt_def st_write_def split: prod.splits)
  from store.wr_inside [OF _ _ this(1)] have "contents d' fs = patch (sess_contents s) (nat k * plen s + nat b) data"
    using pl(1) assms(15) fs by (simp add: sess_contents_def)
  then show ?thesis using c f assms(15) by (simp add: window_patch_same)
qed

section \<open>Properties\<close>

text \<open>C5: A request a node sends is for a piece it lacks and its peer has, lies inside that piece and
  is no longer than a block, provided the piece length is a multiple of the block length; it is
  sent to one peer only, and nothing of the files or the verified pieces changes.\<close>

theorem request_in_range:
  assumes "requestBlock w call s i = Some (t, err)" "sess_inv s" "world_ok w" "standardBlockLen dvd pieceLen s"
  shows "sess_contents t = sess_contents s \<and> pset t = pset s \<and>
    (s_heap t = s_heap s \<or>
     (\<exists>k b l hv. 0 \<le> k \<and> k < s_totalPieces s \<and> nat k \<notin> pset s \<and>
       p_have (peer_at s i) = Some hv \<and> IsSet hv k = Some True \<and>
       0 \<le> b \<and> 0 < l \<and> l \<le> standardBlockLen \<and> b + l \<le> sess_pieceLength s k \<and>
       s_heap t = (s_heap s)[i := SendRequest (peer_at s i) (w_now w) k b l]))"
proof -
  note r = requestBlock_effect [OF assms(1-3)]
  have v: "sess_contents t = sess_contents s" "pset t = pset s"
    using core_views(1,3) [OF r [THEN conjunct1]] by simp_all
  have st: "store_inv s" using assms(2) by (simp add: sess_inv_def)
  have "s_heap t = s_heap s \<or>
     (\<exists>k b l hv. 0 \<le> k \<and> k < s_totalPieces s \<and> nat k \<notin> pset s \<and>
       p_have (peer_at s i) = Some hv \<and> IsSet hv k = Some True \<and>
       0 \<le> b \<and> 0 < l \<and> l \<le> standardBlockLen \<and> b + l \<le> sess_pieceLength s k \<and>
       s_heap t = (s_heap s)[i := SendRequest (peer_at s i) (w_now w) k b l])"
  proof (cases "s_heap t = s_heap s")
    case False
    then obtain k b where k: "wanted s i k" "0 \<le> b" "nat b < block_count (nat (sess_pieceLength s k))"
      and q: "requested w s t i k b" using r by blast
    have lt: "k < s_totalPieces s" using k(1) by (simp add: wanted_def)
    have b0: "0 \<le> b * standardBlockLen" using k(2) by (simp add: standardBlockLen_def)
    show ?thesis
      using block_len_fits [OF st k(2,3) lt assms(4)] q k(1) b0 unfolding requested_def wanted_def by blast
  qed simp
  then show ?thesis using v by blast
qed

text \<open>A node that has nothing yet of a task of one piece, connected to one that has it.\<close>

definition ex_up :: peer where
  "ex_up = (newPeer \<lparr>pc_client = False, pc_remoteAddr = ''u'', pc_taskID = ''t''\<rparr>)
     \<lparr>p_have := Some ((fresh_bitset 1)\<lparr>bs_b := [128]\<rparr>)\<rparr>"

definition ex_big_meta :: meta_info where
  "ex_big_meta = ex_meta\<lparr>mi_PieceLen := 2 ^ 28, mi_Pieces := sha1 [1, 2, 3, 4, 5]\<rparr>"

definition ex_leech :: session where
  "ex_leech = (NewTaskSession ex_cfg ex_disk (ex_task\<lparr>dt_MetaInfo := ex_big_meta\<rparr>))
     \<lparr>s_fileStore := Some ex_store, s_pieceSet := Some (fresh_bitset 1),
      s_totalPieces := 1, s_totalSize := 5, s_lastPieceLength := 5,
      s_heap := [ex_up], s_peers := [(''u'', 0)]\<rparr>"

lemma ex_one:
  "wf_bitset ((fresh_bitset 1)\<lparr>bs_b := [128]\<rparr>)" "Len ((fresh_bitset 1)\<lparr>bs_b := [128]\<rparr>) = 1"
  "elems (fresh_bitset 1) = {}" "IsSet (fresh_bitset 1) 0 = Some False"
  "IsSet ((fresh_bitset 1)\<lparr>bs_b := [128]\<rparr>) 0 = Some True"
proof -
  have f: "wf_bitset (fresh_bitset 1)" "Len (fresh_bitset 1) = int 1" "elems (fresh_bitset 1) = {}"
    using bs.new [of "int 1"] NewBitset_nat [of 1] by auto
  have "BSet (fresh_bitset 1) (int 0) = Some ((fresh_bitset 1)\<lparr>bs_b := [128]\<rparr>)"
    by (simp add: BSet_def fresh_bitset_def bit_mask_def go_index_def go_store_def)
  then have g: "wf_bitset ((fresh_bitset 1)\<lparr>bs_b := [128]\<rparr>)" "Len ((fresh_bitset 1)\<lparr>bs_b := [128]\<rparr>) = int 1"
    "elems ((fresh_bitset 1)\<lparr>bs_b := [128]\<rparr>) = {0}"
    using bs.put [OF f(1), of 0] f(2,3) by auto
  then show "wf_bitset ((fresh_bitset 1)\<lparr>bs_b := [128]\<rparr>)" "Len ((fresh_bitset 1)\<lparr>bs_b := [128]\<rparr>) = 1"
    "elems (fresh_bitset 1) = {}" using f by simp_all
  show "IsSet (fresh_bitset 1) 0 = Some False" "IsSet ((fresh_bitset 1)\<lparr>bs_b := [128]\<rparr>) 0 = Some True"
    using bs.member [OF f(1), of 0] bs.member [OF g(1), of 0] f g by simp_all
qed

lemmas ex_ones = ex_one ex_one [unfolded One_nat_def]

lemma ex_leech_views:
  "sess_contents ex_leech = [1, 2, 3, 4, 5]" "pset ex_leech = {}" "pieceLen ex_leech = 2 ^ 28"
  "sess_ref ex_leech = sha1 [1, 2, 3, 4, 5]" "s_heap ex_leech = [ex_up]" "s_totalPieces ex_leech = 1"
  "s_activePieces ex_leech = []" "s_pieceSet ex_leech = Some (fresh_bitset 1)" "s_lastPieceLength ex_leech = 5"
  "peer_at ex_leech 0 = ex_up" "p_have ex_up = Some ((fresh_bitset 1)\<lparr>bs_b := [128]\<rparr>)" "p_out ex_up = []"
  by (simp_all add: ex_leech_def NewTaskSession_def sess_contents_def ex_contents pset_def ex_ones
      pieceLen_def ex_big_meta_def sess_ref_def peer_at_def ex_up_def newPeer_def)

lemma ex_leech_inv: "sess_inv ex_leech"
proof -
  have n: "npieces ex_leech = 1" by (simp add: ex_leech_views piece_count_def)
  have f: "s_fileStore ex_leech = Some ex_store" "s_disk ex_leech = ex_disk"
    "s_totalSize ex_leech = 5" "s_goodPieces ex_leech = 0" "s_peers ex_leech = [(''u'', 0)]"
    by (simp_all add: ex_leech_def NewTaskSession_def)
  have "store_inv ex_leech"
    unfolding store_inv_def n
    using wf_fresh [of 1] by (simp add: f ex_leech_views plain_store_def ex_wf Len_def fresh_bitset_def)
  moreover have "peer_ok 1 ex_up" using ex_ones by (simp add: peer_ok_def ex_leech_views)
  then have "peers_inv ex_leech"
    by (auto simp: peers_inv_def f ex_leech_views peer_at_def ex_up_def newPeer_def)
  ultimately show ?thesis by (simp add: sess_inv_def active_inv_def ex_leech_views)
qed

text \<open>The first request of the example: the whole piece from the only peer.\<close>

lemma ex_request:
  "\<exists>t. requestBlock ex_world 0 ex_leech 0 = Some (t, None) \<and>
    s_heap t = [SendRequest ex_up 7 0 0 5]"
proof -
  have w: "w_keys ex_world n [] = []" "w_intn ex_world c 1 = 0" "w_writes ex_world 0" "w_now ex_world = 7" for n c
    by (simp_all add: ex_world_def)
  have "checkRangeLoop [] ((fresh_bitset 1)\<lparr>bs_b := [128]\<rparr>) (fresh_bitset 1) 0 (Suc 0) = Some 0"
    by (simp add: ex_ones)
  moreover have "bs_n (fresh_bitset 1) = 1" by (simp add: fresh_bitset_def)
  ultimately have r: "sess_checkRange ex_leech 0 0 1 = Some 0"
    by (simp add: sess_checkRange_def ex_leech_views min_int_def del: checkRangeLoop.simps)
  have a: "NewActivePiece (sess_pieceLength ex_leech 0) = Some \<lparr>ap_downloaderCount = [0], ap_pieceLength = 5\<rparr>"
    by (simp add: sess_pieceLength_def ex_leech_views NewActivePiece_def standardBlockLen_def go_div_nonneg go_make_def)
  show ?thesis
    by (simp add: requestBlock_def ex_leech_views w choosePiece_def r a requestBlock2_def set_active_def
        chooseBlockToDownload_def chooseBlockToDownloadNormal_def requestBlockImp_def standardBlockLen_def
        send_peer_def upd_peer_def peer_at_def)
qed

theorem request_in_range_witness:
  "\<exists>t l. requestBlock ex_world 0 ex_leech 0 = Some (t, None) \<and> 0 < l \<and> l \<le> 5 \<and>
    s_heap t = [SendRequest ex_up 7 0 0 l]"
proof -
  obtain t where t: "requestBlock ex_world 0 ex_leech 0 = Some (t, None)" "s_heap t = [SendRequest ex_up 7 0 0 5]"
    using ex_request by blast
  have d: "standardBlockLen dvd pieceLen ex_leech" by (simp add: ex_leech_views standardBlockLen_def)
  have "SendRequest ex_up 7 0 0 5 \<noteq> ex_up"
    by (simp add: SendRequest_def sendMessage_def ex_up_def newPeer_def)
  then have "s_heap t \<noteq> s_heap ex_leech" using t(2) by (simp add: ex_leech_views)
  with request_in_range [OF t(1) ex_leech_inv ex_world_ok d] show ?thesis
    using t by (intro exI [of _ t] exI [of _ 5]) simp
qed

text \<open>C4: A REQUEST for bytes of one piece is answered with exactly those bytes of the files, and to
  the asking peer alone, when the node has verified the piece; otherwise it is refused and nothing
  is sent or changed.  Bytes past the end of the files are zeros.\<close>

theorem request_served:
  assumes "sess_inv s" "i < length (s_heap s)" "p_have (peer_at s i) = Some hv"
    and "s_totalPieces s < 2 ^ 32" "pieceLen s + 9 < 2 ^ 32" "w_writes w i"
    and "0 \<le> k" "k < s_totalPieces s" "0 \<le> b" "b < pieceLen s" "0 \<le> l" "b + l \<le> pieceLen s"
  shows "handleRequest w s i (request_msg k b l) =
    (if nat k \<in> pset s then Some (upd_peer s i (\<lambda>p. sendMessage p (piece_msg (word_of_int k) (word_of_int b)
      (read_padded (sess_contents s) (nat k * plen s + nat b) (nat l)))), None)
     else Some (s, Some No_Such_Piece))"
proof (cases "nat k \<in> pset s")
  case True
  then show ?thesis using serve_request [OF assms(1-6) True assms(7,9-12)] by simp
next
  case False
  then show ?thesis using decode_request [OF assms(1-4) _ assms(7-12)] assms(5)
    by (simp add: handleRequest_def)
qed

theorem request_served_witness:
  "handleRequest ex_world ex_seed 0 (request_msg 0 1 1) =
     Some (upd_peer ex_seed 0 (\<lambda>p. sendMessage p (piece_msg 0 1 [2])), None) \<and>
   handleRequest ex_world ex_seed 0 (request_msg 1 0 2) = Some (ex_seed, Some No_Such_Piece)"
proof -
  have h: "p_have (peer_at ex_seed 0) = Some (fresh_bitset 3)" "w_writes ex_world 0"
    using ex_views by (simp_all add: peer_at_def ex_peer_def ex_world_def)
  have p: "read_padded [1, 2, 3, 4, 5] 1 1 = ([2] :: bytes)" by (simp add: read_padded_def window_def)
  show ?thesis
    using request_served [OF ex_inv _ h(1) _ _ h(2), of 0 1 1] request_served [OF ex_inv _ h(1) _ _ h(2), of 1 0 2]
    by (simp add: ex_views p p [unfolded One_nat_def])
qed

text \<open>C3: A block travels unchanged: the PIECE message with which one node answers a request for a
  block of a verified piece, handled by a node that lacks the piece, leaves in its files, at the
  same place, exactly the bytes of the sender's files.\<close>

theorem block_transfer:
  assumes "sess_inv s" "i < length (s_heap s)" "p_have (peer_at s i) = Some hv" "w_writes w i"
    and "nat k \<in> pset s" "0 \<le> k" "0 \<le> b" "b < pieceLen s" "0 \<le> l" "b + l \<le> pieceLen s"
    and "s_totalPieces s < 2 ^ 32" "pieceLen s + 9 < 2 ^ 32" "nat l + 9 \<le> maxBlockLen"
    and "nat k * plen s + nat b + nat l \<le> length (sess_contents s)"
    and "handleRequest w s i (request_msg k b l) = Some (s', None)" "message = last (p_out (peer_at s' i))"
    and "sess_inv c" "j < length (s_heap c)" "p_have (peer_at c j) = Some hv'" "nat k \<notin> pset c" "world_ok w'"
    and "pieceLen c = pieceLen s" "length (sess_contents c) = length (sess_contents s)"
    and "handlePiece w' c j message = Some (c', err)"
  shows "window (sess_contents c') (nat k * plen s + nat b) (nat l) =
    window (sess_contents s) (nat k * plen s + nat b) (nat l)"
proof -
  let ?o = "nat k * plen s + nat b"
  let ?d = "window (sess_contents s) ?o (nat l)"
  have len: "length ?d = nat l" using assms(14) by (simp add: length_window)
  have rp: "read_padded (sess_contents s) ?o (nat l) = ?d"
    using assms(14) len by (simp add: read_padded_def add_le_imp_le_diff add.commute)
  have "s' = upd_peer s i (\<lambda>p. sendMessage p (piece_msg (word_of_int k) (word_of_int b) ?d))"
    using serve_request [OF assms(1-3,11,12,4-10)] assms(15) rp by simp
  then have m: "message = piece_msg (word_of_int k) (word_of_int b) ?d"
    using assms(2,16) by (simp add: upd_peer_def peer_at_def sendMessage_def)
  have tp: "s_totalPieces s = int (npieces s)" "s_totalPieces c = int (npieces c)"
    using assms(1,17) unfolding sess_inv_def store_inv_def by blast+
  then have tc: "s_totalPieces c = s_totalPieces s" using assms(22,23) by simp
  have "nat k < npieces s" using assms(1,5) by (auto simp: sess_inv_def store_inv_def good_pieces_def)
  then have k: "k < s_totalPieces c" using tp(1) tc assms(6) by linarith
  show ?thesis
    using piece_stored [of w' c j k b ?d c' err hv'] assms(24) m k tc len assms
    by simp
qed

definition ex_blank :: disk where
  "ex_blank = (\<lambda>p. map_option (\<lambda>c. replicate (length c) 0) (ex_disk p))"

definition ex_client :: session where
  "ex_client = ex_seed\<lparr>s_disk := ex_blank, s_pieceSet := Some (fresh_bitset 3), s_goodPieces := 0\<rparr>"

lemma ex_blank:
  "wf_store ex_blank ex_store" "contents ex_blank ex_store = [0, 0, 0, 0, 0]"
  by (auto simp: wf_store_def ex_blank_def ex_disk_def ex_store_def base_of_def less_Suc_eq numeral_3_eq_3
      contents_def contents_from_def content_def)

lemma ex_client_views:
  "sess_contents ex_client = [0, 0, 0, 0, 0]" "pset ex_client = {}" "pieceLen ex_client = 2"
  "s_heap ex_client = [ex_peer]" "s_totalPieces ex_client = 3" "s_activePieces ex_client = []"
  "s_pieceSet ex_client = Some (fresh_bitset 3)" "s_disk ex_client = ex_blank" "s_fileStore ex_client = Some ex_store"
  "peer_at ex_client 0 = ex_peer"
  using ex_views bs.new [of "int 3"] NewBitset_nat [of 3]
  by (simp_all add: ex_client_def sess_contents_def pset_def pieceLen_def peer_at_def)
    (simp_all add: ex_seed_def NewTaskSession_def ex_blank)

lemma ex_client_inv: "sess_inv ex_client"
proof -
  have n: "npieces ex_client = 3" by (simp add: ex_client_views piece_count_def)
  have f: "s_totalSize ex_client = 5" "s_lastPieceLength ex_client = 1" "s_goodPieces ex_client = 0"
    "s_peers ex_client = [(''c'', 0)]" "sess_ref ex_client = sess_ref ex_seed"
    by (simp_all add: ex_client_def ex_seed_def NewTaskSession_def sess_ref_def)
  have "store_inv ex_client"
    unfolding store_inv_def n
    using wf_fresh [of 3] by (simp add: f ex_views ex_client_views plain_store_def ex_blank Len_def)
  moreover have "peer_ok 3 ex_peer" using wf_fresh [of 3] by (simp add: peer_ok_def ex_peer_def Len_def)
  then have "peers_inv ex_client"
    by (auto simp: peers_inv_def f ex_client_views) (simp add: ex_peer_def newPeer_def)
  ultimately show ?thesis by (simp add: sess_inv_def active_inv_def ex_client_views)
qed

theorem block_transfer_witness:
  "\<exists>s' c' err. handleRequest ex_world ex_seed 0 (request_msg 0 0 2) = Some (s', None) \<and>
    handlePiece ex_world ex_client 0 (last (p_out (peer_at s' 0))) = Some (c', err) \<and>
    window (sess_contents c') 0 2 = [1, 2]"
proof -
  have w: "w_writes ex_world 0" by (simp add: ex_world_def)
  have hs: "p_have (peer_at ex_seed 0) = Some (fresh_bitset 3)" "p_have (peer_at ex_client 0) = Some (fresh_bitset 3)"
    using ex_views ex_client_views by (simp_all add: peer_at_def ex_peer_def)
  have rp: "read_padded [1, 2, 3, 4, 5] 0 2 = ([1, 2] :: bytes)" by (simp add: read_padded_def window_def)
  let ?s = "upd_peer ex_seed 0 (\<lambda>p. sendMessage p (piece_msg 0 0 [1, 2]))"
  have s': "handleRequest ex_world ex_seed 0 (request_msg 0 0 2) = Some (?s, None)"
    using serve_request [OF ex_inv _ hs(1) _ _ w, of 0 0 2] by (simp add: ex_views rp)
  have m: "last (p_out (peer_at ?s 0)) = piece_msg 0 0 [1, 2]"
    using ex_views by (simp add: upd_peer_def peer_at_def sendMessage_def)
  have d: "decodePiece ex_client 0 (piece_msg 0 0 [1, 2]) = Some (Inr (0, 0, 2))"
    using decode_piece_ok [OF ex_client_inv _ hs(2), of 0 0 "[1, 2]"] by (simp add: ex_client_views maxBlockLen_ge)
  obtain x n err where r: "RawWriteAt ex_blank ex_store [1, 2] (int 0) = (x, n, err)"
    by (cases "RawWriteAt ex_blank ex_store [1, 2] (int 0)")
  then have "st_write (ex_blank, ex_store) [1, 2] (int 0) = ((x, ex_store), n, err)" by (simp add: st_write_def)
  from store.wr_inside [OF _ _ this] have "n = 2 \<and> err = None" by (simp add: ex_blank)
  then have x: "fs_WriteAt (w_srt ex_world) (w_clk ex_world) ex_blank ex_store [1, 2] 0 = Ret (x, ex_store, 2, None)"
    using r by (simp add: fs_WriteAt_def)
  let ?s1 = "ex_client\<lparr>s_disk := x, s_fileStore := Some ex_store\<rparr>"
  let ?s2 = "upd_peer ?s1 0 (\<lambda>p. p\<lparr>p_ourRequests := AList.delete (requestIndex 0 0) (p_ourRequests p)\<rparr>)"
  have p2: "peer_at ?s2 0 = ex_peer"
    using ex_client_views by (simp add: upd_peer_def peer_at_def) (simp add: ex_peer_def newPeer_def)
  have r2: "sess_recordBlock ex_world ?s1 0 0 0 2 = Some ?s2"
    by (simp add: sess_recordBlock_def ex_client_views upd_peer_def)
  have r3: "requestBlock ex_world 0 ?s2 0 = Some (?s2, None)"
    by (rule ex_nothing_to_request [of _ "fresh_bitset 3"])
      (use p2 in \<open>simp_all add: upd_peer_def ex_client_views ex_IsSet ex_bool_eq\<close>)
  have "handlePiece ex_world ex_client 0 (piece_msg 0 0 [1, 2]) = Some (?s2, None)"
    by (simp add: handlePiece_def d ex_IsSet msg_u32_piece ex_client_views x r2 r3)
  then obtain c' where hp: "handlePiece ex_world ex_client 0 (piece_msg 0 0 [1, 2]) = Some (c', None)" by blast
  obtain s' where s'': "handleRequest ex_world ex_seed 0 (request_msg 0 0 2) = Some (s', None)"
    and m': "piece_msg 0 0 [1, 2] = last (p_out (peer_at s' 0))" using s' m by metis
  have "window (sess_contents c') (nat 0 * plen ex_seed + nat 0) (nat 2) =
      window (sess_contents ex_seed) (nat 0 * plen ex_seed + nat 0) (nat 2)"
    by (rule block_transfer [OF ex_inv _ hs(1) w _ _ _ _ _ _ _ _ _ _ s'' m' ex_client_inv _ hs(2) _ ex_world_ok _ _ hp])
      (simp_all add: ex_views ex_client_views maxBlockLen_ge)
  then have "window (sess_contents c') 0 2 = [1, 2]" by (simp add: ex_views window_def)
  then show ?thesis using s'' hp m' by metis
qed

section \<open>Ways a session goes wrong\<close>

lemma init_failCount:
  assumes "sess_Init w (NewTaskSession cfg d dt) = Some s"
  shows "s_connFailCount s = 0"
proof -
  have i: "s_connFailCount t = s_connFailCount s0" if si: "sess_init w s0 = Some (t, ok)" for s0 t ok
  proof -
    obtain d r where "NewFileStore (osFs_Open (w_fs w)) (s_disk s0) (dt_MetaInfo (s_task s0)) = Some (d, r)"
      and "(case r of
         Inl _ \<Rightarrow> Some (s0\<lparr>s_disk := d\<rparr>, False)
       | Inr (fs, totalSize) \<Rightarrow> do {
           (totalPieces, lastPieceLength) \<leftarrow> countPieces totalSize (mi_PieceLen (dt_MetaInfo (s_task s0)));
           Some ((s0\<lparr>s_disk := d\<rparr>)\<lparr>s_fileStore := Some fs, s_totalSize := totalSize, s_totalPieces := totalPieces,
             s_lastPieceLength := lastPieceLength\<rparr>, True)
         }) = Some (t, ok)"
      using si unfolding sess_init_def Let_def by (auto simp: bind_eq_Some_conv)
    then show ?thesis by (cases r) (auto simp: bind_eq_Some_conv)
  qed
  have n: "s_connFailCount (NewTaskSession cfg d dt) = 0" "s_connFailCount (clientFiles c (NewTaskSession cfg d dt)) = 0" for c
    by (simp_all add: NewTaskSession_def clientFiles_def Let_def)
  show ?thesis
  proof (cases "c_Server (s_cfg (NewTaskSession cfg d dt))")
    case True
    then obtain t ok where t: "sess_init w (NewTaskSession cfg d dt) = Some (t, ok)"
      and s: "s_connFailCount s = s_connFailCount t"
      using assms by (auto simp: sess_Init_def initInServer_def bind_eq_Some_conv split: if_splits)
    then show ?thesis using i [OF t] n by simp
  next
    case False
    define sn where "sn = NewTaskSession cfg d dt"
    define s0 where "s0 = clientFiles (s_cfg sn) sn"
    have e: "initInClient w sn = Some s" using assms False by (simp add: sess_Init_def sn_def)
    then obtain s1 ok where t: "sess_init w s0 = Some (s1, ok)"
      unfolding initInClient_def Let_def s0_def [symmetric] by (cases "sess_init w s0") auto
    note e1 = e [unfolded initInClient_def Let_def s0_def [symmetric] t Option.bind.simps prod.case]
    have "s_connFailCount s = s_connFailCount s1"
      using e1 by (cases ok; cases "filesExisted w sn") (auto simp: bind_eq_Some_conv)
    then show ?thesis using i [OF t] n by (simp add: s0_def sn_def)
  qed
qed

text \<open>The address of the next attempt to connect, and a run of attempts in successive surroundings.\<close>

definition dialled :: "session \<Rightarrow> string option" where
  "dialled s = do {
     lc \<leftarrow> dt_LinkChain (s_task s);
     go_index (lc_DispatchAddrs lc) (max 0 (s_indexInChain s))
   }"

fun retries :: "world list \<Rightarrow> session \<Rightarrow> session option" where
  "retries [] s = Some s"
| "retries (w # ws) s = do { s \<leftarrow> sess_step w s Retry_Tick; retries ws s }"

lemma retry_dialled:
  assumes "s_connFailCount s = 0"
  shows "sess_step w s Retry_Tick = do {
      addr \<leftarrow> dialled s;
      connectToPeer w (s\<lparr>s_retryConn := False, s_indexInChain := max 0 (s_indexInChain s)\<rparr>) addr
    }"
proof -
  have "next_index (s\<lparr>s_retryConn := False\<rparr>) = max 0 (s_indexInChain s)"
    using assms by (simp add: next_index_def maxRetryConnectTimes_def max_def)
  then show ?thesis by (simp add: tryNewPeer_eq dialled_def)
qed

lemma retries_no_response:
  assumes "s_connFailCount s = 0" "dialled s = Some addr" "\<forall>w \<in> set ws. w_dial w addr = Response_Failed"
  shows "\<exists>u. retries ws s = Some u \<and> dialled u = Some addr"
  using assms
proof (induction ws arbitrary: s)
  case (Cons w ws)
  let ?u = "s\<lparr>s_retryConn := True, s_indexInChain := max 0 (s_indexInChain s)\<rparr>"
  have "sess_step w s Retry_Tick = Some ?u"
    using Cons.prems by (simp add: retry_dialled connectToPeer_def del: sess_step.simps)
  moreover have "dialled ?u = Some addr" using Cons.prems(2) by (simp add: dialled_def)
  ultimately show ?case using Cons by (simp del: sess_step.simps)
qed simp

lemma retries_no_header:
  assumes "s_connFailCount s = 0" "dt_LinkChain (s_task s) = Some lc"
    and "max 0 (s_indexInChain s) < int (length (lc_DispatchAddrs lc))" "\<forall>w \<in> set ws. \<forall>a. w_dial w a = Header_Failed"
  shows "\<exists>u. retries ws s = Some u \<and>
    dialled u = go_index (lc_DispatchAddrs lc) (max 0 (max 0 (s_indexInChain s) - int (length ws)))"
  using assms
proof (induction ws arbitrary: s)
  case (Cons w ws)
  let ?i = "max 0 (s_indexInChain s)"
  let ?u = "s\<lparr>s_retryConn := True, s_indexInChain := ?i - 1\<rparr>"
  have "sess_step w s Retry_Tick = Some ?u"
    using Cons.prems by (simp add: retry_dialled dialled_def go_index_def connectToPeer_def del: sess_step.simps)
  moreover have "max 0 (max 0 (s_indexInChain ?u) - int (length ws)) = max 0 (?i - int (length (w # ws)))" by simp
  moreover have "max 0 (max 0 x - 1) < n" if "max 0 x < n" for x n :: int using that by linarith
  then have "max 0 (s_indexInChain ?u) < int (length (lc_DispatchAddrs lc))" using Cons.prems(3) by simp
  ultimately show ?case using Cons.IH [of ?u] Cons.prems by (simp del: sess_step.simps)
qed (simp add: dialled_def)

text \<open>C25: What a client falls back on when it cannot use its node of the chain.  The count of failed
  connections, which should make it go to an earlier node, is 0 in every state of every run: a
  node that cannot be reached takes this one down before it is counted, and a node that takes
  the header but does not answer is dialled again, however often that happens.  Only a header
  that cannot be written moves the client on, one place per attempt, down to the first address
  of the chain; when the dialled node answers, it becomes a peer.\<close>

theorem failover_spec:
  assumes "sess_Init w (NewTaskSession cfg d dt) = Some s" "\<not> c_Server cfg" "world_ok w"
    and "mi_PieceLen (dt_MetaInfo dt) = int P" "0 < P"
    and "length (mi_Pieces (dt_MetaInfo dt)) = piece_count (total_length (dt_MetaInfo dt)) P * sha1_Size"
    and "s_fileStore s = Some fs" "distinct (map fe_file (fs_files fs))" "sess_runs s t"
    and "dt_LinkChain (s_task t) = Some lc" "dialled t = Some addr"
  shows "s_connFailCount t = 0 \<and>
    (\<forall>w. w_dial w addr = Dial_Failed \<longrightarrow> sess_step w t Retry_Tick = None) \<and>
    (\<forall>ws. (\<forall>w \<in> set ws. w_dial w addr = Response_Failed) \<longrightarrow>
      (\<exists>u. retries ws t = Some u \<and> dialled u = Some addr)) \<and>
    (\<forall>ws. (\<forall>w \<in> set ws. \<forall>a. w_dial w a = Header_Failed) \<longrightarrow>
      (\<exists>u. retries ws t = Some u \<and>
        dialled u = go_index (lc_DispatchAddrs lc) (max 0 (max 0 (s_indexInChain t) - int (length ws))))) \<and>
    (\<forall>w r. w_dial w addr = Connected r \<longrightarrow> sess_step w t Retry_Tick =
      addPeerImp w (t\<lparr>s_retryConn := False, s_indexInChain := max 0 (s_indexInChain t), s_connFailCount := 0\<rparr>)
        \<lparr>pc_client = False, pc_remoteAddr = r, pc_taskID = s_taskID t\<rparr>)"
proof -
  have "sess_grows s t" using sess.runs_inv [OF assms(9)] init_client [OF assms(1-8)] by blast
  then have z: "s_connFailCount t = 0" using init_failCount [OF assms(1)] by (simp add: sess_grows_def)
  have "max 0 (s_indexInChain t) < int (length (lc_DispatchAddrs lc))"
    using assms(10,11) by (auto simp: dialled_def go_index_def split: if_splits)
  note h = retries_no_header [OF z assms(10) this]
  have "sess_step w t Retry_Tick = None" if "w_dial w addr = Dial_Failed" for w
    using that assms(11) by (simp add: retry_dialled [OF z] connectToPeer_def del: sess_step.simps)
  moreover have "sess_step w t Retry_Tick =
      addPeerImp w (t\<lparr>s_retryConn := False, s_indexInChain := max 0 (s_indexInChain t), s_connFailCount := 0\<rparr>)
        \<lparr>pc_client = False, pc_remoteAddr = r, pc_taskID = s_taskID t\<rparr>" if "w_dial w addr = Connected r" for w r
    using that assms(11) by (simp add: retry_dialled [OF z] connectToPeer_def del: sess_step.simps)
  ultimately show ?thesis using z retries_no_response [OF z assms(11)] h by blast
qed

text \<open>The node is the last of a chain of three and has lost its neighbour: after a header that cannot be
  written, the next attempt dials the first node.\<close>

definition ex_chain :: link_chain where
  "ex_chain = \<lparr>lc_DispatchAddrs = [''a'', ''b'', host_port (Host (c_Net ex_cfg)) (DataPort (c_Net ex_cfg))],
     lc_ServerAddr = ''a''\<rparr>"

theorem failover_spec_witness:
  "\<exists>s t u. sess_Init ex_world (NewTaskSession ex_cfg Map.empty ex_task) = Some s \<and>
    sess_step (ex_world\<lparr>w_dial := \<lambda>_. Response_Failed\<rparr>) s
      (Start_Task \<lparr>st_TaskID = ''t'', st_LinkChain = Some ex_chain\<rparr>) = Some t \<and> dialled t = Some ''b'' \<and>
    retries [ex_world\<lparr>w_dial := \<lambda>_. Header_Failed\<rparr>] t = Some u \<and> dialled u = Some ''a''"
proof -
  let ?w = "ex_world\<lparr>w_dial := \<lambda>_. Response_Failed\<rparr>"
  let ?e = "Start_Task \<lparr>st_TaskID = ''t'', st_LinkChain = Some ex_chain\<rparr>"
  obtain s where s: "sess_Init ex_world (NewTaskSession ex_cfg Map.empty ex_task) = Some s"
    and f: "s_fileStore s = Some ex_file_store" "s_cfg s = ex_cfg" "s_totalPieces s = 2" "s_goodPieces s = 0"
      "s_peers s = []" "s_connFailCount s = 0" "\<not> s_ended s"
    using ex_init by (simp add: clientFiles_def NewTaskSession_def Let_def)
  have h: "\<not> c_Server ex_cfg" "mi_PieceLen (dt_MetaInfo ex_task) = int 2"
    "length (mi_Pieces (dt_MetaInfo ex_task)) = piece_count (total_length (dt_MetaInfo ex_task)) 2 * sha1_Size"
    "distinct (map fe_file (fs_files ex_file_store))"
    by (simp_all add: ex_cfg_def zero_config_def ex_task_def total_length_def piece_count_def sha1_Size_def
        ex_file_store_def)
  let ?t = "s\<lparr>s_task := (s_task s)\<lparr>dt_LinkChain := Some ex_chain\<rparr>, s_indexInChain := 1, s_retryConn := True,
      s_startAt := Some 7\<rparr>"
  have i: "upstreamIndex (host_port (Host (c_Net ex_cfg)) (DataPort (c_Net ex_cfg))) (lc_DispatchAddrs ex_chain)
      (length (lc_DispatchAddrs ex_chain)) (s_indexInChain s) = 1"
    by (simp add: ex_chain_def numeral_3_eq_3)
  have t: "sess_step ?w s ?e = Some ?t"
    using f h(1) i by (simp add: startImp_def Let_def tryNewPeer_def maxRetryConnectTimes_def connectToPeer_def)
      (simp add: ex_chain_def go_index_def ex_world_def)
  have "world_ok ?w" by (simp add: world_ok_def ex_world_def)
  then have "sess_next s ?t" using f t by (intro sess_next.intros [of s ?e ?w]) simp_all
  then have r: "sess_runs s ?t" by (rule r_into_rtranclp)
  have d: "dt_LinkChain (s_task ?t) = Some ex_chain" "dialled ?t = Some ''b''"
    by (simp_all add: dialled_def go_index_def ex_chain_def)
  from failover_spec [OF s h(1) ex_world_ok h(2) _ h(3) f(1) h(4) r d, THEN conjunct2, THEN conjunct2, THEN conjunct2,
      THEN conjunct1, THEN spec [of _ "[ex_world\<lparr>w_dial := \<lambda>_. Header_Failed\<rparr>]"]]
  obtain u where "retries [ex_world\<lparr>w_dial := \<lambda>_. Header_Failed\<rparr>] ?t = Some u" "dialled u = Some ''a''"
    by (auto simp: go_index_def ex_chain_def simp del: sess_step.simps)
  then show ?thesis using s t d by blast
qed

lemma peer_upd_peer [simp]:
  "i < length (s_heap s) \<Longrightarrow> peer_at (upd_peer s i f) i = f (peer_at s i)"
  by (simp add: upd_peer_def peer_at_def)

lemma removeKeys_heap: "removeKeys s ks = Some t \<Longrightarrow> s_heap t = s_heap s"
proof (induction ks arbitrary: s)
  case (Cons k ks)
  have "s_heap u = s_heap s" if "removeRequest s p b = Some u" for u p b
    using that by (auto simp: removeRequest_def set_active_def bind_eq_Some_conv split: option.splits if_splits)
  then show ?case using Cons by (fastforce simp: bind_eq_Some_conv)
qed simp

lemma ClosePeer_peer:
  assumes "ClosePeer s i = Some t" "i < length (s_heap s)"
  shows "length (s_heap t) = length (s_heap s)" "s_ended t = s_ended s"
    "peer_at t i = (peerClose (peer_at s i))\<lparr>p_ourRequests := []\<rparr>"
    "s_peers t = AList.delete (p_address (peer_at s i)) (s_peers t)"
proof -
  obtain u where u: "removeKeys (upd_peer s i peerClose) (map fst (p_ourRequests (peer_at (upd_peer s i peerClose) i))) = Some u"
    and t: "t = (upd_peer u i (\<lambda>p. p\<lparr>p_ourRequests := []\<rparr>))\<lparr>s_peers := AList.delete
      (p_address (peer_at (upd_peer u i (\<lambda>p. p\<lparr>p_ourRequests := []\<rparr>)) i))
      (s_peers (upd_peer u i (\<lambda>p. p\<lparr>p_ourRequests := []\<rparr>)))\<rparr>"
    using assms(1) by (auto simp: ClosePeer_def removeRequests_def bind_eq_Some_conv)
  have h: "s_heap u = s_heap (upd_peer s i peerClose)" by (rule removeKeys_heap [OF u])
  have e: "s_ended u = s_ended (upd_peer s i peerClose)" if "removeKeys a ks = Some u" "s_ended a = s_ended s" for a ks
  proof -
    have "s_ended y = s_ended x" if "removeKeys x ks = Some y" for x y ks
      using that
      by (induction ks arbitrary: x)
        (auto simp: removeRequest_def set_active_def bind_eq_Some_conv split: option.splits if_splits)
    then show ?thesis using that by (simp add: upd_peer_def)
  qed
  show "length (s_heap t) = length (s_heap s)" using h by (simp add: t upd_peer_def)
  show "s_ended t = s_ended s" using e [OF u] by (simp add: t upd_peer_def)
  have p: "peer_at u i = peerClose (peer_at s i)" using h assms(2) by (simp add: peer_at_def upd_peer_def)
  have lu: "i < length (s_heap u)" using h assms(2) by (simp add: upd_peer_def)
  show "peer_at t i = (peerClose (peer_at s i))\<lparr>p_ourRequests := []\<rparr>"
    using p lu by (simp add: t peer_at_def upd_peer_def)
  show "s_peers t = AList.delete (p_address (peer_at s i)) (s_peers t)"
    using p lu by (simp add: t peerClose_def delete_idem)
qed

text \<open>C24: A downstream node can bring this node down with two messages: a BITFIELD that is refused
  leaves its peer object without a piece map, and a HAVE of it that is already queued when the
  connection is closed is then handled with a nil pointer.\<close>

theorem bad_bitfield_then_panic:
  assumes "NewBitsetFromBytes (s_totalPieces s) payload = Some None" "i < length (s_heap s)" "\<not> s_ended s"
    and "p_client (peer_at s i)" "length payload < maxBlockLen" "length m = 4"
    and "sess_step w s (Message i (Some (BITFIELD # payload))) = Some t"
  shows "event_ok s (Message i (Some (BITFIELD # payload))) \<and> p_closed (peer_at t i) \<and>
    event_ok t (Message i (Some (HAVE # m))) \<and> sess_step w' t (Message i (Some (HAVE # m))) = None"
proof -
  let ?s1 = "upd_peer s i (\<lambda>p. p\<lparr>p_lastReadTime := Some (w_now w)\<rparr>)"
  let ?s2 = "upd_peer ?s1 i (\<lambda>p. p\<lparr>p_have := None\<rparr>)"
  have l: "i < length (s_heap ?s1)" "i < length (s_heap ?s2)" using assms(2) by (simp_all add: upd_peer_def)
  have n: "s_totalPieces ?s1 = s_totalPieces s" by (simp add: upd_peer_def)
  have "doMessage w ?s1 i (Some (BITFIELD # payload)) = Some (?s2, Some Invalid_Bitfield)"
    by (simp add: doMessage_def generalMessage_def go_index_def msg_ids handleBitfield_def n assms(1) Let_def)
  then have "closePeerAndTryReconn w ?s2 i = Some t" using assms(7) by simp
  then have "\<exists>u. ClosePeer ?s2 i = Some u \<and> (if \<not> p_client (peer_at u i) then tryNewPeer w u else Some u) = Some t"
    by (simp add: closePeerAndTryReconn_def bind_eq_Some_conv)
  then obtain u where u: "ClosePeer ?s2 i = Some u"
    and t: "(if \<not> p_client (peer_at u i) then tryNewPeer w u else Some u) = Some t" by blast
  note c = ClosePeer_peer [OF u l(2)]
  have "p_client (peer_at u i)" using c(3) l assms(2,4) by (simp add: peerClose_def)
  then have tu: "t = u" using t by simp
  have ti: "i < length (s_heap t)" using c(1) l(2) tu by simp
  have p: "p_have (peer_at t i) = None" "p_closed (peer_at t i)" using c(3) l assms(2) tu by (simp_all add: peerClose_def)
  have en: "\<not> s_ended t" using c(2) assms(3) tu by (simp add: upd_peer_def)
  have "p_have (peer_at (upd_peer t i (\<lambda>p. p\<lparr>p_lastReadTime := Some (w_now w')\<rparr>)) i) = None" using p ti by simp
  moreover obtain n where "msg_u32 (HAVE # m) 1 = Some n"
  proof -
    obtain a b c d where "m = [a, b, c, d]"
      using assms(6) by (auto simp: numeral_eq_Suc length_Suc_conv)
    then show ?thesis using that by (simp add: msg_u32_def)
  qed
  ultimately have "doMessage w' (upd_peer t i (\<lambda>p. p\<lparr>p_lastReadTime := Some (w_now w')\<rparr>)) i (Some (HAVE # m)) = None"
    using assms(6) by (simp add: doMessage_def generalMessage_def go_index_def msg_ids handleHave_def)
  then have "sess_step w' t (Message i (Some (HAVE # m))) = None" by simp
  moreover have "length m + 1 \<le> maxBlockLen" using assms(6) by (simp add: maxBlockLen_def)
  ultimately show ?thesis using assms(2,3,5) ti en p by simp
qed


text \<open>The peer of the example is a downstream node: two bytes are not a piece map of three pieces.\<close>

theorem bad_bitfield_then_panic_witness:
  "\<exists>t. sess_step ex_world ex_seed (Message 0 (Some (BITFIELD # [1, 2]))) = Some t \<and>
    sess_step ex_world t (Message 0 (Some (HAVE # [0, 0, 0, 1]))) = None"
proof -
  have b: "NewBitsetFromBytes (s_totalPieces ex_seed) [1, 2] = Some None"
    by (simp add: ex_views NewBitsetFromBytes_def NewBitset_def go_make_def go_div_def go_index_def)
  have h: "0 < length (s_heap ex_seed)" "\<not> s_ended ex_seed" "p_client (peer_at ex_seed 0)"
    using ex_views by (simp_all add: peer_at_def ex_peer_def newPeer_def) (simp add: ex_seed_def NewTaskSession_def)
  have "\<exists>t. sess_step ex_world ex_seed (Message 0 (Some (BITFIELD # [1, 2]))) = Some t"
    using b ex_views
    by (simp add: doMessage_def generalMessage_def go_index_def msg_ids handleBitfield_def Let_def
        closePeerAndTryReconn_def ClosePeer_def removeRequests_def upd_peer_def peer_at_def)
      (simp add: ex_peer_def newPeer_def peerClose_def)
  then obtain t where t: "sess_step ex_world ex_seed (Message 0 (Some (BITFIELD # [1, 2]))) = Some t" by blast
  have l: "length [1, 2 :: byte] < maxBlockLen" "length [0, 0, 0, 1 :: byte] = 4" by (simp_all add: maxBlockLen_def)
  show ?thesis using bad_bitfield_then_panic [OF b h l t] t by blast
qed

text \<open>C26: Closing a peer removes from the map of peers whatever is registered at its address: after a
  node has reconnected from the same address, a late message of the old connection makes the
  session forget the new one, which stays open.\<close>

theorem stale_close_forgets_new_peer:
  assumes "ClosePeer s i = Some t" "i < length (s_heap s)" "j < length (s_heap s)" "i \<noteq> j"
    and "map_of (s_peers s) (p_address (peer_at s i)) = Some j" "\<not> p_closed (peer_at s j)"
  shows "map_of (s_peers t) (p_address (peer_at s i)) = None \<and> p_closed (peer_at t i) \<and> \<not> p_closed (peer_at t j)"
proof -
  note c = ClosePeer_peer [OF assms(1,2)]
  have "map_of (s_peers t) (p_address (peer_at s i)) = None"
    by (subst c(4)) (simp add: delete_conv')
  moreover have "peer_at t j = peer_at s j"
  proof -
    obtain u where u: "removeKeys (upd_peer s i peerClose) (map fst (p_ourRequests (peer_at (upd_peer s i peerClose) i))) = Some u"
      and t: "s_heap t = s_heap (upd_peer u i (\<lambda>p. p\<lparr>p_ourRequests := []\<rparr>))"
      using assms(1) by (auto simp: ClosePeer_def removeRequests_def bind_eq_Some_conv)
    show ?thesis using removeKeys_heap [OF u] assms(4) by (simp add: t peer_at_def upd_peer_def)
  qed
  ultimately show ?thesis using c(3) assms(6) by (simp add: peerClose_def)
qed

theorem stale_close_forgets_new_peer_witness:
  "\<exists>t. ClosePeer (ex_seed\<lparr>s_heap := [ex_peer, ex_peer], s_peers := [(''c'', 1)]\<rparr>) 0 = Some t \<and>
    map_of (s_peers t) ''c'' = None \<and> \<not> p_closed (peer_at t 1)"
proof -
  let ?s = "ex_seed\<lparr>s_heap := [ex_peer, ex_peer], s_peers := [(''c'', 1)]\<rparr>"
  have p: "p_address ex_peer = ''c''" "\<not> p_closed ex_peer" "p_ourRequests ex_peer = []"
    by (simp_all add: ex_peer_def newPeer_def)
  have "\<exists>t. ClosePeer ?s 0 = Some t"
    by (simp add: ClosePeer_def removeRequests_def upd_peer_def peer_at_def peerClose_def p)
  then obtain t where t: "ClosePeer ?s 0 = Some t" by blast
  have "map_of (s_peers t) (p_address (peer_at ?s 0)) = None \<and> p_closed (peer_at t 0) \<and> \<not> p_closed (peer_at t 1)"
    by (rule stale_close_forgets_new_peer [OF t]) (simp_all add: peer_at_def p)
  then show ?thesis using t by (auto simp: peer_at_def p)
qed

text \<open>One round of keep-alives: which peers it closes, and what it does to the others.\<close>

definition timed_out :: "world \<Rightarrow> session \<Rightarrow> nat \<Rightarrow> bool" where
  "timed_out w s i \<longleftrightarrow> time_Second (p_lastReadTime (peer_at s i)) \<noteq> 0 \<and>
     (case p_lastReadTime (peer_at s i) of None \<Rightarrow> True | Some t \<Rightarrow> w_now w - t > seconds 180)"

fun ticks :: "world list \<Rightarrow> session \<Rightarrow> session option" where
  "ticks [] s = Some s"
| "ticks (w # ws) s = do { s \<leftarrow> sess_step w s Keep_Alive_Tick; ticks ws s }"

lemma removeRequest_views: "removeRequest s p b = Some t \<Longrightarrow> s_heap t = s_heap s \<and> s_peers t = s_peers s"
  by (auto simp: removeRequest_def set_active_def bind_eq_Some_conv split: option.splits if_splits)

lemma removeKeys_peers: "removeKeys s ks = Some t \<Longrightarrow> s_peers t = s_peers s"
  by (induction ks arbitrary: s) (auto simp: bind_eq_Some_conv dest!: removeRequest_views)

lemma checkRequestKeys_views:
  "checkRequestKeys now s ks = Some t \<Longrightarrow> s_heap t = s_heap s \<and> s_peers t = s_peers s"
  by (induction now s ks rule: checkRequestKeys.induct)
    (fastforce simp: bind_eq_Some_conv split: if_splits dest: removeRequest_views)+

lemma ClosePeer_views:
  assumes "ClosePeer s i = Some t" "i < length (s_heap s)"
  shows "s_heap t = (s_heap s)[i := (peerClose (peer_at s i))\<lparr>p_ourRequests := []\<rparr>]"
    "s_peers t = AList.delete (p_address (peer_at s i)) (s_peers s)"
proof -
  obtain u where u: "removeKeys (upd_peer s i peerClose) (map fst (p_ourRequests (peer_at (upd_peer s i peerClose) i))) = Some u"
    and t: "t = (upd_peer u i (\<lambda>p. p\<lparr>p_ourRequests := []\<rparr>))\<lparr>s_peers := AList.delete
      (p_address (peer_at (upd_peer u i (\<lambda>p. p\<lparr>p_ourRequests := []\<rparr>)) i))
      (s_peers (upd_peer u i (\<lambda>p. p\<lparr>p_ourRequests := []\<rparr>)))\<rparr>"
    using assms(1) by (auto simp: ClosePeer_def removeRequests_def bind_eq_Some_conv)
  have h: "s_heap u = (s_heap s)[i := peerClose (peer_at s i)]" "s_peers u = s_peers s"
    using removeKeys_heap [OF u] removeKeys_peers [OF u] by (simp_all add: upd_peer_def)
  show "s_heap t = (s_heap s)[i := (peerClose (peer_at s i))\<lparr>p_ourRequests := []\<rparr>]"
    "s_peers t = AList.delete (p_address (peer_at s i)) (s_peers s)"
    using h assms(2) by (simp_all add: t upd_peer_def peer_at_def peerClose_def)
qed

lemma keepAlive_views [simp]:
  "p_address (keepAlive p) = p_address p" "p_closed (keepAlive p) = p_closed p"
  "p_lastReadTime (keepAlive p) = p_lastReadTime p" "p_ourRequests (keepAlive p) = p_ourRequests p"
  by (simp_all add: keepAlive_def sendMessage_def)

lemma peersKeepAlive_ConsE:
  assumes "peersKeepAlive w s (j # is) = Some t" "j < length (s_heap s)"
  obtains s' where "peersKeepAlive w s' is = Some t"
    "s_heap s' = (s_heap s)[j := if timed_out w s j then (peerClose (peer_at s j))\<lparr>p_ourRequests := []\<rparr>
      else keepAlive (peer_at s j)]"
    "s_peers s' = (if timed_out w s j then AList.delete (p_address (peer_at s j)) (s_peers s) else s_peers s)"
proof (cases "timed_out w s j")
  case True
  then obtain s' where s': "ClosePeer s j = Some s'" and k: "peersKeepAlive w s' is = Some t"
    using assms(1) unfolding timed_out_def by (auto simp: Let_def bind_eq_Some_conv)
  show ?thesis using that [OF k] ClosePeer_views [OF s' assms(2)] True by simp
next
  case False
  then obtain u s' where u: "doCheckRequests w s j = Some u" and s': "send_peer w u j keepAlive = Some s'"
    and k: "peersKeepAlive w s' is = Some t"
    using assms(1) unfolding timed_out_def by (auto simp: Let_def bind_eq_Some_conv)
  have "s_heap u = s_heap s" "s_peers u = s_peers s"
    using checkRequestKeys_views [OF u [unfolded doCheckRequests_def]] by simp_all
  then show ?thesis using that [OF k] s' False
    by (auto simp: send_peer_def upd_peer_def peer_at_def split: if_splits)
qed

lemma peersKeepAlive_kept:
  assumes "peersKeepAlive w s is = Some t" "\<forall>j \<in> set is. j < length (s_heap s)"
    and "\<forall>j \<in> set is. j \<noteq> i \<longrightarrow> p_address (peer_at s j) \<noteq> a" "i < length (s_heap s)"
    and "map_of (s_peers s) a = Some i" "\<not> timed_out w s i"
  shows "map_of (s_peers t) a = Some i \<and> p_closed (peer_at t i) = p_closed (peer_at s i) \<and>
    p_lastReadTime (peer_at t i) = p_lastReadTime (peer_at s i)"
  using assms
proof (induction "is" arbitrary: s)
  case (Cons j js)
  have j: "j < length (s_heap s)" using Cons.prems(2) by simp
  obtain s' where k: "peersKeepAlive w s' js = Some t"
    and h: "s_heap s' = (s_heap s)[j := if timed_out w s j then (peerClose (peer_at s j))\<lparr>p_ourRequests := []\<rparr>
      else keepAlive (peer_at s j)]"
    and q: "s_peers s' = (if timed_out w s j then AList.delete (p_address (peer_at s j)) (s_peers s) else s_peers s)"
    by (rule peersKeepAlive_ConsE [OF Cons.prems(1) j])
  have v: "p_address (peer_at s' x) = p_address (peer_at s x)" for x
    using h j by (simp add: peer_at_def nth_list_update peerClose_def)
  have i: "p_closed (peer_at s' i) = p_closed (peer_at s i)" "p_lastReadTime (peer_at s' i) = p_lastReadTime (peer_at s i)"
    using h j Cons.prems(6) by (auto simp: peer_at_def nth_list_update)
  have m: "map_of (s_peers s') a = Some i"
    using q Cons.prems(3,5,6) by (auto simp: delete_conv')
  have "\<not> timed_out w s' i" using i Cons.prems(6) by (simp add: timed_out_def)
  then show ?case using Cons.IH [OF k] Cons.prems(2,3,4) h v m i by simp
qed simp

lemma peersKeepAlive_closed:
  assumes "peersKeepAlive w s is = Some t" "\<forall>j \<in> set is. j < length (s_heap s)" "i < length (s_heap s)"
    and "p_address (peer_at s i) = a" "(i \<in> set is \<and> timed_out w s i) \<or> (p_closed (peer_at s i) \<and> map_of (s_peers s) a = None)"
  shows "map_of (s_peers t) a = None \<and> p_closed (peer_at t i)"
  using assms
proof (induction "is" arbitrary: s)
  case (Cons j js)
  have j: "j < length (s_heap s)" using Cons.prems(2) by simp
  obtain s' where k: "peersKeepAlive w s' js = Some t"
    and h: "s_heap s' = (s_heap s)[j := if timed_out w s j then (peerClose (peer_at s j))\<lparr>p_ourRequests := []\<rparr>
      else keepAlive (peer_at s j)]"
    and q: "s_peers s' = (if timed_out w s j then AList.delete (p_address (peer_at s j)) (s_peers s) else s_peers s)"
    by (rule peersKeepAlive_ConsE [OF Cons.prems(1) j])
  have v: "p_address (peer_at s' i) = a"
    using h j Cons.prems(4) by (simp add: peer_at_def nth_list_update peerClose_def)
  have "(i \<in> set js \<and> timed_out w s' i) \<or> (p_closed (peer_at s' i) \<and> map_of (s_peers s') a = None)"
  proof (cases "p_closed (peer_at s i) \<and> map_of (s_peers s) a = None")
    case True
    then have "p_closed (peer_at s' i)" using h j by (simp add: peer_at_def nth_list_update peerClose_def)
    then show ?thesis using True q by (simp add: delete_conv')
  next
    case False
    then have to: "i \<in> set (j # js)" "timed_out w s i" using Cons.prems(5) by blast+
    show ?thesis
    proof (cases "i = j")
      case True
      then have "p_closed (peer_at s' i)" "map_of (s_peers s') a = None"
        using to h q j Cons.prems(4) by (simp_all add: peer_at_def peerClose_def delete_conv')
      then show ?thesis by simp
    next
      case False
      then have "peer_at s' i = peer_at s i" using h by (simp add: peer_at_def)
      then show ?thesis using to False by (simp add: timed_out_def)
    qed
  qed
  then show ?case using Cons.IH [OF k] Cons.prems(2,3) h v by simp
qed simp

definition still_idle :: "session \<Rightarrow> session \<Rightarrow> bool" where
  "still_idle s t \<longleftrightarrow> set (s_peers t) \<subseteq> set (s_peers s) \<and> length (s_heap t) = length (s_heap s) \<and>
     (\<forall>x. p_ourRequests (peer_at s x) = [] \<longrightarrow> p_ourRequests (peer_at t x) = [])"

lemma still_idle_trans: "still_idle s t \<Longrightarrow> still_idle t u \<Longrightarrow> still_idle s u"
  by (auto simp: still_idle_def)

lemma ClosePeer_idle:
  assumes "j < length (s_heap s)" "p_ourRequests (peer_at s j) = []"
  shows "\<exists>t. ClosePeer s j = Some t \<and> still_idle s t"
proof -
  have "removeRequests (upd_peer s j peerClose) j =
      Some (upd_peer (upd_peer s j peerClose) j (\<lambda>p. p\<lparr>p_ourRequests := []\<rparr>))"
    using assms by (simp add: removeRequests_def peerClose_def)
  then obtain t where t: "ClosePeer s j = Some t" by (simp add: ClosePeer_def)
  have "set (s_peers t) \<subseteq> set (s_peers s)" unfolding ClosePeer_views(2) [OF t assms(1)] by (auto simp: AList.delete_eq)
  then have "still_idle s t"
    using ClosePeer_views(1) [OF t assms(1)] assms(1) by (simp add: still_idle_def peer_at_def nth_list_update)
  then show ?thesis using t by blast
qed

lemma keepAlive_idle: "j < length (s_heap s) \<Longrightarrow> still_idle s (upd_peer s j keepAlive)"
  by (simp add: still_idle_def upd_peer_def peer_at_def nth_list_update)

lemma peersKeepAlive_returns:
  assumes "\<forall>j \<in> set is. j < length (s_heap s) \<and> p_ourRequests (peer_at s j) = [] \<and> w_writes w j"
  shows "\<exists>t. peersKeepAlive w s is = Some t \<and> still_idle s t"
  using assms
proof (induction "is" arbitrary: s)
  case Nil
  then show ?case by (simp add: still_idle_def)
next
  case (Cons j js)
  have j: "j < length (s_heap s)" "p_ourRequests (peer_at s j) = []" "w_writes w j" using Cons.prems by simp_all
  obtain s' where s': "peersKeepAlive w s (j # js) = peersKeepAlive w s' js" "still_idle s s'"
  proof (cases "timed_out w s j")
    case True
    obtain s' where c: "ClosePeer s j = Some s'" "still_idle s s'" using ClosePeer_idle [OF j(1,2)] by blast
    have "peersKeepAlive w s (j # js) = peersKeepAlive w s' js"
      using True c(1) unfolding timed_out_def by (simp add: Let_def)
    then show ?thesis using that c(2) by blast
  next
    case False
    have "peersKeepAlive w s (j # js) = peersKeepAlive w (upd_peer s j keepAlive) js"
      using False j unfolding timed_out_def by (auto simp: Let_def doCheckRequests_def send_peer_def)
    then show ?thesis using that keepAlive_idle [OF j(1)] by blast
  qed
  have "\<forall>j \<in> set js. j < length (s_heap s') \<and> p_ourRequests (peer_at s' j) = [] \<and> w_writes w j"
    using Cons.prems s'(2) by (simp add: still_idle_def)
  from Cons.IH [OF this] obtain t where "peersKeepAlive w s' js = Some t" "still_idle s' t" by blast
  then show ?case using s' still_idle_trans by (simp only:) blast
qed

lemma registered_at:
  assumes "sess_inv s" "j \<in> set (map snd (s_peers s))"
  shows "j < length (s_heap s) \<and> map_of (s_peers s) (p_address (peer_at s j)) = Some j"
proof -
  have p: "peers_inv s" using assms(1) by (simp add: sess_inv_def)
  obtain b where "(b, j) \<in> set (s_peers s)" using assms(2) by auto
  then have "map_of (s_peers s) b = Some j" using p by (simp add: peers_inv_def)
  then show ?thesis using p by (auto simp: peers_inv_def)
qed

lemma keep_alive_tick:
  assumes "world_ok w" "sess_inv s" "sess_step w s Keep_Alive_Tick = Some t"
  obtains s0 "is" where "peersKeepAlive w s0 is = Some t" "s_heap s0 = s_heap s" "s_peers s0 = s_peers s"
    "set is = set (map snd (s_peers s))" "sess_inv t"
proof -
  define s0 where "s0 = (if sess_timeout w s then s\<lparr>s_stopSess := s_stopSess s @ [s_taskID s]\<rparr> else s)"
  have v: "s_heap s0 = s_heap s" "s_peers s0 = s_peers s" by (simp_all add: s0_def)
  have k: "peersKeepAlive w s0 (w_ids w (map snd (s_peers s0))) = Some t"
    using assms(3) by (simp add: s0_def Let_def)
  have "set (w_ids w (map snd (s_peers s0))) = set (map snd (s_peers s))"
    using assms(1) unfolding v world_ok_def by (metis mset_eq_setD)
  moreover have "safe s s0" using safe_fields(4) by (simp add: s0_def)
  then have "sess_inv t" using safe_peersKeepAlive [OF k] assms(2) by (simp add: safe_def)
  ultimately show ?thesis using that k v by blast
qed

lemma ticks_kept:
  assumes "ticks ws s = Some t" "\<forall>w \<in> set ws. world_ok w" "sess_inv s" "map_of (s_peers s) a = Some i"
    and "p_lastReadTime (peer_at s i) = Some u" "u div 1000000000 mod 60 = 0"
  shows "map_of (s_peers t) a = Some i \<and> p_closed (peer_at t i) = p_closed (peer_at s i) \<and>
    p_lastReadTime (peer_at t i) = Some u"
  using assms
proof (induction ws arbitrary: s)
  case (Cons w ws)
  obtain s' where s': "sess_step w s Keep_Alive_Tick = Some s'" and k: "ticks ws s' = Some t"
    using Cons.prems(1) by (auto simp: bind_eq_Some_conv simp del: sess_step.simps)
  obtain s0 "is" where r: "peersKeepAlive w s0 is = Some s'" "s_heap s0 = s_heap s" "s_peers s0 = s_peers s"
      "set is = set (map snd (s_peers s))" "sess_inv s'"
    using keep_alive_tick [OF _ Cons.prems(3) s'] Cons.prems(2) by (metis list.set_intros(1))
  have p: "peer_at s0 x = peer_at s x" for x using r(2) by (simp add: peer_at_def)
  have i: "i < length (s_heap s0)" "\<not> timed_out w s0 i"
    using Cons.prems(3-6) r(2) p by (auto simp: sess_inv_def peers_inv_def timed_out_def time_Second_def)
  have "\<forall>j \<in> set is. j < length (s_heap s0)" "\<forall>j \<in> set is. j \<noteq> i \<longrightarrow> p_address (peer_at s0 j) \<noteq> a"
    using registered_at [OF Cons.prems(3)] Cons.prems(4) r(2,4) p by fastforce+
  from peersKeepAlive_kept [OF r(1) this i(1) _ i(2)]
  have "map_of (s_peers s') a = Some i \<and> p_closed (peer_at s' i) = p_closed (peer_at s i) \<and>
      p_lastReadTime (peer_at s' i) = Some u" using Cons.prems(4,5) r(3) p by simp
  then show ?case using Cons.IH [OF k] Cons.prems(2,6) r(5) by simp
qed simp

lemma ticks_return:
  assumes "\<forall>w \<in> set ws. world_ok w \<and> (\<forall>j. w_writes w j)" "sess_inv s"
    and "\<forall>j \<in> set (map snd (s_peers s)). p_ourRequests (peer_at s j) = []"
  shows "\<exists>t. ticks ws s = Some t"
  using assms
proof (induction ws arbitrary: s)
  case (Cons w ws)
  define s0 where "s0 = (if sess_timeout w s then s\<lparr>s_stopSess := s_stopSess s @ [s_taskID s]\<rparr> else s)"
  have v: "s_heap s0 = s_heap s" "s_peers s0 = s_peers s" by (simp_all add: s0_def)
  have p: "peer_at s0 x = peer_at s x" for x using v by (simp add: peer_at_def)
  let ?is = "w_ids w (map snd (s_peers s0))"
  have w: "world_ok w" using Cons.prems(1) by simp
  have "set ?is = set (map snd (s_peers s))"
    using w unfolding v world_ok_def by (metis mset_eq_setD)
  then have "\<forall>j \<in> set ?is. j < length (s_heap s0) \<and> p_ourRequests (peer_at s0 j) = [] \<and> w_writes w j"
    using registered_at [OF Cons.prems(2)] Cons.prems(1,3) v p by simp
  from peersKeepAlive_returns [OF this] obtain t where t: "peersKeepAlive w s0 ?is = Some t"
    "set (s_peers t) \<subseteq> set (s_peers s)" "\<forall>x. p_ourRequests (peer_at s x) = [] \<longrightarrow> p_ourRequests (peer_at t x) = []"
    unfolding still_idle_def v p by blast
  have s: "sess_step w s Keep_Alive_Tick = Some t" using t(1) by (simp add: s0_def Let_def)
  have "sess_inv t" by (rule keep_alive_tick [OF w Cons.prems(2) s])
  moreover have "\<forall>j \<in> set (map snd (s_peers t)). p_ourRequests (peer_at t j) = []"
    using t(2,3) Cons.prems(3) by fastforce
  ultimately show ?case using Cons.IH [of t] Cons.prems(1) s by (simp del: sess_step.simps)
qed simp

text \<open>C27: The keep-alive check reads the second of the minute where it means the time: a registered peer
  whose last message arrived in the first second of a minute stays registered and open through
  any number of rounds of the timer, however late they come (and the rounds do return when no
  request is outstanding and the writers take the keep-alives); a peer whose last message
  arrived in any other second is closed and forgotten by the first round after three minutes.\<close>

theorem silent_peer_kept:
  assumes "sess_inv s" "map_of (s_peers s) a = Some i" "\<not> p_closed (peer_at s i)"
    and "p_lastReadTime (peer_at s i) = Some u"
  shows "(u div 1000000000 mod 60 = 0 \<longrightarrow>
      (\<forall>ws t. (\<forall>w \<in> set ws. world_ok w) \<and> ticks ws s = Some t \<longrightarrow>
        map_of (s_peers t) a = Some i \<and> \<not> p_closed (peer_at t i) \<and> p_lastReadTime (peer_at t i) = Some u)) \<and>
    ((\<forall>j \<in> set (map snd (s_peers s)). p_ourRequests (peer_at s j) = []) \<longrightarrow>
      (\<forall>ws. (\<forall>w \<in> set ws. world_ok w \<and> (\<forall>j. w_writes w j)) \<longrightarrow> (\<exists>t. ticks ws s = Some t))) \<and>
    (u div 1000000000 mod 60 \<noteq> 0 \<longrightarrow>
      (\<forall>w t. world_ok w \<and> 180000000000 < w_now w - u \<and> sess_step w s Keep_Alive_Tick = Some t \<longrightarrow>
        map_of (s_peers t) a = None \<and> p_closed (peer_at t i)))"
proof -
  have late: "map_of (s_peers t) a = None \<and> p_closed (peer_at t i)"
    if n: "u div 1000000000 mod 60 \<noteq> 0" and w: "world_ok w" "180000000000 < w_now w - u"
      and s: "sess_step w s Keep_Alive_Tick = Some t" for w t
  proof -
    obtain s0 "is" where r: "peersKeepAlive w s0 is = Some t" "s_heap s0 = s_heap s" "s_peers s0 = s_peers s"
        "set is = set (map snd (s_peers s))"
      using keep_alive_tick [OF w(1) assms(1) s] by metis
    have p: "peer_at s0 x = peer_at s x" for x using r(2) by (simp add: peer_at_def)
    have "snd (a, i) \<in> snd ` set (s_peers s)" by (rule imageI, rule map_of_SomeD [OF assms(2)])
    then have i: "i \<in> set is" unfolding r(4) by simp
    have to: "timed_out w s0 i"
      using assms(4) n w(2) by (simp add: timed_out_def time_Second_def seconds_def p)
    have l: "\<forall>j \<in> set is. j < length (s_heap s0)" using registered_at [OF assms(1)] r(2,4) by simp
    have "p_address (peer_at s0 i) = a" "i < length (s_heap s0)"
      using assms(1,2) unfolding p r(2) sess_inv_def peers_inv_def by blast+
    then show ?thesis using peersKeepAlive_closed [OF r(1) l] i to by simp
  qed
  show ?thesis
  proof (intro conjI impI allI)
    fix ws t
    assume "u div 1000000000 mod 60 = 0" "(\<forall>w \<in> set ws. world_ok w) \<and> ticks ws s = Some t"
    then have k: "map_of (s_peers t) a = Some i \<and> p_closed (peer_at t i) = p_closed (peer_at s i) \<and>
        p_lastReadTime (peer_at t i) = Some u"
      by (intro ticks_kept [of ws] assms(1,2,4)) simp_all
    show "map_of (s_peers t) a = Some i" "\<not> p_closed (peer_at t i)" "p_lastReadTime (peer_at t i) = Some u"
      using k assms(3) by simp_all
  next
    fix ws
    assume "\<forall>j \<in> set (map snd (s_peers s)). p_ourRequests (peer_at s j) = []"
      "\<forall>w \<in> set ws. world_ok w \<and> (\<forall>j. w_writes w j)"
    then show "\<exists>t. ticks ws s = Some t" using assms(1) by (intro ticks_return)
  next
    fix w t
    assume "u div 1000000000 mod 60 \<noteq> 0"
      "world_ok w \<and> 180000000000 < w_now w - u \<and> sess_step w s Keep_Alive_Tick = Some t"
    then show "map_of (s_peers t) a = None" "p_closed (peer_at t i)" using late by blast+
  qed
qed

text \<open>The peer of the example was last heard 60 s after the epoch; three rounds run eleven days later.\<close>

theorem silent_peer_kept_witness:
  "\<exists>t. ticks (replicate 3 (ex_world\<lparr>w_now := 10 ^ 15\<rparr>))
      (upd_peer ex_seed 0 (\<lambda>p. p\<lparr>p_lastReadTime := Some 60000000000\<rparr>)) = Some t \<and>
    map_of (s_peers t) ''c'' = Some 0 \<and> \<not> p_closed (peer_at t 0)"
proof -
  let ?f = "\<lambda>p. p\<lparr>p_lastReadTime := Some 60000000000\<rparr>"
  let ?s = "upd_peer ex_seed 0 ?f"
  let ?ws = "replicate 3 (ex_world\<lparr>w_now := 10 ^ 15\<rparr>)"
  have "safe ex_seed ?s" by (rule safe_upd_peer) (simp add: keeps_peer_def peer_ok_def)
  then have i: "sess_inv ?s" using ex_inv by (simp add: safe_def)
  have p: "s_peers ?s = [(''c'', 0)]" "peer_at ?s 0 = ?f ex_peer"
    using ex_views by (simp_all add: upd_peer_def peer_at_def) (simp add: ex_seed_def)
  have q: "\<not> p_closed (?f ex_peer)" "p_ourRequests (?f ex_peer) = []" by (simp_all add: ex_peer_def newPeer_def)
  have w: "\<forall>w \<in> set ?ws. world_ok w \<and> (\<forall>j. w_writes w j)" by (simp add: world_ok_def ex_world_def)
  have h: "map_of (s_peers ?s) ''c'' = Some 0" "p_lastReadTime (peer_at ?s 0) = Some 60000000000" "\<not> p_closed (peer_at ?s 0)"
    unfolding p by (simp_all add: q)
  note k = silent_peer_kept [OF i h(1,3,2)]
  have "\<forall>j \<in> set (map snd (s_peers ?s)). p_ourRequests (peer_at ?s j) = []" using p q by simp
  then obtain t where t: "ticks ?ws ?s = Some t"
    using k [THEN conjunct2, THEN conjunct1, THEN mp, THEN spec [of _ ?ws], THEN mp, OF _ w] by blast
  have "(60000000000 :: int) div 1000000000 mod 60 = 0" by simp
  from k [THEN conjunct1, THEN mp, OF this, THEN spec [of _ ?ws], THEN spec [of _ t], THEN mp] w t
  have "map_of (s_peers t) ''c'' = Some 0 \<and> \<not> p_closed (peer_at t 0)" by blast
  then show ?thesis using t by blast
qed

end
