(* ===== verification/Download.thy ===== *)
theory Download
  imports SessionClaims
begin

text \<open>
  Progress of a download.  The safety theorems say what a step keeps when it succeeds; here
  every part of a step is shown to succeed for a client whose one peer has all pieces, and the
  event loops of the two nodes, run against each other, finish the download.  The piece length
  is \<open>standardBlockLen\<close>, which is what \<open>choosePieceLength\<close> starts from, so that a piece is
  one block.
\<close>

section \<open>The parts of a step that succeed\<close>

definition full :: "int \<Rightarrow> bitset \<Rightarrow> bool" where
  "full n h \<longleftrightarrow> bs_n h = n \<and> (\<forall>j. 0 \<le> j \<and> j < n \<longrightarrow> IsSet h j = Some True)"

lemma checkRangeLoop_finds:
  "\<forall>j. i \<le> j \<and> j < i + int k \<longrightarrow> IsSet b j \<noteq> None \<and> IsSet h j = Some True \<Longrightarrow> 0 \<le> i \<Longrightarrow>
   \<exists>p. checkRangeLoop [] h b i k = Some p \<and>
     (p = -1 \<and> (\<forall>j. i \<le> j \<and> j < i + int k \<longrightarrow> IsSet b j = Some True) \<or>
      i \<le> p \<and> p < i + int k \<and> IsSet b p = Some False)"
proof (induction k arbitrary: i)
  case (Suc k)
  have r: "\<forall>j. i + 1 \<le> j \<and> j < i + 1 + int k \<longrightarrow> IsSet b j \<noteq> None \<and> IsSet h j = Some True"
    using Suc.prems(1) by simp
  have i: "IsSet b i \<noteq> None" "IsSet h i = Some True" using Suc.prems(1) by simp_all
  then obtain m where m: "IsSet b i = Some m" by blast
  show ?case
  proof (cases m)
    case False
    then show ?thesis using m i(2) by (intro exI [of _ i]) simp
  next
    case True
    obtain p where p: "checkRangeLoop [] h b (i + 1) k = Some p"
      "p = -1 \<and> (\<forall>j. i + 1 \<le> j \<and> j < i + 1 + int k \<longrightarrow> IsSet b j = Some True) \<or>
        i + 1 \<le> p \<and> p < i + 1 + int k \<and> IsSet b p = Some False"
      using Suc.IH [OF r] Suc.prems(2) by auto
    have "\<forall>j. i \<le> j \<and> j < i + int (Suc k) \<longrightarrow> j = i \<or> i + 1 \<le> j \<and> j < i + 1 + int k" by auto
    then show ?thesis using p True m by (intro exI [of _ p]) auto
  qed
qed auto

lemma checkRange_finds:
  assumes "sess_inv s" "s_activePieces s = []" "p_have (peer_at s i) = Some h" "full (s_totalPieces s) h"
    and "0 \<le> lo" "lo \<le> hi" "hi \<le> s_totalPieces s"
  shows "\<exists>p. sess_checkRange s i lo hi = Some p \<and>
    (p = -1 \<and> (\<forall>j. lo \<le> j \<and> j < hi \<longrightarrow> nat j \<in> pset s) \<or> lo \<le> p \<and> p < hi \<and> nat p \<notin> pset s)"
proof -
  obtain b where b: "s_pieceSet s = Some b" "wf_bitset b" "Len b = int (npieces s)"
    using assms(1) by (auto simp: sess_inv_def store_inv_def)
  have tp: "s_totalPieces s = int (npieces s)" using assms(1) unfolding sess_inv_def store_inv_def by blast
  have mem: "IsSet b j = Some (nat j \<in> pset s)" if "0 \<le> j" "j < s_totalPieces s" for j
    using bs.member [OF b(2), of "nat j"] that b(1,3) tp by (simp add: pset_def)
  have c: "min_int hi (min_int (bs_n h) (bs_n b)) = hi"
    using assms(4,7) b(3) tp by (simp add: min_int_def full_def Len_def)
  have "\<forall>j. lo \<le> j \<and> j < lo + int (nat (hi - lo)) \<longrightarrow> IsSet b j \<noteq> None \<and> IsSet h j = Some True"
    using assms(4-7) mem by (simp add: full_def)
  then obtain p where "checkRangeLoop [] h b lo (nat (hi - lo)) = Some p"
    "p = -1 \<and> (\<forall>j. lo \<le> j \<and> j < lo + int (nat (hi - lo)) \<longrightarrow> IsSet b j = Some True) \<or>
      lo \<le> p \<and> p < lo + int (nat (hi - lo)) \<and> IsSet b p = Some False"
    using checkRangeLoop_finds [of lo "nat (hi - lo)" b h] assms(5) by blast
  then show ?thesis
    using assms(5-7) mem unfolding sess_checkRange_def assms(2,3) b(1)
    by (intro exI [of _ p]) (auto simp: c Let_def)
qed

lemma choosePiece_finds:
  assumes "sess_inv s" "world_ok w" "s_activePieces s = []" "p_have (peer_at s i) = Some h" "full (s_totalPieces s) h"
    and "0 < s_totalPieces s"
  shows "\<exists>p. choosePiece w call s i = Some p \<and>
    (p = -1 \<and> pset s = {0..<npieces s} \<or> 0 \<le> p \<and> p < s_totalPieces s \<and> nat p \<notin> pset s)"
proof -
  let ?n = "s_totalPieces s" and ?st = "w_intn w call (s_totalPieces s)"
  have st: "0 \<le> ?st" "?st < ?n" using assms(2,6) by (simp_all add: world_ok_def)
  have tp: "?n = int (npieces s)" and sub: "pset s \<subseteq> {0..<npieces s}"
    using assms(1) by (auto simp: sess_inv_def store_inv_def good_pieces_def)
  obtain p where p: "sess_checkRange s i ?st ?n = Some p"
    "p = -1 \<and> (\<forall>j. ?st \<le> j \<and> j < ?n \<longrightarrow> nat j \<in> pset s) \<or> ?st \<le> p \<and> p < ?n \<and> nat p \<notin> pset s"
    using checkRange_finds [OF assms(1,3-5) st(1), of ?n] st(2) by auto
  obtain q where q: "sess_checkRange s i 0 ?st = Some q"
    "q = -1 \<and> (\<forall>j. 0 \<le> j \<and> j < ?st \<longrightarrow> nat j \<in> pset s) \<or> 0 \<le> q \<and> q < ?st \<and> nat q \<notin> pset s"
    using checkRange_finds [OF assms(1,3-5), of 0 ?st] st by auto
  show ?thesis
  proof (cases "p = -1")
    case False
    then show ?thesis using p st assms(6) by (intro exI [of _ p]) (auto simp: choosePiece_def Let_def)
  next
    case True
    then have c: "choosePiece w call s i = Some q" using p(1) q(1) assms(6) by (simp add: choosePiece_def Let_def)
    have "pset s = {0..<npieces s}" if "q = -1"
    proof -
      have "j \<in> pset s" if "j < npieces s" for j
      proof -
        have "int j < ?n" using that tp by simp
        moreover have "\<forall>j. ?st \<le> j \<and> j < ?n \<longrightarrow> nat j \<in> pset s" "\<forall>j. 0 \<le> j \<and> j < ?st \<longrightarrow> nat j \<in> pset s"
          using True p(2) q(2) \<open>q = -1\<close> st by auto
        ultimately have "nat (int j) \<in> pset s" by (metis not_le of_nat_0_le_iff)
        then show ?thesis by simp
      qed
      then show ?thesis using sub by auto
    qed
    then show ?thesis using c q(2) st by (intro exI [of _ q]) auto
  qed
qed

text \<open>One block per piece, as in the deployed configuration: the request asks for the piece.\<close>

lemma small_piece:
  assumes "store_inv s" "pieceLen s = standardBlockLen" "0 \<le> k" "k < s_totalPieces s"
  shows "0 < sess_pieceLength s k" "sess_pieceLength s k \<le> standardBlockLen"
    "sess_pieceLength s k = int (length (piece_bytes (sess_contents s) (plen s) (nat k)))"
    "block_len s k 0 = sess_pieceLength s k" "block_count (nat (sess_pieceLength s k)) = 1"
proof -
  let ?c = "sess_contents s" and ?P = "plen s"
  have P: "0 < pieceLen s" and tp: "s_totalPieces s = int (npieces s)"
    and last: "s_lastPieceLength s = (if ?c = [] then pieceLen s else int (length ?c - (npieces s - 1) * ?P))"
    using assms(1) unfolding store_inv_def by blast+
  have kn: "nat k < npieces s" using assms(3,4) tp by linarith
  have P': "0 < ?P" using P by simp
  have kl: "nat k * ?P < length ?c" using kn piece_count_less [OF P'] by simp
  then have ne: "?c \<noteq> []" by auto
  have len: "length (piece_bytes ?c ?P (nat k)) = min ?P (length ?c - nat k * ?P)" by (rule length_piece_bytes)
  have eq: "sess_pieceLength s k = int (min ?P (length ?c - nat k * ?P))"
  proof (cases "k < s_totalPieces s - 1")
    case True
    then have "Suc (nat k) < npieces s" using assms(3) tp by linarith
    then have "Suc (nat k) * ?P < length ?c" using piece_count_less [OF P'] by blast
    then have "?P \<le> length ?c - nat k * ?P" by simp
    then show ?thesis using True P by (simp add: sess_pieceLength_def min_def)
  next
    case False
    then have "nat k = npieces s - 1" using kn assms(3) tp by linarith
    moreover have "length ?c - nat k * ?P \<le> ?P"
    proof (rule ccontr)
      assume "\<not> length ?c - nat k * ?P \<le> ?P"
      then have "Suc (nat k) * ?P < length ?c" using P' by simp
      then have "Suc (nat k) < npieces s" using piece_count_less [OF P'] by blast
      then show False using \<open>nat k = npieces s - 1\<close> by simp
    qed
    ultimately show ?thesis using False last ne by (simp add: sess_pieceLength_def)
  qed
  show "sess_pieceLength s k = int (length (piece_bytes ?c ?P (nat k)))" using eq len by simp
  show pos: "0 < sess_pieceLength s k" using eq kl P' by simp
  have "int (min ?P (length ?c - nat k * ?P)) \<le> int ?P" by (simp only: of_nat_le_iff min.cobounded1)
  moreover have "int ?P = standardBlockLen" using assms(2) by (simp add: standardBlockLen_def)
  ultimately show le: "sess_pieceLength s k \<le> standardBlockLen" using eq by linarith
  show "block_len s k 0 = sess_pieceLength s k"
    using le assms(2,4) by (auto simp: block_len_def sess_pieceLength_def)
  have "0 < block_count (nat (sess_pieceLength s k))"
    using block_start [of 0 "nat (sess_pieceLength s k)"] pos by simp
  moreover have "\<not> 1 < block_count (nat (sess_pieceLength s k))"
    using block_start [of 1 "nat (sess_pieceLength s k)"] le pos by simp
  ultimately show "block_count (nat (sess_pieceLength s k)) = 1" by simp
qed

text \<open>The state after a successful request for piece \<open>k\<close>.\<close>

definition asked :: "world \<Rightarrow> session \<Rightarrow> nat \<Rightarrow> int \<Rightarrow> session" where
  "asked w s i k = upd_peer (set_active s k \<lparr>ap_downloaderCount = [1], ap_pieceLength = sess_pieceLength s k\<rparr>) i
     (\<lambda>p. SendRequest p (w_now w) k 0 (sess_pieceLength s k))"

lemma requestBlock_finds:
  assumes "sess_inv s" "world_ok w" "s_activePieces s = []" "p_have (peer_at s i) = Some h" "full (s_totalPieces s) h"
    and "pieceLen s = standardBlockLen" "0 < s_totalPieces s" "w_writes w i"
  shows "(pset s = {0..<npieces s} \<and> requestBlock w call s i = Some (s, None)) \<or>
    (\<exists>k. 0 \<le> k \<and> k < s_totalPieces s \<and> nat k \<notin> pset s \<and> requestBlock w call s i = Some (asked w s i k, None))"
proof -
  have keys: "w_keys w n [] = []" for n
    using assms(2) by (simp add: world_ok_def) (metis mset_zero_iff mset.simps(1))
  obtain p where p: "choosePiece w call s i = Some p"
    "p = -1 \<and> pset s = {0..<npieces s} \<or> 0 \<le> p \<and> p < s_totalPieces s \<and> nat p \<notin> pset s"
    using choosePiece_finds [OF assms(1-5,7)] by blast
  show ?thesis
  proof (cases "p = -1")
    case True
    then show ?thesis using p by (simp add: requestBlock_def assms(3) keys)
  next
    case False
    then have k: "0 \<le> p" "p < s_totalPieces s" "nat p \<notin> pset s" using p(2) by auto
    have st: "store_inv s" using assms(1) by (simp add: sess_inv_def)
    note sp = small_piece [OF st assms(6) k(1,2)]
    have a: "NewActivePiece (sess_pieceLength s p) = Some \<lparr>ap_downloaderCount = [0], ap_pieceLength = sess_pieceLength s p\<rparr>"
      using NewActivePiece_eq [of "nat (sess_pieceLength s p)"] sp(1,5) by simp
    have sa: "map_of (s_activePieces (set_active s p x)) p = Some x" "set_active (set_active s p x) p y = set_active s p y"
      for x y by (simp_all add: set_active_def assms(3))
    have bl: "block_len (set_active s p x) p 0 = sess_pieceLength s p" for x
      by (subst sp(4) [symmetric]) (simp add: block_len_def set_active_def)
    have "requestBlock2 w (set_active s p \<lparr>ap_downloaderCount = [0], ap_pieceLength = sess_pieceLength s p\<rparr>) i p False =
        Some (asked w s i p, None)"
      using assms(3,8)
      by (simp add: requestBlock2_def chooseBlockToDownload_def chooseBlockToDownloadNormal_def
          requestBlockImp_eq send_peer_def asked_def bl sa Let_def)
    then have "requestBlock w call s i = Some (asked w s i p, None)"
      using k(1) p(1) by (simp add: requestBlock_def assms(3) keys a)
    then show ?thesis using k by blast
  qed
qed

text \<open>What the announcement of a piece leaves alone: everything but the outgoing messages.\<close>

definition quiet :: "session \<Rightarrow> session \<Rightarrow> bool" where
  "quiet s t \<longleftrightarrow> core t = core s \<and> s_activePieces t = s_activePieces s \<and> s_peers t = s_peers s \<and>
     s_task t = s_task s \<and> s_ended t = s_ended s \<and> length (s_heap t) = length (s_heap s) \<and>
     (\<forall>j. p_have (peer_at t j) = p_have (peer_at s j) \<and> p_client (peer_at t j) = p_client (peer_at s j))"

lemma quiet_refl [simp]: "quiet s s" by (simp add: quiet_def)

lemma quiet_trans: "quiet s t \<Longrightarrow> quiet t u \<Longrightarrow> quiet s u" by (simp add: quiet_def)

lemma quiet_upd:
  assumes "i < length (s_heap s)" "\<And>p. p_have (f p) = p_have p \<and> p_client (f p) = p_client p"
  shows "quiet s (upd_peer s i f)"
proof -
  have "p_have (peer_at (upd_peer s i f) j) = p_have (peer_at s j) \<and>
      p_client (peer_at (upd_peer s i f) j) = p_client (peer_at s j)" for j
    using assms by (cases "j = i") (simp_all add: upd_peer_def peer_at_def)
  then show ?thesis by (simp add: quiet_def) (simp add: upd_peer_def)
qed

lemma broadcastHave_total:
  assumes "\<forall>j \<in> set ids. j < length (s_heap s)" "\<forall>i. w_writes w i"
    and "\<forall>j \<in> set ids. \<forall>h. p_have (peer_at s j) = Some h \<longrightarrow> wf_bitset h"
  shows "\<exists>t. broadcastHave w s piece ids = Some t \<and> quiet s t"
  using assms(1,3)
proof (induction ids arbitrary: s)
  case (Cons j ids)
  have rest: "\<exists>t. broadcastHave w u piece ids = Some t \<and> quiet s t" if "quiet s u" for u
    using Cons.IH [of u] Cons.prems that quiet_trans by (fastforce simp: quiet_def)
  show ?case
  proof (cases "p_have (peer_at s j)")
    case None
    then show ?thesis using rest [of s] by simp
  next
    case (Some h)
    have wf: "wf_bitset h" using Cons.prems(2) Some by simp
    have "\<exists>b. IsSet h (uint piece) = Some b" if "uint piece < bs_n h"
      using bs.member [OF wf, of "unat piece"] that by (simp add: Len_def)
    then obtain b where b: "(if uint piece \<ge> bs_n h then Some True
        else do { b \<leftarrow> IsSet h (uint piece); Some (\<not> b) }) = Some b"
      by (cases "uint piece \<ge> bs_n h") auto
    have q: "quiet s (upd_peer s j (\<lambda>p. SendHave p piece))"
      using Cons.prems(1) by (intro quiet_upd) (simp_all add: SendHave_def sendMessage_def)
    show ?thesis using Some b rest [OF q] rest [of s] assms(2) by (cases b) (simp_all add: send_peer_def)
  qed
qed simp

lemma progress_total:
  assumes "dt_LinkChain (s_task s) \<noteq> None"
  shows "\<exists>t. progress w s = Some t \<and> core t = core s \<and> s_activePieces t = s_activePieces s \<and>
    s_peers t = s_peers s \<and> s_heap t = s_heap s \<and> s_task t = s_task s \<and> s_ended t = s_ended s"
proof -
  obtain lc where "dt_LinkChain (s_task s) = Some lc" using assms by blast
  then show ?thesis
    by (simp add: progress_def Let_def sess_reportStatus_def sess_deploy_def core_def)
qed

text \<open>A piece whose bytes have the right sum is recorded, reported and announced.\<close>

lemma finishPiece_good:
  assumes "sess_inv s" "uint piece = k" "0 \<le> k" "k < s_totalPieces s" "nat k \<notin> pset s" "map_of (s_activePieces s) k = None"
    and "nat k \<in> good_pieces (sess_ref s) (sess_contents s) (plen s)"
    and "dt_LinkChain (s_task s) \<noteq> None" "\<forall>i. w_writes w i" "world_ok w"
  shows "\<exists>t. finishPiece w s i piece = Some t \<and> pset t = insert (nat k) (pset s) \<and> s_activePieces t = s_activePieces s \<and>
    stored t = stored s \<and> s_peers t = s_peers s \<and> s_task t = s_task s \<and> s_ended t = s_ended s \<and> s_totalPieces t = s_totalPieces s \<and>
    length (s_heap t) = length (s_heap s) \<and>
    (\<forall>j. p_have (peer_at t j) = p_have (peer_at s j) \<and> p_client (peer_at t j) = p_client (peer_at s j))"
proof -
  have st: "store_inv s" and pi: "peers_inv s" using assms(1) by (simp_all add: sess_inv_def)
  obtain fs where fs: "s_fileStore s = Some fs" "plain_store (s_disk s) fs" using st by (auto simp: store_inv_def)
  obtain b where b: "s_pieceSet s = Some b" "wf_bitset b" "Len b = int (npieces s)" using st by (auto simp: store_inv_def)
  have c: "contents (s_disk s) fs = sess_contents s" using fs by (simp add: sess_contents_def)
  have P: "mi_PieceLen (dt_MetaInfo (s_task s)) = int (plen s)" "0 < plen s"
    using st by (simp_all add: store_inv_def pieceLen_def)
  have tp: "s_totalPieces s = int (npieces s)" and rl: "length (mi_Pieces (dt_MetaInfo (s_task s))) = npieces s * sha1_Size"
    and ts: "s_totalSize s = int (length (sess_contents s))"
    using st by (auto simp: store_inv_def sess_ref_def)
  have kn: "nat k < npieces s" using assms(3,4) tp by linarith
  have k: "int (nat k) = k" using assms(3) by simp
  have chk: "checkPiece (s_disk s) fs (s_totalSize s) (dt_MetaInfo (s_task s)) k =
      Ret (True, piece_bytes (sess_contents s) (plen s) (nat k), None)"
    using checkPiece_eq [OF fs(2) c P kn rl] assms(7) unfolding k ts by (simp add: sess_ref_def)
  have cm: "fs_Commit (s_disk s) fs k p off = Ret (s_disk s, fs)" for p off
    using fs(2) by (simp add: fs_Commit_def plain_store_def)
  have "int (nat k) < Len b" using kn b(3) by (simp only: of_nat_less_iff)
  from bs.put [OF b(2) this] obtain b' where b': "BSet b k = Some b'" "elems b' = insert (nat k) (elems b)"
    unfolding k by blast
  have del: "AList.delete k (s_activePieces s) = s_activePieces s"
    using assms(6) by (metis delete_id map_of_eq_None_iff)
  define s1 where "s1 = s\<lparr>s_disk := s_disk s, s_fileStore := Some fs, s_pieceSet := Some b',
    s_goodPieces := s_goodPieces s + 1\<rparr>"
  have "dt_LinkChain (s_task s1) \<noteq> None" using assms(8) by (simp add: s1_def)
  from progress_total [OF this, of w] obtain s2 where s2: "progress w s1 = Some s2" "core s2 = core s1"
    "s_activePieces s2 = s_activePieces s1" "s_peers s2 = s_peers s1" "s_heap s2 = s_heap s1" "s_task s2 = s_task s1"
    "s_ended s2 = s_ended s1" by blast
  have ids: "set (w_ids w (map snd (s_peers s2))) = snd ` set (s_peers s)"
    using assms(10) s2(4) by (simp add: world_ok_def s1_def) (metis set_map set_mset_mset)
  have "j < length (s_heap s)" if "j \<in> snd ` set (s_peers s)" for j
    using pi that by (auto simp: peers_inv_def)
  then have r: "\<forall>j \<in> set (w_ids w (map snd (s_peers s2))). j < length (s_heap s2)"
    using s2(5) ids by (simp add: s1_def)
  moreover have "\<forall>j \<in> set (w_ids w (map snd (s_peers s2))). \<forall>h. p_have (peer_at s2 j) = Some h \<longrightarrow> wf_bitset h"
    using pi r s2(5) by (auto simp: peers_inv_def peer_ok_def peer_at_def s1_def)
  ultimately obtain t where t: "broadcastHave w s2 piece (w_ids w (map snd (s_peers s2))) = Some t" "quiet s2 t"
    using broadcastHave_total [of _ s2 w] assms(9) by blast
  have f: "finishPiece w s i piece = Some t"
    using t(1) s2(1) unfolding finishPiece_def Let_def assms(2)
    by (simp add: del fs(1) chk cm b(1) b'(1) s1_def pieceLen_def)
  have ct: "core t = core s1" using t(2) s2(2) by (simp add: quiet_def)
  have "pset t = insert (nat k) (pset s)"
    using core_views(3) [OF ct] b'(2) b(1) by (simp add: pset_def s1_def)
  moreover have "stored t = stored s" using stored_core [OF ct] fs(1) by (simp add: stored_def s1_def)
  moreover have "s_totalPieces t = s_totalPieces s" using core_views(5) [OF ct] by (simp add: s1_def)
  ultimately show ?thesis
    using f t(2) s2 by (intro exI [of _ t]) (simp add: quiet_def s1_def peer_at_def)
qed

text \<open>A client \<open>c\<close> that downloads the bytes \<open>bs\<close> from the peer \<open>i\<close>, who has them all.\<close>

definition leeching :: "session \<Rightarrow> nat \<Rightarrow> bytes \<Rightarrow> bool" where
  "leeching c i bs \<longleftrightarrow> sess_inv c \<and> \<not> s_ended c \<and> i < length (s_heap c) \<and> \<not> p_client (peer_at c i) \<and>
     (\<exists>h. p_have (peer_at c i) = Some h \<and> full (s_totalPieces c) h) \<and>
     dt_LinkChain (s_task c) \<noteq> None \<and> pieceLen c = standardBlockLen \<and>
     0 < s_totalPieces c \<and> s_totalPieces c < 2 ^ 32 \<and>
     length (sess_contents c) = length bs \<and> sess_ref c = piece_sums bs (plen c) \<and>
     (\<forall>j \<in> pset c. piece_bytes (sess_contents c) (plen c) j = piece_bytes bs (plen c) j)"

lemma finishPiece_delete:
  "finishPiece w s i piece =
     finishPiece w (s\<lparr>s_activePieces := AList.delete (uint piece) (s_activePieces s)\<rparr>) i piece"
  by (simp add: finishPiece_def Let_def delete_idem)

lemma leeching_upd:
  assumes "leeching c i bs" "keeps_peer (s_totalPieces c) f" "\<And>p. p_have (f p) = p_have p \<and> p_client (f p) = p_client p"
  shows "leeching (upd_peer c j f) i bs"
proof -
  have p: "p_have (peer_at (upd_peer c j f) i) = p_have (peer_at c i) \<and>
      p_client (peer_at (upd_peer c j f) i) = p_client (peer_at c i)"
    using assms(1,3) by (cases "j = i") (auto simp: upd_peer_def peer_at_def leeching_def)
  have "sess_inv (upd_peer c j f)" using inv_upd_peer assms(1,2) by (simp add: leeching_def)
  moreover have "s_ended (upd_peer c j f) = s_ended c" "s_task (upd_peer c j f) = s_task c"
    "length (s_heap (upd_peer c j f)) = length (s_heap c)" by (simp_all add: upd_peer_def)
  ultimately show ?thesis
    using assms(1) p unfolding leeching_def core_views [OF core_upd_peer] by auto
qed

text \<open>The next request, or none when all pieces are there.\<close>

definition asks :: "session \<Rightarrow> nat \<Rightarrow> int \<Rightarrow> bool" where
  "asks c i k \<longleftrightarrow> 0 \<le> k \<and> k < s_totalPieces c \<and> nat k \<notin> pset c \<and>
     s_activePieces c = [(k, \<lparr>ap_downloaderCount = [1], ap_pieceLength = sess_pieceLength c k\<rparr>)] \<and>
     last (p_out (peer_at c i)) = request_msg k 0 (sess_pieceLength c k)"

lemma leeching_requests:
  assumes "leeching c i bs" "world_ok w" "s_activePieces c = []" "w_writes w i"
  shows "\<exists>t. requestBlock w call c i = Some (t, None) \<and> leeching t i bs \<and> pset t = pset c \<and>
    sess_contents t = sess_contents c \<and> (pset t = {0..<npieces t} \<or> (\<exists>k. asks t i k))"
proof -
  obtain h where h: "p_have (peer_at c i) = Some h" "full (s_totalPieces c) h"
    using assms(1) by (auto simp: leeching_def)
  have l: "sess_inv c" "pieceLen c = standardBlockLen" "0 < s_totalPieces c" "i < length (s_heap c)"
    using assms(1) by (simp_all add: leeching_def)
  consider (finished) "pset c = {0..<npieces c}" "requestBlock w call c i = Some (c, None)"
    | (ask) k where "0 \<le> k" "k < s_totalPieces c" "nat k \<notin> pset c" "requestBlock w call c i = Some (asked w c i k, None)"
    using requestBlock_finds [OF l(1) assms(2,3) h l(2,3) assms(4)] by blast
  then show ?thesis
  proof cases
    case finished
    then show ?thesis using assms(1) by (intro exI [of _ c]) simp
  next
    case (ask k)
    define a where "a = set_active c k \<lparr>ap_downloaderCount = [1], ap_pieceLength = sess_pieceLength c k\<rparr>"
    have ca: "core a = core c" by (simp add: a_def)
    have ct: "core (asked w c i k) = core c" by (simp add: asked_def)
    have inv: "sess_inv (asked w c i k)"
      using requestBlock_effect [OF ask(4) l(1) assms(2)] by simp
    have f: "s_ended (asked w c i k) = s_ended c" "s_task (asked w c i k) = s_task c"
      "length (s_heap (asked w c i k)) = length (s_heap c)"
      "s_activePieces (asked w c i k) = [(k, \<lparr>ap_downloaderCount = [1], ap_pieceLength = sess_pieceLength c k\<rparr>)]"
      by (simp_all add: asked_def upd_peer_def assms(3)) (simp_all add: set_active_def)
    have p: "peer_at (asked w c i k) i = SendRequest (peer_at c i) (w_now w) k 0 (sess_pieceLength c k)"
      using l(4) by (simp add: asked_def upd_peer_def peer_at_def)
    have pl: "sess_pieceLength (asked w c i k) = sess_pieceLength c"
      using ct core_views(4,5) [OF ct] by (simp add: fun_eq_iff sess_pieceLength_def core_def)
    have "leeching (asked w c i k) i bs"
      using assms(1) inv h unfolding leeching_def core_views [OF ct] f p
      by (auto simp: SendRequest_def sendMessage_def)
    moreover have "asks (asked w c i k) i k"
      using ask unfolding asks_def core_views [OF ct] f p pl by (simp add: SendRequest_def sendMessage_def)
    ultimately show ?thesis using ask(4) core_views(1,3) [OF ct] by blast
  qed
qed

lemma good_from_truth:
  assumes "sess_ref c = piece_sums bs P" "length (sess_contents c) = length bs" "0 < P" "j < piece_count (length bs) P"
    and "piece_bytes (sess_contents c) P j = piece_bytes bs P j"
  shows "j \<in> good_pieces (sess_ref c) (sess_contents c) P"
  using assms window_piece_sums [of j bs P] by (simp add: good_pieces_def)

text \<open>The last block of a piece arrives: the piece is recorded.\<close>

lemma recordBlock_completes:
  assumes "sess_inv s" "s_activePieces s = [(k, a)]" "ap_downloaderCount a = [1]"
    and "0 \<le> k" "k < s_totalPieces s" "nat k \<notin> pset s" "s_totalPieces s < 2 ^ 32"
    and "nat k \<in> good_pieces (sess_ref s) (sess_contents s) (plen s)"
    and "dt_LinkChain (s_task s) \<noteq> None" "\<forall>i. w_writes w i" "world_ok w" "i < length (s_heap s)"
  shows "\<exists>t. sess_recordBlock w s i (word_of_int k) 0 len = Some t \<and> sess_inv t \<and> pset t = insert (nat k) (pset s) \<and>
    s_activePieces t = [] \<and> stored t = stored s \<and> s_task t = s_task s \<and> s_ended t = s_ended s \<and>
    s_totalPieces t = s_totalPieces s \<and> length (s_heap t) = length (s_heap s) \<and>
    (\<forall>j. p_have (peer_at t j) = p_have (peer_at s j) \<and> p_client (peer_at t j) = p_client (peer_at s j))"
proof -
  note wk = word_index_in_range [OF assms(7,4,5)]
  define s2 where "s2 = upd_peer s i (\<lambda>p. p\<lparr>p_ourRequests := AList.delete (requestIndex k 0) (p_ourRequests p)\<rparr>)"
  define s3 where "s3 = s2\<lparr>s_downloaded := s_downloaded s2 + ucast len, s_activePieces := []\<rparr>"
  have i2: "sess_inv s2" unfolding s2_def by (rule inv_upd_peer [OF assms(1)]) (rule keeps)
  have c2: "core s2 = core s" by (simp add: s2_def)
  have c3: "core s3 = core s" using c2 by (simp add: core_def s3_def)
  have p2: "p_have (peer_at s2 j) = p_have (peer_at s j) \<and> p_client (peer_at s2 j) = p_client (peer_at s j)" for j
    using assms(12) by (cases "j = i") (simp_all add: s2_def upd_peer_def peer_at_def)
  have i3: "sess_inv s3"
  proof -
    have "store_inv s3" using assms(1) core_views(6) [OF c3] by (simp add: sess_inv_def)
    moreover have "peers_inv s3" using i2 by (simp add: sess_inv_def peers_inv_def s3_def peer_at_def)
    ultimately show ?thesis by (simp add: sess_inv_def active_inv_def s3_def)
  qed
  have f3: "s_task s3 = s_task s" "s_ended s3 = s_ended s" "length (s_heap s3) = length (s_heap s)" "s_activePieces s3 = []"
    by (simp_all add: s3_def s2_def upd_peer_def)
  have v3: "sess_contents s3 = sess_contents s" "sess_ref s3 = sess_ref s" "pset s3 = pset s" "pieceLen s3 = pieceLen s"
    "s_totalPieces s3 = s_totalPieces s" "stored s3 = stored s"
    using core_views(1-5) [OF c3] stored_core [OF c3] by simp_all
  obtain t where t: "finishPiece w s3 i (word_of_int k) = Some t" "pset t = insert (nat k) (pset s3)" "s_activePieces t = s_activePieces s3"
    "stored t = stored s3" "s_task t = s_task s3" "s_ended t = s_ended s3" "s_totalPieces t = s_totalPieces s3"
    "length (s_heap t) = length (s_heap s3)"
    "\<forall>j. p_have (peer_at t j) = p_have (peer_at s3 j) \<and> p_client (peer_at t j) = p_client (peer_at s3 j)"
    using finishPiece_good [OF i3 wk(2) assms(4), of w i] assms(5,6,8-11) by (auto simp: v3 f3)
  have m: "map_of (s_activePieces s2) k = Some a" and a2: "s_activePieces s2 = [(k, a)]"
    using assms(2) by (simp_all add: s2_def upd_peer_def)
  have ar: "ap_recordBlock a 0 = Some (a\<lparr>ap_downloaderCount := [-1]\<rparr>, 1)"
    using ap_recordBlock_ok [of 0 a] assms(3) by simp
  have cp: "isComplete (a\<lparr>ap_downloaderCount := [-1]\<rparr>)" by (simp add: isComplete_def allDone_iff)
  have "finishPiece w ((set_active s2 k x)\<lparr>s_downloaded := s_downloaded s2 + ucast len\<rparr>) i (word_of_int k) =
      finishPiece w s3 i (word_of_int k)" for x
    by (subst finishPiece_delete) (simp add: wk(2) s3_def set_active_def a2)
  then have r: "sess_recordBlock w s i (word_of_int k) 0 len = Some t"
    using t(1) m ar cp by (simp add: sess_recordBlock_def wk(2) s2_def [symmetric] Let_def)
  have "sess_inv t" using safe_recordBlock [OF r] assms(1) by (simp add: safe_def)
  moreover have "peer_at s3 j = peer_at s2 j" for j by (simp add: s3_def peer_at_def)
  ultimately show ?thesis using r t p2 by (intro exI [of _ t]) (simp add: v3 f3)
qed

lemma unit_write:
  assumes "sess_inv s" "s_fileStore s = Some fs" "off + length data \<le> length (sess_contents s)"
  shows "\<exists>d n. fs_WriteAt srt clk (s_disk s) fs data (int off) = Ret (d, fs, n, None) \<and>
    contents d fs = patch (sess_contents s) off data"
proof -
  have pl: "wf_store (s_disk s) fs" "fs_cache fs = None"
    using assms(1,2) by (auto simp: sess_inv_def store_inv_def plain_store_def)
  obtain d n err where w: "RawWriteAt (s_disk s) fs data (int off) = (d, n, err)" by (cases "RawWriteAt (s_disk s) fs data (int off)")
  then have sw: "st_write (s_disk s, fs) data (int off) = ((d, fs), n, err)" by (simp add: st_write_def)
  from store.wr_inside [OF _ _ this] show ?thesis
    using pl w assms(2,3) by (simp add: fs_WriteAt_def sess_contents_def)
qed

lemma truth_length:
  assumes "leeching c i bs" "0 \<le> k" "k < s_totalPieces c"
  shows "nat k < piece_count (length bs) (plen c)" "sess_pieceLength c k = int (length (piece_bytes bs (plen c) (nat k)))"
    "nat k * plen c + length (piece_bytes bs (plen c) (nat k)) \<le> length bs"
    "sess_pieceLength c k \<le> standardBlockLen" "0 < sess_pieceLength c k" "0 < plen c"
proof -
  have st: "store_inv c" and P: "pieceLen c = standardBlockLen" and l: "length (sess_contents c) = length bs"
    using assms(1) by (simp_all add: leeching_def sess_inv_def)
  have "s_totalPieces c = int (npieces c)" using st unfolding store_inv_def by blast
  then show n: "nat k < piece_count (length bs) (plen c)" using assms(2,3) l by simp
  show p: "0 < plen c" using P by simp
  note sp = small_piece [OF st P assms(2,3)]
  show "sess_pieceLength c k = int (length (piece_bytes bs (plen c) (nat k)))"
    using sp(3) l by (simp only: length_piece_bytes)
  show "sess_pieceLength c k \<le> standardBlockLen" "0 < sess_pieceLength c k" using sp by simp_all
  have "nat k * plen c < length bs" using n piece_count_less [OF p] by blast
  then show "nat k * plen c + length (piece_bytes bs (plen c) (nat k)) \<le> length bs"
    unfolding length_piece_bytes by linarith
qed

text \<open>The answer to the request arrives.\<close>

lemma leeching_piece:
  assumes "leeching c i bs" "asks c i k" "\<forall>i. w_writes w i" "world_ok w"
  shows "\<exists>t. handlePiece w c i (piece_msg (word_of_int k) 0 (piece_bytes bs (plen c) (nat k))) = Some (t, None) \<and>
    leeching t i bs \<and> pset t = insert (nat k) (pset c) \<and> (pset t = {0..<npieces t} \<or> (\<exists>k. asks t i k))"
proof -
  let ?P = "plen c" and ?data = "piece_bytes bs (plen c) (nat k)"
  have k: "0 \<le> k" "k < s_totalPieces c" "nat k \<notin> pset c"
    and act: "s_activePieces c = [(k, \<lparr>ap_downloaderCount = [1], ap_pieceLength = sess_pieceLength c k\<rparr>)]"
    using assms(2) by (simp_all add: asks_def)
  note tl = truth_length [OF assms(1) k(1,2)]
  have inv: "sess_inv c" and i: "i < length (s_heap c)" and P: "pieceLen c = standardBlockLen"
    and tp: "s_totalPieces c < 2 ^ 32" and lc: "dt_LinkChain (s_task c) \<noteq> None" and len: "length (sess_contents c) = length bs"
    using assms(1) by (simp_all add: leeching_def)
  obtain h where h: "p_have (peer_at c i) = Some h" using assms(1) by (auto simp: leeching_def)
  have big: "length ?data \<le> maxBlockLen" "pieceLen c < 2 ^ 32" "0 < pieceLen c" "int (length ?data) \<le> pieceLen c"
    using tl(2,4) P by (simp_all add: standardBlockLen_def maxBlockLen_def)
  have "decodePiece c i (piece_msg (word_of_int k) (word_of_int 0) ?data) =
      Some (Inr (word_of_int k, word_of_int 0, word_of_nat (length ?data)))"
    by (rule decode_piece_ok [OF inv i h tp big(2) k(1,2) order_refl big(3) _ big(1)]) (use big(4) in simp)
  then have dec: "decodePiece c i (piece_msg (word_of_int k) 0 ?data) = Some (Inr (word_of_int k, 0, word_of_nat (length ?data)))"
    by simp
  note wk = word_index_in_range [OF tp k(1,2)]
  obtain b where b: "s_pieceSet c = Some b" "wf_bitset b" "Len b = int (npieces c)"
    using inv by (auto simp: sess_inv_def store_inv_def)
  have st: "store_inv c" using inv by (simp add: sess_inv_def)
  then have tpn: "s_totalPieces c = int (npieces c)" unfolding store_inv_def by blast
  have "int (nat k) < Len b" using k(1,2) b(3) tpn by simp
  then have mem: "IsSet b k = Some False"
    using bs.member [OF b(2), of "nat k"] k b(1) by (simp add: pset_def)
  obtain fs where fs: "s_fileStore c = Some fs" using st by (auto simp: store_inv_def)
  have off: "uint (word_of_int k :: u32) * pieceLen c + uint (0 :: u32) = int (nat k * ?P)"
    unfolding wk(2) using k(1) big(3) by simp
  obtain d n where wr: "fs_WriteAt (w_srt w) (w_clk w) (s_disk c) fs ?data (int (nat k * ?P)) = Ret (d, fs, n, None)"
      and cd: "contents d fs = patch (sess_contents c) (nat k * ?P) ?data"
    using unit_write [OF inv fs, of "nat k * ?P" ?data "w_srt w" "w_clk w"] tl(3) unfolding len by blast
  define s1 where "s1 = c\<lparr>s_disk := d, s_fileStore := Some fs\<rparr>"
  have c1: "sess_contents s1 = patch (sess_contents c) (nat k * ?P) ?data" using cd by (simp add: s1_def sess_contents_def)
  have v1: "sess_ref s1 = sess_ref c" "pset s1 = pset c" "pieceLen s1 = pieceLen c" "s_totalPieces s1 = s_totalPieces c"
    "s_task s1 = s_task c" "s_ended s1 = s_ended c" "s_heap s1 = s_heap c" "s_activePieces s1 = s_activePieces c"
    by (simp_all add: s1_def sess_ref_def pset_def pieceLen_def)
  have wr0: "fs_WriteAt (w_srt w) (w_clk w) (s_disk c) fs ?data (int (nat k * ?P + 0)) = Ret (d, fs, n, None)" using wr by simp
  have "0 + length ?data \<le> ?P" using big(4) by linarith
  note ws = write_safe [OF inv fs k(3) this wr0]
  have inv1: "sess_inv s1" using ws(1) inv by (simp add: safe_def s1_def)
  have len1: "length (sess_contents s1) = length bs" using c1 len tl(3) by (simp add: length_patch)
  have pk: "piece_bytes (sess_contents s1) ?P (nat k) = ?data"
  proof -
    have "window (sess_contents s1) (nat k * ?P) (length ?data) = ?data"
      unfolding c1 using tl(3) len by (intro window_patch_same) simp
    moreover have "length ?data = min ?P (length bs - nat k * ?P)" by (rule length_piece_bytes)
    moreover have "window xs a P = window xs a (min P (length xs - a))" for xs :: bytes and a P
      by (simp add: window_def min_def)
    ultimately show ?thesis unfolding piece_bytes_def [of "sess_contents s1"] using len1 by metis
  qed
  have others: "piece_bytes (sess_contents s1) ?P j = piece_bytes bs ?P j" if "j \<in> pset c" for j
  proof -
    have "j \<noteq> nat k" using that k(3) by blast
    then have "piece_bytes (sess_contents s1) ?P j = piece_bytes (sess_contents c) ?P j"
      using ws(2) c1 cd by simp
    moreover have "\<forall>j \<in> pset c. piece_bytes (sess_contents c) ?P j = piece_bytes bs ?P j"
      using assms(1) unfolding leeching_def by blast
    ultimately show ?thesis using that by (simp only:)
  qed
  have good: "nat k \<in> good_pieces (sess_ref s1) (sess_contents s1) (plen s1)"
    using good_from_truth [of s1 bs ?P "nat k"] tl(1,6) pk len1 assms(1) by (simp add: v1 leeching_def)
  obtain t0 where t0: "sess_recordBlock w s1 i (word_of_int k) 0 (word_of_nat (length ?data)) = Some t0" "sess_inv t0"
    "pset t0 = insert (nat k) (pset s1)"
    "s_activePieces t0 = []" "stored t0 = stored s1" "s_task t0 = s_task s1" "s_ended t0 = s_ended s1"
    "s_totalPieces t0 = s_totalPieces s1" "length (s_heap t0) = length (s_heap s1)"
    "\<forall>j. p_have (peer_at t0 j) = p_have (peer_at s1 j) \<and> p_client (peer_at t0 j) = p_client (peer_at s1 j)"
    using recordBlock_completes [OF inv1, of k _ w i] act k tp lc assms(3,4) i good by (fastforce simp: v1)
  have p1: "peer_at s1 j = peer_at c j" for j by (simp add: s1_def peer_at_def)
  have ct0: "sess_contents t0 = sess_contents s1" using t0(5) by (rule contents_stored)
  have rt0: "sess_ref t0 = sess_ref c" "pieceLen t0 = pieceLen c" using t0(6) v1 by (simp_all add: sess_ref_def pieceLen_def)
  have pt: "p_have (peer_at t0 i) = p_have (peer_at c i)" "p_client (peer_at t0 i) = p_client (peer_at c i)"
    using t0(10) by (simp_all add: p1)
  have "\<forall>j \<in> insert (nat k) (pset c). piece_bytes (sess_contents s1) ?P j = piece_bytes bs ?P j"
    using others pk by blast
  then have le0: "leeching t0 i bs"
    using assms(1) t0(2) unfolding leeching_def rt0 ct0 len1 t0(3,6-9) v1 pt
    by (elim conjE) (intro conjI; (assumption | rule refl))
  obtain t where t: "requestBlock w 0 t0 i = Some (t, None)" "leeching t i bs" "pset t = pset t0"
    "pset t = {0..<npieces t} \<or> (\<exists>k. asks t i k)"
    using leeching_requests [OF le0 assms(4) t0(4) assms(3) [rule_format], of 0] by (elim exE conjE) (rule that)
  have mem': "IsSet b (uint (word_of_int k :: u32)) = Some False" unfolding wk(2) by (rule mem)
  have "handlePiece w c i (piece_msg (word_of_int k) 0 ?data) = Some (t, None)"
    unfolding handlePiece_def
    by (simp only: Let_def dec Option.bind.simps sum.case prod.case b(1) mem' if_False fs off msg_u32_piece(3) wr
        returns.simps option.case s1_def [symmetric] t0(1) t(1))
  then show ?thesis using t(2,4) t(3) [unfolded t0(3) v1(2)] by (intro exI [of _ t] conjI)
qed

text \<open>A node that has the bytes \<open>bs\<close> and serves them to its peer \<open>j\<close>.\<close>

definition seeding :: "session \<Rightarrow> nat \<Rightarrow> bytes \<Rightarrow> bool" where
  "seeding s j bs \<longleftrightarrow> sess_inv s \<and> j < length (s_heap s) \<and> p_have (peer_at s j) \<noteq> None \<and>
     pset s = {0..<npieces s} \<and> sess_contents s = bs \<and> s_totalPieces s < 2 ^ 32 \<and> pieceLen s = standardBlockLen"

lemma seeding_upd:
  assumes "seeding s j bs" "keeps_peer (s_totalPieces s) f" "\<And>p. p_have (f p) = p_have p"
  shows "seeding (upd_peer s j f) j bs"
proof -
  have "p_have (peer_at (upd_peer s j f) j) = p_have (peer_at s j)" "length (s_heap (upd_peer s j f)) = length (s_heap s)"
    using assms(1,3) by (simp_all add: seeding_def upd_peer_def peer_at_def)
  then show ?thesis
    using assms(1) inv_upd_peer [OF _ assms(2)] unfolding seeding_def core_views [OF core_upd_peer] by simp
qed

lemma seeding_ref:
  assumes "seeding s j bs"
  shows "sess_ref s = piece_sums bs (plen s)"
proof -
  have st: "store_inv s" and c: "sess_contents s = bs" and all: "pset s = {0..<npieces s}"
    using assms by (simp_all add: seeding_def sess_inv_def)
  then have "\<forall>i < npieces s. window (sess_ref s) (i * sha1_Size) sha1_Size =
      map (\<lambda>i. sha1 (piece_bytes bs (plen s) i)) [0..<npieces s] ! i"
    by (auto simp: store_inv_def good_pieces_def)
  moreover have "length (sess_ref s) = npieces s * sha1_Size" using st unfolding store_inv_def by blast
  ultimately show ?thesis
    unfolding piece_sums_def c [symmetric] by (intro windows_concat [of _ "npieces s" sha1_Size]) simp_all
qed

lemma message_ids [simp]: "REQUEST \<noteq> HAVE" "REQUEST \<noteq> BITFIELD" "PIECE \<noteq> HAVE" "PIECE \<noteq> BITFIELD" "PIECE \<noteq> REQUEST"
  "BITFIELD \<noteq> HAVE"
  by (simp_all add: HAVE_def BITFIELD_def REQUEST_def PIECE_def)

text \<open>One round trip: the request at the one end, the block at the other.\<close>

lemma seed_step:
  assumes "seeding s j bs" "0 \<le> k" "k < s_totalPieces s" "w_writes w j"
    and "l = int (length (piece_bytes bs (plen s) (nat k)))"
  shows "\<exists>t. sess_step w s (Message j (Some (request_msg k 0 l))) = Some t \<and> seeding t j bs \<and>
    s_totalPieces t = s_totalPieces s \<and>
    last (p_out (peer_at t j)) = piece_msg (word_of_int k) 0 (piece_bytes bs (plen s) (nat k))"
proof -
  define s1 where "s1 = upd_peer s j (\<lambda>p. p\<lparr>p_lastReadTime := Some (w_now w)\<rparr>)"
  have s1: "seeding s1 j bs" unfolding s1_def by (rule seeding_upd [OF assms(1)]) (simp_all add: keeps)
  have c1: "core s1 = core s" by (simp add: s1_def)
  note v1 = core_views(1,4,5) [OF c1]
  obtain h where h: "p_have (peer_at s1 j) = Some h" using s1 by (auto simp: seeding_def)
  have st: "store_inv s1" and c: "sess_contents s1 = bs" and P: "pieceLen s1 = standardBlockLen" and inv: "sess_inv s1"
    and j: "j < length (s_heap s1)" and tp: "s_totalPieces s1 < 2 ^ 32"
    using s1 by (simp_all add: seeding_def sess_inv_def)
  have tpn: "s_totalPieces s1 = int (npieces s1)" using st unfolding store_inv_def by blast
  have k1: "k < s_totalPieces s1" using assms(3) v1 by simp
  then have kn: "nat k < npieces s1" using tpn assms(2) by linarith
  then have mem: "nat k \<in> pset s1" using s1 by (simp add: seeding_def)
  note sp = small_piece [OF st P assms(2) k1]
  have l: "l = sess_pieceLength s1 k" using sp(3) assms(5) c v1 by simp
  have le: "0 \<le> l" "0 + l \<le> pieceLen s1" using sp(1,2) l P by simp_all
  have big: "pieceLen s1 + 9 < 2 ^ 32" "(0::int) < pieceLen s1" using P by (simp_all add: standardBlockLen_def)
  have rp: "read_padded (sess_contents s1) (nat k * plen s1 + nat 0) (nat l) = piece_bytes bs (plen s1) (nat k)"
  proof -
    have nl: "nat l = min (plen s1) (length bs - nat k * plen s1)" using assms(5) v1 by (simp add: length_piece_bytes)
    have "window bs (nat k * plen s1) (nat l) = piece_bytes bs (plen s1) (nat k)"
      unfolding nl by (simp add: piece_bytes_def window_def min_def)
    moreover have "length (piece_bytes bs (plen s1) (nat k)) = nat l" using nl by (simp add: length_piece_bytes)
    moreover have "nat l \<le> length bs - nat k * plen s1" using nl by simp
    ultimately show ?thesis by (simp add: read_padded_def c)
  qed
  define t where "t = upd_peer s1 j (\<lambda>p. sendMessage p (piece_msg (word_of_int k) 0 (piece_bytes bs (plen s) (nat k))))"
  have "handleRequest w s1 j (request_msg k 0 l) = Some (t, None)"
    using serve_request [OF inv j h tp big(1) assms(4) mem assms(2) order_refl big(2) le] rp unfolding v1
    by (simp add: t_def)
  then have "sess_step w s (Message j (Some (request_msg k 0 l))) = Some t"
    by (simp add: s1_def [symmetric] doMessage_def generalMessage_def request_msg_def go_index_def)
  moreover have "seeding t j bs" unfolding t_def by (rule seeding_upd [OF s1 keeps_sendMessage]) (simp add: sendMessage_def)
  moreover have "s_totalPieces t = s_totalPieces s" using core_views(5) [of t s1] v1 by (simp add: t_def)
  moreover have "last (p_out (peer_at t j)) = piece_msg (word_of_int k) 0 (piece_bytes bs (plen s) (nat k))"
    using j by (simp add: t_def upd_peer_def peer_at_def sendMessage_def)
  ultimately show ?thesis by blast
qed

lemma leech_step:
  assumes "leeching c i bs" "asks c i k" "\<forall>i. w_writes w i" "world_ok w"
  shows "\<exists>t. sess_step w c (Message i (Some (piece_msg (word_of_int k) 0 (piece_bytes bs (plen c) (nat k))))) = Some t \<and>
    leeching t i bs \<and> pset t = insert (nat k) (pset c) \<and> (pset t = {0..<npieces t} \<or> (\<exists>k. asks t i k))"
proof -
  define c1 where "c1 = upd_peer c i (\<lambda>p. p\<lparr>p_lastReadTime := Some (w_now w)\<rparr>)"
  have l1: "leeching c1 i bs" unfolding c1_def by (rule leeching_upd [OF assms(1)]) (simp_all add: keeps)
  have c: "core c1 = core c" by (simp add: c1_def)
  note v1 = core_views(3,4,5) [OF c]
  have pl: "sess_pieceLength c1 = sess_pieceLength c"
    using c v1 by (simp add: fun_eq_iff sess_pieceLength_def core_def)
  have "p_out (peer_at c1 i) = p_out (peer_at c i)" "s_activePieces c1 = s_activePieces c"
    using assms(1) by (simp_all add: c1_def upd_peer_def peer_at_def leeching_def)
  then have "asks c1 i k" using assms(2) by (simp add: asks_def v1 pl)
  from leeching_piece [OF l1 this assms(3,4)] obtain t where
    t: "handlePiece w c1 i (piece_msg (word_of_int k) 0 (piece_bytes bs (plen c) (nat k))) = Some (t, None)"
    "leeching t i bs \<and> pset t = insert (nat k) (pset c) \<and> (pset t = {0..<npieces t} \<or> (\<exists>k. asks t i k))"
    unfolding v1 by blast
  then have "sess_step w c (Message i (Some (piece_msg (word_of_int k) 0 (piece_bytes bs (plen c) (nat k))))) = Some t"
    by (simp add: c1_def [symmetric] doMessage_def generalMessage_def piece_msg_def go_index_def)
  then show ?thesis using t(2) by blast
qed

text \<open>The two nodes take turns; \<open>ws\<close> and \<open>wc\<close> are their surroundings in each round.\<close>

fun exchange :: "(nat \<Rightarrow> world) \<Rightarrow> (nat \<Rightarrow> world) \<Rightarrow> nat \<Rightarrow> nat \<Rightarrow> nat \<Rightarrow> session \<times> session \<Rightarrow> (session \<times> session) option" where
  "exchange ws wc j i 0 (s, c) = Some (s, c)"
| "exchange ws wc j i (Suc n) (s, c) = do {
     s \<leftarrow> sess_step (ws n) s (Message j (Some (last (p_out (peer_at c i)))));
     c \<leftarrow> sess_step (wc n) c (Message i (Some (last (p_out (peer_at s j)))));
     exchange ws wc j i n (s, c)
   }"

definition missing :: "session \<Rightarrow> nat set" where
  "missing c = {0..<npieces c} - pset c"

lemma exchange_completes:
  assumes "\<forall>n. w_writes (ws n) j" "\<forall>n i. w_writes (wc n) i" "\<forall>n. world_ok (wc n)"
  shows "\<lbrakk>seeding s j bs; leeching c i bs; s_totalPieces s = s_totalPieces c; n = card (missing c);
    pset c = {0..<npieces c} \<or> (\<exists>k. asks c i k)\<rbrakk> \<Longrightarrow>
    \<exists>s' c'. exchange ws wc j i n (s, c) = Some (s', c') \<and> leeching c' i bs \<and> pset c' = {0..<npieces c'}"
proof (induction n arbitrary: s c)
  case 0
  then have "pset c = {0..<npieces c}"
    using 0 by (auto simp: missing_def leeching_def sess_inv_def store_inv_def good_pieces_def)
  then show ?case using 0 by (intro exI conjI) simp_all
next
  case (Suc n)
  then have "missing c \<noteq> {}" by force
  then obtain k where k: "asks c i k" using Suc.prems(5) by (auto simp: missing_def)
  have ps: "plen s = plen c" using Suc.prems(1,2) by (simp add: seeding_def leeching_def)
  have ka: "0 \<le> k" "k < s_totalPieces c" "nat k \<notin> pset c"
    "last (p_out (peer_at c i)) = request_msg k 0 (sess_pieceLength c k)"
    using k by (simp_all add: asks_def)
  note tl = truth_length [OF Suc.prems(2) ka(1,2)]
  obtain s1 where s1: "sess_step (ws n) s (Message j (Some (last (p_out (peer_at c i))))) = Some s1" "seeding s1 j bs"
    "s_totalPieces s1 = s_totalPieces s" "last (p_out (peer_at s1 j)) = piece_msg (word_of_int k) 0 (piece_bytes bs (plen c) (nat k))"
    using seed_step [OF Suc.prems(1) ka(1), of "ws n" "sess_pieceLength c k"] ka(2) Suc.prems(3) assms(1) tl(2)
    unfolding ka(4) ps by auto
  obtain c1 where c1: "sess_step (wc n) c (Message i (Some (last (p_out (peer_at s1 j))))) = Some c1" "leeching c1 i bs"
    "pset c1 = insert (nat k) (pset c)" "pset c1 = {0..<npieces c1} \<or> (\<exists>k. asks c1 i k)"
    using leech_step [OF Suc.prems(2) k] assms(2,3) s1(4) by metis
  have np: "npieces c1 = npieces c" using c1(2) Suc.prems(2) by (simp add: leeching_def)
  have tp: "s_totalPieces x = int (npieces x)" if "leeching x i bs" for x
    using that unfolding leeching_def sess_inv_def store_inv_def by blast
  have "nat k \<in> missing c" using ka tp [OF Suc.prems(2)] by (simp add: missing_def)
  moreover have "missing c1 = missing c - {nat k}" using c1(3) np by (auto simp: missing_def)
  ultimately have n: "n = card (missing c1)" using Suc.prems(4) by simp
  have "s_totalPieces s1 = s_totalPieces c1"
    using Suc.prems(3) s1(3) tp [OF Suc.prems(2)] tp [OF c1(2)] np by simp
  from Suc.IH [OF s1(2) c1(2) this n c1(4)] show ?case
    using s1(1) c1(1) by (simp del: sess_step.simps)
qed

lemma pieces_determine:
  assumes "0 < P" "length xs = length ys" "\<forall>j < piece_count (length xs) P. piece_bytes xs P j = piece_bytes ys P j"
  shows "xs = ys"
proof (rule nth_equalityI [OF assms(2)])
  fix x assume x: "x < length xs"
  have "x div P * P < length xs" by (rule le_less_trans [OF div_times_less_eq_dividend x])
  then have "x div P < piece_count (length xs) P" using piece_count_less [OF assms(1)] by simp
  then have eq: "piece_bytes xs P (x div P) = piece_bytes ys P (x div P)" using assms(3) by blast
  have m: "x mod P < P" "x div P * P + x mod P = x" using assms(1) by simp_all
  have "zs ! x = piece_bytes zs P (x div P) ! (x mod P)" if "length zs = length xs" for zs
    using that x m nth_drop [of "x div P * P" zs "x mod P"] \<open>x div P * P < length xs\<close>
    by (simp add: piece_bytes_def window_def)
  then show "xs ! x = ys ! x" using eq assms(2) by metis
qed

text \<open>A client that has just connected to the seed and has asked for nothing yet.\<close>

definition joining :: "session \<Rightarrow> nat \<Rightarrow> session \<Rightarrow> bool" where
  "joining c i s \<longleftrightarrow> sess_inv c \<and> \<not> s_ended c \<and> i < length (s_heap c) \<and> \<not> p_client (peer_at c i) \<and>
     dt_LinkChain (s_task c) \<noteq> None \<and> s_activePieces c = [] \<and> pieceLen c = standardBlockLen \<and> 0 < s_totalPieces c \<and>
     length (sess_contents c) = length (sess_contents s) \<and> sess_ref c = sess_ref s \<and>
     (\<forall>k \<in> pset c. piece_bytes (sess_contents c) (plen c) k = piece_bytes (sess_contents s) (plen c) k)"

lemma bitfield_step:
  assumes "seeding s j bs" "s_pieceSet s = Some b" "joining c i s" "world_ok w" "w_writes w i"
  shows "\<exists>t. sess_step w c (Message i (Some (BITFIELD # Bytes b))) = Some t \<and> leeching t i bs \<and>
    s_totalPieces s = s_totalPieces t \<and> missing t = missing c \<and> (pset t = {0..<npieces t} \<or> (\<exists>k. asks t i k))"
proof -
  have sb: "wf_bitset b" "Len b = int (npieces s)" "elems b = {0..<npieces s}" "s_totalPieces s = int (npieces s)"
    "sess_contents s = bs" "pieceLen s = standardBlockLen" "s_totalPieces s < 2 ^ 32"
    using assms(1,2) unfolding seeding_def sess_inv_def store_inv_def by (auto simp: pset_def)
  have cj: "sess_inv c" "pieceLen c = standardBlockLen" "i < length (s_heap c)" "s_activePieces c = []"
    "length (sess_contents c) = length bs" "sess_ref c = sess_ref s"
    using assms(3) sb(5) unfolding joining_def by auto
  have tp: "s_totalPieces c = int (npieces c)" using cj(1) unfolding sess_inv_def store_inv_def by blast
  have n: "npieces c = npieces s" using cj(2,5) sb(5,6) by simp
  have ref: "sess_ref c = piece_sums bs (plen c)" using seeding_ref [OF assms(1)] cj(2,6) sb(6) by simp
  have L: "Len b = s_totalPieces c" using sb(2) tp n by simp
  have fl: "full (s_totalPieces c) b"
  proof -
    have "IsSet b x = Some True" if "0 \<le> x" "x < s_totalPieces c" for x
      using bs.member [OF sb(1), of "nat x"] that sb(2,3) tp n by simp
    then show ?thesis using L by (simp add: full_def Len_def)
  qed
  define c1 where "c1 = upd_peer c i (\<lambda>p. p\<lparr>p_lastReadTime := Some (w_now w)\<rparr>)"
  define c2 where "c2 = upd_peer c1 i (\<lambda>p. p\<lparr>p_have := Some b\<rparr>)"
  have k1: "core c1 = core c" and k2: "core c2 = core c" by (simp_all add: c1_def c2_def)
  have i1: "sess_inv c1" unfolding c1_def by (rule inv_upd_peer [OF cj(1)]) (rule keeps)
  have i2: "sess_inv c2" unfolding c2_def
    by (rule inv_upd_peer [OF i1 keeps_have]) (use sb(1) L core_views(5) [OF k1] in simp)
  have f2: "s_ended c2 = s_ended c" "s_task c2 = s_task c" "length (s_heap c2) = length (s_heap c)"
    "s_activePieces c2 = s_activePieces c" "p_have (peer_at c2 i) = Some b" "p_client (peer_at c2 i) = p_client (peer_at c i)"
    using cj(3) by (simp_all add: c2_def c1_def upd_peer_def peer_at_def)
  have "leeching c2 i bs"
    using assms(3) i2 fl sb(4,5,7) tp n ref unfolding leeching_def joining_def f2 core_views(1-5) [OF k2] by auto
  from leeching_requests [OF this assms(4) _ assms(5), of 0] obtain t where
    t: "requestBlock w 0 c2 i = Some (t, None)" "leeching t i bs" "pset t = pset c2" "sess_contents t = sess_contents c2"
    "pset t = {0..<npieces t} \<or> (\<exists>k. asks t i k)"
    using f2(4) cj(4) by auto
  have "NewBitsetFromBytes (s_totalPieces c1) (Bytes b) = Some (Some b)"
    using NewBitsetFromBytes_roundtrip [OF sb(1)] L core_views(5) [OF k1] by simp
  then have "handleBitfield w c1 i (BITFIELD # Bytes b) = Some (t, None)"
    using t(1) f2(6) assms(3) by (simp add: handleBitfield_def c2_def [symmetric] joining_def)
  then have "sess_step w c (Message i (Some (BITFIELD # Bytes b))) = Some t"
    by (simp add: c1_def [symmetric] doMessage_def generalMessage_def go_index_def)
  moreover have pt: "pieceLen t = pieceLen c" using t(2) cj(2) by (simp add: leeching_def)
  then have "missing t = missing c" using t(3,4) core_views(1,3) [OF k2] by (simp add: missing_def)
  moreover have "s_totalPieces t = int (npieces t)" using t(2) unfolding leeching_def sess_inv_def store_inv_def by blast
  then have "s_totalPieces s = s_totalPieces t" using t(4) pt sb(4) n core_views(1) [OF k2] by simp
  ultimately show ?thesis using t(2,5) by blast
qed

section \<open>Properties\<close>

text \<open>C2: A download finishes.  When a node that lacks pieces receives the BITFIELD of a node that has them
  all, and the two then hand each other's messages to their event loops in turn, neither loop
  panics, blocks or closes the connection; after as many rounds as pieces were missing the
  client has counted every piece and its files hold the seed's bytes.\<close>

theorem download_completes:
  assumes "seeding s j bs" "s_pieceSet s = Some b" "joining c i s" "world_ok w" "w_writes w i"
    and "\<forall>n. w_writes (ws n) j" "\<forall>n i. w_writes (wc n) i" "\<forall>n. world_ok (wc n)"
  shows "\<exists>c0 s' c'. sess_step w c (Message i (Some (BITFIELD # Bytes b))) = Some c0 \<and>
    exchange ws wc j i (card (missing c)) (s, c0) = Some (s', c') \<and>
    sess_contents c' = bs \<and> s_goodPieces c' = s_totalPieces c'"
proof -
  obtain c0 where c0: "sess_step w c (Message i (Some (BITFIELD # Bytes b))) = Some c0" "leeching c0 i bs"
    "s_totalPieces s = s_totalPieces c0" "missing c0 = missing c" "pset c0 = {0..<npieces c0} \<or> (\<exists>k. asks c0 i k)"
    using bitfield_step [OF assms(1-5)] by blast
  have "card (missing c) = card (missing c0)" using c0(4) by simp
  from exchange_completes [OF assms(6-8) assms(1) c0(2,3) this c0(5)] obtain s' c' where
    e: "exchange ws wc j i (card (missing c)) (s, c0) = Some (s', c')" "leeching c' i bs" "pset c' = {0..<npieces c'}"
    by blast
  have l: "length (sess_contents c') = length bs" "0 < plen c'"
    "\<forall>k \<in> pset c'. piece_bytes (sess_contents c') (plen c') k = piece_bytes bs (plen c') k"
    using e(2) by (auto simp: leeching_def)
  then have "sess_contents c' = bs" using e(3) by (intro pieces_determine [of "plen c'"]) simp_all
  moreover have "s_goodPieces c' = int (card (pset c'))" "s_totalPieces c' = int (npieces c')"
    using e(2) unfolding leeching_def sess_inv_def store_inv_def by blast+
  ultimately have "s_goodPieces c' = s_totalPieces c'" using e(3) by (simp only: card_atLeastLessThan diff_zero)
  then show ?thesis using c0(1) e(1) \<open>sess_contents c' = bs\<close> by blast
qed

text \<open>A seed and a client that has nothing of a task of five bytes.\<close>

definition ex_deployed_meta :: meta_info where
  "ex_deployed_meta = ex_meta\<lparr>mi_PieceLen := standardBlockLen, mi_Pieces := sha1 [1, 2, 3, 4, 5]\<rparr>"

definition ex_holder :: session where
  "ex_holder = (NewTaskSession ex_cfg ex_disk (ex_task\<lparr>dt_MetaInfo := ex_deployed_meta\<rparr>))
     \<lparr>s_fileStore := Some ex_store, s_pieceSet := Some ((fresh_bitset 1)\<lparr>bs_b := [128]\<rparr>),
      s_totalPieces := 1, s_totalSize := 5, s_lastPieceLength := 5, s_goodPieces := 1,
      s_heap := [ex_up], s_peers := [(''u'', 0)]\<rparr>"

definition ex_joiner :: session where
  "ex_joiner = ex_holder\<lparr>s_disk := ex_blank, s_pieceSet := Some (fresh_bitset 1), s_goodPieces := 0\<rparr>"

lemma ex_download_views:
  "sess_contents ex_holder = [1, 2, 3, 4, 5]" "sess_contents ex_joiner = [0, 0, 0, 0, 0]"
  "pset ex_holder = {0}" "pset ex_joiner = {}"
  "pieceLen ex_holder = standardBlockLen" "pieceLen ex_joiner = standardBlockLen"
  "sess_ref ex_holder = sha1 [1, 2, 3, 4, 5]" "sess_ref ex_joiner = sha1 [1, 2, 3, 4, 5]"
  "s_heap ex_holder = [ex_up]" "s_heap ex_joiner = [ex_up]"
  "s_totalPieces ex_holder = 1" "s_totalPieces ex_joiner = 1" "s_activePieces ex_holder = []" "s_activePieces ex_joiner = []"
  "s_pieceSet ex_holder = Some ((fresh_bitset 1)\<lparr>bs_b := [128]\<rparr>)" "s_pieceSet ex_joiner = Some (fresh_bitset 1)"
  "peer_at ex_holder 0 = ex_up" "peer_at ex_joiner 0 = ex_up"
  "s_fileStore ex_holder = Some ex_store" "s_fileStore ex_joiner = Some ex_store"
  "s_disk ex_holder = ex_disk" "s_disk ex_joiner = ex_blank" "s_totalSize ex_holder = 5" "s_totalSize ex_joiner = 5"
  "s_lastPieceLength ex_holder = 5" "s_lastPieceLength ex_joiner = 5"
  "s_goodPieces ex_holder = 1" "s_goodPieces ex_joiner = 0" "s_peers ex_holder = [(''u'', 0)]" "s_peers ex_joiner = [(''u'', 0)]"
  "\<not> s_ended ex_joiner" "dt_LinkChain (s_task ex_joiner) \<noteq> None"
proof -
  have "elems ((fresh_bitset 1)\<lparr>bs_b := [128]\<rparr>) = {0}"
    using bs.full_card [OF ex_one(1)] ex_one(2) bs.member [OF ex_one(1), of 0] ex_one(5) bs.members_bound [OF ex_one(1)] by auto
  then show "pset ex_holder = {0}" by (simp add: ex_holder_def pset_def)
qed (simp_all add: ex_joiner_def ex_holder_def NewTaskSession_def sess_contents_def ex_contents ex_blank pset_def ex_ones
      pieceLen_def ex_deployed_meta_def sess_ref_def peer_at_def ex_task_def)

lemma ex_download_inv: "sess_inv ex_holder" "sess_inv ex_joiner"
proof -
  have p: "piece_count (Suc (Suc (Suc (Suc (Suc 0))))) (nat standardBlockLen) = 1"
    by (simp add: piece_count_def standardBlockLen_def)
  have n: "npieces ex_holder = 1" "npieces ex_joiner = 1" using p by (simp_all add: ex_download_views)
  have good: "0 \<in> good_pieces (sess_ref ex_holder) (sess_contents ex_holder) (plen ex_holder)"
    using n by (simp add: good_pieces_def ex_download_views piece_bytes_def window_def standardBlockLen_def)
  have l: "Len (fresh_bitset 1) = 1" by (simp add: Len_def)
  have up: "peer_ok 1 ex_up" "p_address ex_up = ''u''"
    using ex_ones by (simp_all add: peer_ok_def ex_leech_views) (simp add: ex_up_def newPeer_def)
  have "store_inv ex_holder" "store_inv ex_joiner"
    unfolding store_inv_def n using good wf_fresh [of 1] ex_one(1,2) l
    by (simp_all add: ex_download_views plain_store_def ex_wf ex_blank)
  moreover have "peers_inv ex_holder" "peers_inv ex_joiner"
    using up by (auto simp: peers_inv_def ex_download_views)
  ultimately show "sess_inv ex_holder" "sess_inv ex_joiner" by (simp_all add: sess_inv_def active_inv_def ex_download_views)
qed

theorem download_completes_witness:
  "\<exists>c0 s' c'. sess_step ex_world ex_joiner (Message 0 (Some [BITFIELD, 128])) = Some c0 \<and>
    exchange (\<lambda>_. ex_world) (\<lambda>_. ex_world) 0 0 1 (ex_holder, c0) = Some (s', c') \<and> sess_contents c' = [1, 2, 3, 4, 5]"
proof -
  have p: "piece_count (Suc (Suc (Suc (Suc (Suc 0))))) (nat standardBlockLen) = 1"
    by (simp add: piece_count_def standardBlockLen_def)
  have s: "seeding ex_holder 0 [1, 2, 3, 4, 5]"
    using p ex_download_inv by (simp add: seeding_def ex_download_views ex_leech_views)
  have c: "joining ex_joiner 0 ex_holder"
    using ex_download_inv ex_download_views(32)
    by (simp add: joining_def ex_download_views ex_up_def newPeer_def)
  have w: "\<forall>n :: nat. w_writes ex_world 0" "\<forall>(n :: nat) i. w_writes ex_world i" "\<forall>n :: nat. world_ok ex_world" "w_writes ex_world 0"
    using ex_world_ok by (simp_all add: ex_world_def)
  have m: "card (missing ex_joiner) = 1" using p by (simp add: missing_def ex_download_views)
  have b: "Bytes ((fresh_bitset 1)\<lparr>bs_b := [128]\<rparr>) = [128]" by (simp add: Bytes_def)
  show ?thesis
    using download_completes [OF s ex_download_views(15) c ex_world_ok w(4) w(1-3)] unfolding m b by blast
qed

end
