(* ===== verification/SessMgnt.thy ===== *)
theory SessMgnt
  imports SessionClaims
begin

text \<open>
  \<open>p2p/sessionmgnt.go\<close>: the manager of a node's task sessions.  Its goroutine serves one
  channel at a time, and each session has a goroutine of its own; a step here is one turn of one
  of them.  The manager's calls into a session (\<open>Start\<close>, \<open>Quit\<close>, \<open>AcceptNewPeer\<close>) wait for
  room in a channel of the session: \<open>sm_call\<close> is the call the manager waits in.  A session that
  has timed out sends its id on \<open>stopSessChan\<close>, which holds one id, and waits there
  (\<open>to_waiting\<close>) while it is full.  Sessions are objects: \<open>sm_objs\<close> holds every session made, the
  map refers to them by position.  All sessions of a node use one file system, \<open>sm_disk\<close>.
\<close>

section \<open>The node\<close>

record task_obj =
  to_sess :: session
  to_running :: bool \<comment> \<open>\<open>Init\<close> has reached its event loop\<close>
  to_waiting :: bool
  to_conns :: "peer_conn list" \<comment> \<open>\<open>addPeerChan\<close>, which holds five\<close>

datatype mgr_call = Starting nat start_task | Quitting nat | Accepting nat peer_conn

record sess_mgr =
  sm_cfg :: config
  sm_disk :: disk
  sm_objs :: "task_obj list"
  sm_sessions :: "(string \<times> nat) list"
  sm_stops :: "string list" \<comment> \<open>\<open>stopSessChan\<close>\<close>
  sm_call :: "mgr_call option"
  sm_quitting :: "nat list" \<comment> \<open>the \<open>go ts.Quit()\<close> at the end\<close>
  sm_refused :: "peer_conn list"
  sm_ended :: bool

definition NewSessionMgnt :: "config \<Rightarrow> disk \<Rightarrow> sess_mgr option" where
  "NewSessionMgnt cfg d = do {
     c \<leftarrow> c_Control cfg;
     if MaxActive c < 0 then None
     else Some \<lparr>sm_cfg = cfg, sm_disk = d, sm_objs = [], sm_sessions = [], sm_stops = [],
       sm_call = None, sm_quitting = [], sm_refused = [], sm_ended = False\<rparr>
   }"

definition sess_of :: "sess_mgr \<Rightarrow> nat \<Rightarrow> session" where
  "sess_of m i = to_sess (sm_objs m ! i)"

definition upd_obj :: "sess_mgr \<Rightarrow> nat \<Rightarrow> (task_obj \<Rightarrow> task_obj) \<Rightarrow> sess_mgr" where
  "upd_obj m i f = m\<lparr>sm_objs := (sm_objs m)[i := f (sm_objs m ! i)]\<rparr>"

text \<open>One turn of session \<open>i\<close>, on the node's files.\<close>

definition on_sess :: "sess_mgr \<Rightarrow> nat \<Rightarrow> (session \<Rightarrow> session option) \<Rightarrow> sess_mgr option" where
  "on_sess m i f = do {
     t \<leftarrow> f ((sess_of m i)\<lparr>s_disk := sm_disk m\<rparr>);
     Some ((upd_obj m i (to_sess_update (\<lambda>_. t)))\<lparr>sm_disk := s_disk t\<rparr>)
   }"

text \<open>The rest of the keep-alive tick of a session that has told the manager to stop it.\<close>

definition afterStop :: "world \<Rightarrow> session \<Rightarrow> session option" where
  "afterStop w s = (let s = s\<lparr>s_stopSess := s_stopSess s @ [s_taskID s]\<rparr>
     in peersKeepAlive w s (w_ids w (map snd (s_peers s))))"

definition stop_room :: "sess_mgr \<Rightarrow> bool" where
  "stop_room m \<longleftrightarrow> length (sm_stops m) < 1"

definition sendStop :: "world \<Rightarrow> sess_mgr \<Rightarrow> nat \<Rightarrow> sess_mgr option" where
  "sendStop w m i = on_sess (m\<lparr>sm_stops := sm_stops m @ [s_taskID (sess_of m i)]\<rparr>) i (afterStop w)"

definition keepAliveTick :: "world \<Rightarrow> sess_mgr \<Rightarrow> nat \<Rightarrow> sess_mgr option" where
  "keepAliveTick w m i =
     (if sess_timeout w (sess_of m i)
      then (if stop_room m then sendStop w m i else Some (upd_obj m i (to_waiting_update (\<lambda>_. True))))
      else on_sess m i (\<lambda>s. sess_step w s Keep_Alive_Tick))"

section \<open>The loop of Start\<close>

definition createSession :: "sess_mgr \<Rightarrow> dispatch_task \<Rightarrow> sess_mgr" where
  "createSession m dt = m\<lparr>sm_objs := sm_objs m @
       [\<lparr>to_sess = NewTaskSession (sm_cfg m) (sm_disk m) dt, to_running = False, to_waiting = False, to_conns = []\<rparr>],
     sm_sessions := AList.update (dt_TaskID dt) (length (sm_objs m)) (sm_sessions m)\<rparr>"

definition startSession :: "sess_mgr \<Rightarrow> start_task \<Rightarrow> sess_mgr" where
  "startSession m st =
     (case map_of (sm_sessions m) (st_TaskID st) of
        None \<Rightarrow> m
      | Some i \<Rightarrow> m\<lparr>sm_call := Some (Starting i st)\<rparr>)"

definition stopSession :: "sess_mgr \<Rightarrow> string \<Rightarrow> sess_mgr" where
  "stopSession m tid =
     (case map_of (sm_sessions m) tid of
        None \<Rightarrow> m
      | Some i \<Rightarrow> m\<lparr>sm_sessions := AList.delete tid (sm_sessions m), sm_call := Some (Quitting i)\<rparr>)"

text \<open>\<open>answered\<close>: the byte that answers the header could be written; else the connection is
  forgotten, without closing it.\<close>

definition acceptConn :: "sess_mgr \<Rightarrow> peer_conn \<Rightarrow> bool \<Rightarrow> sess_mgr" where
  "acceptConn m c answered =
     (case map_of (sm_sessions m) (pc_taskID c) of
        None \<Rightarrow> m\<lparr>sm_refused := sm_refused m @ [c]\<rparr>
      | Some i \<Rightarrow> if answered then m\<lparr>sm_call := Some (Accepting i c)\<rparr> else m)"

text \<open>\<open>Quit\<close>: an ended session needs no signal.\<close>

definition quitSession :: "world \<Rightarrow> sess_mgr \<Rightarrow> nat \<Rightarrow> sess_mgr option" where
  "quitSession w m i = (if s_ended (sess_of m i) then Some m else on_sess m i (\<lambda>s. sess_step w s Quit_Session))"

text \<open>The call the manager waits in goes through.\<close>

definition callReturns :: "world \<Rightarrow> sess_mgr \<Rightarrow> sess_mgr option" where
  "callReturns w m =
     (case sm_call m of
        None \<Rightarrow> Some m
      | Some (Starting i st) \<Rightarrow> on_sess (m\<lparr>sm_call := None\<rparr>) i (\<lambda>s. sess_step w s (Start_Task st))
      | Some (Quitting i) \<Rightarrow> quitSession w (m\<lparr>sm_call := None\<rparr>) i
      | Some (Accepting i c) \<Rightarrow> Some (upd_obj (m\<lparr>sm_call := None\<rparr>) i (to_conns_update (\<lambda>cs. cs @ [c]))))"

datatype mgr_event = Recv_Create dispatch_task | Recv_Start start_task | Recv_Stop | Recv_Quit
  | Recv_Conn peer_conn bool | Call_Returns | Quit_Delivered nat | Api_Stop string
  | Session_Init nat | Session_Event nat sess_event | Stop_Sent nat | Take_Conn nat

fun mgr_step :: "world \<Rightarrow> sess_mgr \<Rightarrow> mgr_event \<Rightarrow> sess_mgr option" where
  "mgr_step w m (Recv_Create dt) = Some (createSession m dt)"
| "mgr_step w m (Recv_Start st) = Some (startSession m st)"
| "mgr_step w m Recv_Stop =
     Some (stopSession (m\<lparr>sm_stops := tl (sm_stops m)\<rparr>) (hd (sm_stops m)))"
| "mgr_step w m Recv_Quit = Some (m\<lparr>sm_quitting := map snd (sm_sessions m), sm_ended := True\<rparr>)"
| "mgr_step w m (Recv_Conn c answered) = Some (acceptConn m c answered)"
| "mgr_step w m Call_Returns = callReturns w m"
| "mgr_step w m (Quit_Delivered i) = quitSession w (m\<lparr>sm_quitting := remove1 i (sm_quitting m)\<rparr>) i"
| "mgr_step w m (Api_Stop tid) = Some (m\<lparr>sm_stops := sm_stops m @ [tid]\<rparr>)"
| "mgr_step w m (Session_Init i) =
     on_sess (upd_obj m i (to_running_update (\<lambda>_. True))) i (sess_Init w)"
| "mgr_step w m (Session_Event i e) =
     (if e = Keep_Alive_Tick then keepAliveTick w m i else on_sess m i (\<lambda>s. sess_step w s e))"
| "mgr_step w m (Stop_Sent i) = sendStop w (upd_obj m i (to_waiting_update (\<lambda>_. False))) i"
| "mgr_step w m (Take_Conn i) =
     on_sess (upd_obj m i (to_conns_update tl)) i (\<lambda>s. sess_step w s (Add_Peer (hd (to_conns (sm_objs m ! i)))))"

text \<open>
  When a turn is possible.  The manager receives only between its calls; a session receives
  only in its event loop; what the manager and the listener send to a session is not one of its
  own events.
\<close>

definition ready :: "sess_mgr \<Rightarrow> bool" where
  "ready m \<longleftrightarrow> sm_call m = None \<and> \<not> sm_ended m"

definition idle :: "sess_mgr \<Rightarrow> nat \<Rightarrow> bool" where
  "idle m i \<longleftrightarrow> i < length (sm_objs m) \<and> to_running (sm_objs m ! i) \<and> \<not> to_waiting (sm_objs m ! i) \<and>
     \<not> s_ended (sess_of m i)"

fun own_event :: "sess_event \<Rightarrow> bool" where
  "own_event (Add_Peer c) = False"
| "own_event (Start_Task st) = False"
| "own_event Quit_Session = False"
| "own_event _ = True"

definition call_ok :: "sess_mgr \<Rightarrow> bool" where
  "call_ok m = (case sm_call m of
     None \<Rightarrow> False
   | Some (Starting i st) \<Rightarrow> idle m i
   | Some (Quitting i) \<Rightarrow> idle m i \<or> s_ended (sess_of m i)
   | Some (Accepting i c) \<Rightarrow> length (to_conns (sm_objs m ! i)) < 5)"

fun mgr_ok :: "sess_mgr \<Rightarrow> mgr_event \<Rightarrow> bool" where
  "mgr_ok m Recv_Stop \<longleftrightarrow> ready m \<and> sm_stops m \<noteq> []"
| "mgr_ok m Call_Returns \<longleftrightarrow> call_ok m"
| "mgr_ok m (Quit_Delivered i) \<longleftrightarrow> i \<in> set (sm_quitting m) \<and> (idle m i \<or> s_ended (sess_of m i))"
| "mgr_ok m (Api_Stop tid) \<longleftrightarrow> stop_room m"
| "mgr_ok m (Session_Init i) \<longleftrightarrow> i < length (sm_objs m) \<and> \<not> to_running (sm_objs m ! i)"
| "mgr_ok m (Session_Event i e) \<longleftrightarrow> idle m i \<and> own_event e \<and> event_ok (sess_of m i) e"
| "mgr_ok m (Stop_Sent i) \<longleftrightarrow> i < length (sm_objs m) \<and> to_waiting (sm_objs m ! i) \<and> stop_room m"
| "mgr_ok m (Take_Conn i) \<longleftrightarrow> idle m i \<and> to_conns (sm_objs m ! i) \<noteq> []"
| "mgr_ok m _ \<longleftrightarrow> ready m"

inductive mgr_next :: "sess_mgr \<Rightarrow> sess_mgr \<Rightarrow> bool" where
  event: "\<lbrakk>mgr_ok m e; world_ok w; mgr_step w m e = Some t\<rbrakk> \<Longrightarrow> mgr_next m t"

inductive_cases mgr_nextE: "mgr_next m t"

abbreviation mgr_runs :: "sess_mgr \<Rightarrow> sess_mgr \<Rightarrow> bool" where
  "mgr_runs \<equiv> mgr_next\<^sup>*\<^sup>*"

end
