(* ===== verification/SessFrame.thy ===== *)
theory SessFrame
  imports SessionClaims
begin

text \<open>
  What a session leaves alone: its id, its configuration, and every file that is not one of its
  own.  Most operations do not touch the disk at all (\<open>fx\<close> is unchanged).
\<close>

section \<open>The footprint of a session\<close>

definition own_files :: "session \<Rightarrow> string set" where
  "own_files s = (case s_fileStore s of None \<Rightarrow> {} | Some fs \<Rightarrow> fe_file ` set (fs_files fs))"

text \<open>The offsets and the files of a store; only its cache ever changes.\<close>

definition layout :: "session \<Rightarrow> (int list \<times> file_entry list) option" where
  "layout s = map_option (\<lambda>fs. (fs_offsets fs, fs_files fs)) (s_fileStore s)"

definition aligned :: "session \<Rightarrow> bool" where
  "aligned s \<longleftrightarrow> (\<forall>fs. s_fileStore s = Some fs \<longrightarrow> length (fs_offsets fs) \<le> length (fs_files fs))"

definition confined :: "session \<Rightarrow> session \<Rightarrow> bool" where
  "confined s t \<longleftrightarrow> s_taskID t = s_taskID s \<and> s_cfg t = s_cfg s \<and> layout t = layout s \<and>
     (\<forall>p. p \<notin> own_files s \<longrightarrow> s_disk t p = s_disk s p)"

lemma layout_views:
  assumes "layout t = layout s"
  shows "own_files t = own_files s" "aligned t = aligned s"
  using assms by (cases "s_fileStore s"; cases "s_fileStore t"; simp add: layout_def own_files_def aligned_def)+

lemma frame_views:
  assumes "confined s t"
  shows "own_files t = own_files s" "aligned t = aligned s"
  using assms layout_views [of t s] by (simp_all add: confined_def)

lemma frame_refl [simp]: "confined s s"
  by (simp add: confined_def)

lemma frame_trans:
  assumes "confined s t" "confined t u"
  shows "confined s u"
  using assms frame_views(1) [OF assms(1)] by (simp add: confined_def)

definition fx :: "session \<Rightarrow> _" where
  "fx s = (s_taskID s, s_cfg s, s_disk s, s_fileStore s)"

lemma frame_fx: "fx t = fx s \<Longrightarrow> confined s t"
  by (simp add: fx_def confined_def layout_def)

lemma fx_upd_peer [simp]: "fx (upd_peer s i f) = fx s"
  by (simp add: fx_def upd_peer_def)

lemma fx_fields [simp]:
  "fx (set_active s k a) = fx s" "fx (s\<lparr>s_heap := h\<rparr>) = fx s" "fx (s\<lparr>s_peers := ps\<rparr>) = fx s"
  "fx (s\<lparr>s_activePieces := as\<rparr>) = fx s"
  "fx (s\<lparr>s_indexInChain := x\<rparr>) = fx s" "fx (s\<lparr>s_startAt := st\<rparr>) = fx s" "fx (s\<lparr>s_retryConn := r\<rparr>) = fx s"
  "fx (s\<lparr>s_stopSess := q\<rparr>) = fx s" "fx (s\<lparr>s_ended := e\<rparr>) = fx s" "fx (s\<lparr>s_reportStep := n\<rparr>) = fx s"
  "fx (s\<lparr>s_finishedAt := f\<rparr>) = fx s" "fx (s\<lparr>s_downloaded := dl\<rparr>) = fx s" "fx (s\<lparr>s_deploys := dk\<rparr>) = fx s"
  "fx (s\<lparr>s_task := dt\<rparr>) = fx s" "fx (s\<lparr>s_connFailCount := c\<rparr>) = fx s" "fx (s\<lparr>s_reports := rs\<rparr>) = fx s"
  "fx (s\<lparr>s_pieceSet := b\<rparr>) = fx s" "fx (s\<lparr>s_goodPieces := g\<rparr>) = fx s"
  by (simp_all add: fx_def set_active_def)

lemma fx_send_peer: "send_peer w s i f = Some t \<Longrightarrow> fx t = fx s"
  by (auto simp: send_peer_def split: if_splits)

lemma fx_reportStatus: "sess_reportStatus s x = Some t \<Longrightarrow> fx t = fx s"
  by (auto simp: sess_reportStatus_def bind_eq_Some_conv)

lemma fx_requestBlock2: "requestBlock2 w s i k e = Some (t, err) \<Longrightarrow> fx t = fx s"
  unfolding requestBlock2_def requestBlockImp_eq Let_def
  by (auto split: Option.bind_split_asm prod.split_asm sum.split_asm if_split_asm option.split_asm dest!: fx_send_peer)

lemma fx_tryActive: "tryActive w s i e ks err = Some (t, r) \<Longrightarrow> fx t = fx s"
proof (induction ks arbitrary: s err)
  case (Cons k ks)
  then show ?case by (force split: Option.bind_split_asm prod.split_asm sum.split_asm if_split_asm option.split_asm dest: fx_requestBlock2)
qed simp

lemma fx_requestBlock: "requestBlock w call s i = Some (t, err) \<Longrightarrow> fx t = fx s"
  unfolding requestBlock_def
  by (auto split: Option.bind_split_asm prod.split_asm sum.split_asm if_split_asm option.split_asm dest!: fx_tryActive fx_requestBlock2)

lemma fx_requestMany:
  "fold (\<lambda>call r. do { s \<leftarrow> r; (s, _) \<leftarrow> requestBlock w call s i; Some s }) calls (Some s) = Some t \<Longrightarrow> fx t = fx s"
proof (induction calls arbitrary: s)
  case (Cons c calls)
  have none: "fold (\<lambda>call r. do { s \<leftarrow> r; (s, _) \<leftarrow> requestBlock w call s i; Some s }) calls None = None"
    by (induction calls) auto
  show ?case
  proof (cases "requestBlock w c s i")
    case None
    then show ?thesis using Cons.prems none by simp
  next
    case (Some te)
    then show ?thesis using Cons fx_requestBlock [of w c s i] by (cases te) simp
  qed
qed simp

lemma fx_removeRequest: "removeRequest s piece block = Some t \<Longrightarrow> fx t = fx s"
  by (auto simp: removeRequest_def bind_eq_Some_conv split: option.splits if_splits)

lemma fx_removeKeys: "removeKeys s ks = Some t \<Longrightarrow> fx t = fx s"
  by (induction ks arbitrary: s) (auto simp: bind_eq_Some_conv dest!: fx_removeRequest)

lemma fx_ClosePeer: "ClosePeer s i = Some t \<Longrightarrow> fx t = fx s"
  by (auto simp: ClosePeer_def removeRequests_def bind_eq_Some_conv dest!: fx_removeKeys)

lemma fx_addPeerImp: "addPeerImp w s c = Some t \<Longrightarrow> fx t = fx s"
  by (auto simp: addPeerImp_def bind_eq_Some_conv Let_def split: option.splits dest!: fx_send_peer)

lemma fx_tryNewPeer: "tryNewPeer w s = Some t \<Longrightarrow> fx t = fx s"
  unfolding tryNewPeer_eq connectToPeer_def
  by (auto split: Option.bind_split_asm dial_result.split_asm dest!: fx_addPeerImp)

lemma fx_closePeerAndTryReconn: "closePeerAndTryReconn w s i = Some t \<Longrightarrow> fx t = fx s"
  by (auto simp: closePeerAndTryReconn_def bind_eq_Some_conv split: if_splits dest!: fx_ClosePeer fx_tryNewPeer)

lemma fx_closeAll: "closeAll s is = Some t \<Longrightarrow> fx t = fx s"
  by (induction "is" arbitrary: s) (auto simp: bind_eq_Some_conv dest!: fx_ClosePeer)

lemma fx_initPeersBitset: "initPeersBitset s is = Some t \<Longrightarrow> fx t = fx s"
  by (induction "is" arbitrary: s) (auto simp: initPeerBitset_def bind_eq_Some_conv split: if_splits)

lemma fx_startImp: "startImp w s st = Some t \<Longrightarrow> fx t = fx s"
  by (auto simp: startImp_def bind_eq_Some_conv Let_def split: if_splits
      dest!: fx_reportStatus fx_tryNewPeer fx_initPeersBitset)

lemma fx_checkRequestKeys: "checkRequestKeys now s ks = Some t \<Longrightarrow> fx t = fx s"
proof (induction ks arbitrary: s)
  case (Cons kv ks)
  then show ?case by (cases kv) (force split: Option.bind_split_asm if_split_asm dest: fx_removeRequest)
qed simp

lemma fx_peersKeepAlive: "peersKeepAlive w s is = Some t \<Longrightarrow> fx t = fx s"
  by (induction "is" arbitrary: s)
    (auto simp: bind_eq_Some_conv Let_def doCheckRequests_def split: if_splits
      dest!: fx_ClosePeer fx_checkRequestKeys fx_send_peer)

lemma fx_broadcastHave: "broadcastHave w s piece is = Some t \<Longrightarrow> fx t = fx s"
  by (induction "is" arbitrary: s)
    (auto simp: bind_eq_Some_conv split: option.splits if_splits dest!: fx_send_peer)

lemma fx_progress: "progress w s = Some t \<Longrightarrow> fx t = fx s"
  by (auto simp: progress_def Let_def bind_eq_Some_conv sess_deploy_def split: if_splits dest!: fx_reportStatus)

lemma fx_handleHave: "handleHave w s i m = Some (t, err) \<Longrightarrow> fx t = fx s"
  by (auto simp: handleHave_def Let_def bind_eq_Some_conv split: if_splits dest!: fx_requestMany)

lemma fx_handleBitfield: "handleBitfield w s i m = Some (t, err) \<Longrightarrow> fx t = fx s"
  by (auto simp: handleBitfield_def Let_def bind_eq_Some_conv split: if_splits dest!: fx_requestBlock)

lemma fx_handleRequest: "handleRequest w s i m = Some (t, err) \<Longrightarrow> fx t = fx s"
  unfolding handleRequest_def sendPiece_def Let_def
  by (auto split: Option.bind_split_asm prod.split_asm sum.split_asm if_split_asm option.split_asm dest!: fx_send_peer)

section \<open>Writes stay in the session's files\<close>

lemma osFile_WriteAt_frame: "osFile_WriteAt d f p off = (d', n, err) \<Longrightarrow> q \<noteq> f \<Longrightarrow> d' q = d q"
  by (auto simp: osFile_WriteAt_def split: option.splits if_splits)

lemma writeFiles_frame:
  "q \<notin> fe_file ` set (fs_files fs) \<Longrightarrow> length (fs_offsets fs) \<le> length (fs_files fs) \<Longrightarrow>
   fst (writeFiles d fs index p off) q = d q"
proof (induction d fs index p off rule: writeFiles.induct)
  case (1 d fs index p off)
  show ?case
  proof (cases "p \<noteq> [] \<and> index < length (fs_offsets fs)")
    case True
    let ?e = "fs_files fs ! index" and ?o = "off - fs_offsets fs ! index"
    let ?c = "nat (min (int (length p)) (fe_length ?e - ?o))"
    obtain d' n err where w: "osFile_WriteAt d (fe_file ?e) (take ?c p) ?o = (d', n, err)"
      by (cases "osFile_WriteAt d (fe_file ?e) (take ?c p) ?o")
    have "?e \<in> set (fs_files fs)" using True "1.prems"(2) by simp
    then have "q \<noteq> fe_file ?e" using "1.prems"(1) by blast
    then have d': "d' q = d q" using osFile_WriteAt_frame [OF w] by blast
    show ?thesis
      using True w d' "1.IH" [OF True refl refl] "1.prems"
      by (subst writeFiles.simps) (auto simp: Let_def split: option.split prod.split)
  qed (subst writeFiles.simps, auto)
qed

lemma RawWriteAt_frame:
  assumes "q \<notin> fe_file ` set (fs_files fs)" "length (fs_offsets fs) \<le> length (fs_files fs)"
  shows "RawWriteAt d fs p off = (d', n, err) \<Longrightarrow> d' q = d q"
  using writeFiles_frame [OF assms] by (metis RawWriteAt_def fst_conv)

lemma writeBack_frame:
  "q \<notin> fe_file ` set (fs_files fs) \<Longrightarrow> length (fs_offsets fs) \<le> length (fs_files fs) \<Longrightarrow> writeBack d fs ncs q = d q"
proof (induction ncs arbitrary: d)
  case (Cons nc ncs)
  obtain d' n err where w: "RawWriteAt d fs (w_data nc) (w_i nc) = (d', n, err)"
    by (cases "RawWriteAt d fs (w_data nc) (w_i nc)")
  show ?case using Cons RawWriteAt_frame [OF Cons.prems w] by (simp add: w)
qed simp

lemma fs_WriteAt_frame:
  assumes "fs_WriteAt srt clk d fs p off = Ret (d', fs', n, err)" "length (fs_offsets fs) \<le> length (fs_files fs)"
  shows "fs_offsets fs' = fs_offsets fs \<and> fs_files fs' = fs_files fs \<and> (\<forall>q. q \<notin> fe_file ` set (fs_files fs) \<longrightarrow> d' q = d q)"
proof (cases "fs_cache fs")
  case None
  then show ?thesis using assms RawWriteAt_frame [OF _ assms(2)]
    by (auto simp: fs_WriteAt_def Let_def split: prod.splits)
next
  case (Some c)
  then obtain c' need where "cache_writeAt srt clk c p off = Ret (c', need)"
    using assms(1) by (cases "cache_writeAt srt clk c p off") (auto simp: fs_WriteAt_def)
  then show ?thesis using assms Some writeBack_frame [OF _ assms(2)] by (auto simp: fs_WriteAt_def)
qed

lemma fs_Commit_frame:
  assumes "fs_Commit d fs k p off = Ret (d', fs')" "length (fs_offsets fs) \<le> length (fs_files fs)"
  shows "fs_offsets fs' = fs_offsets fs \<and> fs_files fs' = fs_files fs \<and> (\<forall>q. q \<notin> fe_file ` set (fs_files fs) \<longrightarrow> d' q = d q)"
proof (cases "fs_cache fs")
  case None
  then show ?thesis using assms by (simp add: fs_Commit_def)
next
  case (Some c)
  obtain d1 n err where w: "RawWriteAt d fs p off = (d1, n, err)" by (cases "RawWriteAt d fs p off")
  have f: "q \<notin> fe_file ` set (fs_files fs) \<Longrightarrow> d1 q = d q" for q using RawWriteAt_frame [OF _ assms(2) w] by blast
  show ?thesis
  proof (cases err)
    case None
    then show ?thesis using assms(1) Some f by (cases "MarkCommitted c k") (auto simp: fs_Commit_def w)
  next
    case (Some e)
    then show ?thesis using assms(1) \<open>fs_cache fs = Some c\<close> f by (auto simp: fs_Commit_def w)
  qed
qed

lemma frame_store:
  assumes "s_fileStore s = Some fs" "fs_offsets fs' = fs_offsets fs \<and> fs_files fs' = fs_files fs \<and>
      (\<forall>q. q \<notin> fe_file ` set (fs_files fs) \<longrightarrow> d' q = s_disk s q)"
  shows "confined s (s\<lparr>s_disk := d', s_fileStore := Some fs'\<rparr>)"
  using assms by (simp add: confined_def layout_def own_files_def)

lemma finishPiece_frame:
  assumes "finishPiece w s i piece = Some t" "aligned s"
  shows "confined s t"
proof -
  let ?s = "s\<lparr>s_activePieces := AList.delete (uint piece) (s_activePieces s)\<rparr>"
  obtain fs good bytes err where fs: "s_fileStore s = Some fs" and chk: "returns (checkPiece (s_disk s) fs (s_totalSize s)
      (dt_MetaInfo (s_task s)) (uint piece)) = Some (good, bytes, err)"
    using assms(1) by (auto simp: finishPiece_def Let_def bind_eq_Some_conv)
  have s: "confined s ?s" by (rule frame_fx) simp
  show ?thesis
  proof (cases "\<not> good \<or> err \<noteq> None")
    case True
    then have "do { s \<leftarrow> sess_reportStatus ?s (-1); Some (upd_peer s i peerClose) } = Some t"
      using assms(1) by (simp add: finishPiece_def Let_def fs chk)
    then have "fx t = fx s" by (auto simp: bind_eq_Some_conv dest!: fx_reportStatus)
    then show ?thesis by (rule frame_fx)
  next
    case False
    then obtain d fs' b s1 where c: "fs_Commit (s_disk s) fs (uint piece) bytes (pieceLen ?s * uint piece) = Ret (d, fs')"
      and p: "progress w (?s\<lparr>s_disk := d, s_fileStore := Some fs', s_pieceSet := Some b,
         s_goodPieces := s_goodPieces s + 1\<rparr>) = Some s1"
      and t: "broadcastHave w s1 piece (w_ids w (map snd (s_peers s1))) = Some t"
      using assms(1)
      by (cases "fs_Commit (s_disk s) fs (uint piece) bytes (pieceLen ?s * uint piece)")
        (auto simp: finishPiece_def Let_def fs chk bind_eq_Some_conv)
    have "length (fs_offsets fs) \<le> length (fs_files fs)" using assms(2) fs by (simp add: aligned_def)
    note fs_Commit_frame [OF c this]
    then have "confined ?s (?s\<lparr>s_disk := d, s_fileStore := Some fs'\<rparr>)"
      using fs by (intro frame_store [of ?s fs]) simp_all
    moreover have "fx t = fx (?s\<lparr>s_disk := d, s_fileStore := Some fs'\<rparr>)"
      using fx_progress [OF p] fx_broadcastHave [OF t] by (simp add: fx_def)
    ultimately show ?thesis using s frame_fx frame_trans by blast
  qed
qed

lemma recordBlock_frame:
  assumes "sess_recordBlock w s i piece begin len = Some t" "aligned s"
  shows "confined s t"
proof -
  define s1 where "s1 = upd_peer s i (\<lambda>p. p\<lparr>p_ourRequests :=
       AList.delete (requestIndex (uint piece) (uint begin)) (p_ourRequests p)\<rparr>)"
  have c: "fx s1 = fx s" by (simp add: s1_def)
  have e: "(case map_of (s_activePieces s1) (uint piece) of
       None \<Rightarrow> Some s1
     | Some v \<Rightarrow> do {
         (v, _) \<leftarrow> ap_recordBlock v (uint begin div standardBlockLen);
         if \<not> isComplete v then Some ((set_active s1 (uint piece) v)\<lparr>s_downloaded := s_downloaded s1 + ucast len\<rparr>)
         else finishPiece w ((set_active s1 (uint piece) v)\<lparr>s_downloaded := s_downloaded s1 + ucast len\<rparr>) i piece
       }) = Some t"
    using assms unfolding sess_recordBlock_def Let_def s1_def by blast
  show ?thesis
  proof (cases "map_of (s_activePieces s1) (uint piece)")
    case None
    then show ?thesis using e c frame_fx by auto
  next
    case (Some v)
    then obtain v' c' where "ap_recordBlock v (uint begin div standardBlockLen) = Some (v', c')"
      using e by (cases "ap_recordBlock v (uint begin div standardBlockLen)") auto
    note e' = e [unfolded Some this option.case Option.bind.simps prod.case]
    define s3 where "s3 = (set_active s1 (uint piece) v')\<lparr>s_downloaded := s_downloaded s1 + ucast len\<rparr>"
    have f: "confined s s3" by (rule frame_fx) (simp add: s3_def c)
    then have "aligned s3" using frame_views(2) assms(2) by blast
    then have "confined s3 t"
      using e' finishPiece_frame [of w s3 i piece t] by (cases "isComplete v'") (simp_all add: s3_def [symmetric])
    with f show ?thesis by (rule frame_trans)
  qed
qed

lemma handlePiece_frame:
  assumes "handlePiece w s i message = Some (t, err)" "aligned s"
  shows "confined s t"
proof -
  obtain r where r: "decodePiece s i message = Some r"
    using assms(1) by (auto simp: handlePiece_def bind_eq_Some_conv)
  show ?thesis
  proof (cases r)
    case (Inl e)
    then show ?thesis using assms(1) r by (simp add: handlePiece_def)
  next
    case (Inr ibl)
    obtain index bgn len where ibl: "ibl = (index, bgn, len)" by (cases ibl)
    note e0 = assms(1) [unfolded handlePiece_def r Inr ibl Option.bind.simps sum.case prod.case]
    then obtain b where b: "s_pieceSet s = Some b" by (cases "s_pieceSet s") auto
    then obtain present where pr: "IsSet b (uint index) = Some present" using e0 by (cases "IsSet b (uint index)") auto
    note e1 = e0 [unfolded b pr Option.bind.simps]
    show ?thesis
    proof (cases present)
      case True
      then have "\<exists>x. requestBlock w 0 s i = Some (t, x)" using e1 by (auto simp: bind_eq_Some_conv)
      then show ?thesis using fx_requestBlock frame_fx by blast
    next
      case False
      then obtain fs where fs: "s_fileStore s = Some fs" using e1 by (cases "s_fileStore s") auto
      note e2 = e1 [unfolded fs Option.bind.simps]
      obtain d fs' n werr where wr: "fs_WriteAt (w_srt w) (w_clk w) (s_disk s) fs (drop 9 message)
            (uint index * pieceLen s + uint bgn) = Ret (d, fs', n, werr)"
        using e2 False
        by (cases "fs_WriteAt (w_srt w) (w_clk w) (s_disk s) fs (drop 9 message) (uint index * pieceLen s + uint bgn)") auto
      define s1 where "s1 = s\<lparr>s_disk := d, s_fileStore := Some fs'\<rparr>"
      have "length (fs_offsets fs) \<le> length (fs_files fs)" using assms(2) fs by (simp add: aligned_def)
      from frame_store [OF fs fs_WriteAt_frame [OF wr this]] have f1: "confined s s1" by (simp add: s1_def)
      have al: "aligned s1" using frame_views(2) f1 assms(2) by blast
      have e3: "(case werr of Some e \<Rightarrow> Some (s1, Some (Store_Error e))
           | None \<Rightarrow> do {
               s \<leftarrow> sess_recordBlock w s1 i index bgn len;
               (s, _) \<leftarrow> requestBlock w 0 s i;
               Some (s, None)
             }) = Some (t, err)"
        using e2 False unfolding wr s1_def by (simp only: if_False returns.simps Option.bind.simps prod.case Let_def)
      have "confined s1 t"
      proof (cases werr)
        case None
        then obtain s2 x where "sess_recordBlock w s1 i index bgn len = Some s2" "requestBlock w 0 s2 i = Some (t, x)"
          using e3 by (auto simp: bind_eq_Some_conv)
        then show ?thesis using recordBlock_frame [OF _ al] fx_requestBlock frame_fx frame_trans by blast
      qed (use e3 in simp)
      with f1 show ?thesis by (rule frame_trans)
    qed
  qed
qed

lemma doMessage_frame:
  assumes "doMessage w s i m = Some (t, err)" "aligned s"
  shows "confined s t"
proof -
  have "fx t = fx s \<or> confined s t"
    using assms unfolding doMessage_def generalMessage_def
    by (auto split: option.split_asm if_split_asm Option.bind_split_asm
        dest: fx_handleHave fx_handleBitfield fx_handleRequest handlePiece_frame)
  then show ?thesis using frame_fx by blast
qed

text \<open>Every turn of the session's event loop stays inside its footprint.\<close>

lemma sess_step_frame:
  assumes "sess_step w s e = Some t" "aligned s"
  shows "confined s t"
proof (cases e)
  case (Message i m)
  let ?s = "upd_peer s i (\<lambda>p. p\<lparr>p_lastReadTime := Some (w_now w)\<rparr>)"
  have f: "confined s ?s" by (rule frame_fx) simp
  then have al: "aligned ?s" using frame_views(2) assms(2) by blast
  obtain s1 err where d: "doMessage w ?s i m = Some (s1, err)"
    and r: "(case err of None \<Rightarrow> Some s1 | Some Eof \<Rightarrow> ClosePeer s1 i | Some _ \<Rightarrow> closePeerAndTryReconn w s1 i) = Some t"
    using assms(1) Message by (auto simp: bind_eq_Some_conv)
  have "fx t = fx s1"
    using r by (auto split: option.split_asm sess_error.split_asm dest: fx_ClosePeer fx_closePeerAndTryReconn)
  then show ?thesis using doMessage_frame [OF d al] f frame_fx frame_trans by blast
next
  case (Add_Peer c)
  then show ?thesis using assms(1) by (auto dest: fx_addPeerImp intro: frame_fx)
next
  case (Start_Task st)
  then show ?thesis using assms(1) by (auto dest: fx_startImp intro: frame_fx)
next
  case Keep_Alive_Tick
  then show ?thesis using assms(1) by (auto simp: Let_def dest!: fx_peersKeepAlive intro!: frame_fx split: if_splits)
next
  case Retry_Tick
  then show ?thesis using assms(1) by (auto dest!: fx_tryNewPeer intro!: frame_fx)
next
  case Quit_Session
  then show ?thesis using assms(1) by (auto simp: sess_shutdown_def bind_eq_Some_conv dest!: fx_closeAll intro!: frame_fx)
qed (use assms in simp)

section \<open>Initialising\<close>

lemma openFiles_aligned:
  assumes "openFiles opn d srcs fs n = Some (d', Inr (fs', n'))" "length (fs_offsets fs) = length (fs_files fs)"
  shows "length (fs_offsets fs') = length (fs_files fs')"
  using assms
proof (induction srcs arbitrary: d fs n)
  case (Cons src srcs)
  obtain d1 f where "openFiles opn d1 srcs
      (fs\<lparr>fs_files := fs_files fs @ [\<lparr>fe_length = fd_Length src, fe_file = f\<rparr>],
          fs_offsets := fs_offsets fs @ [n]\<rparr>) (n + fd_Length src) = Some (d', Inr (fs', n'))"
    using Cons.prems(1) by (auto split: option.splits sum.splits)
  from Cons.IH [OF this] Cons.prems(2) show ?case by simp
qed simp

definition kept :: "session \<Rightarrow> session \<Rightarrow> bool" where
  "kept s t \<longleftrightarrow> s_taskID t = s_taskID s \<and> s_cfg t = s_cfg s \<and> (aligned s \<longrightarrow> aligned t)"

lemma kept_trans: "kept s t \<Longrightarrow> kept t u \<Longrightarrow> kept s u"
  by (simp add: kept_def)

lemma kept_confined: "confined s t \<Longrightarrow> kept s t"
  using frame_views(2) [of s t] by (simp add: kept_def confined_def)

lemma kept_sess_init:
  assumes "sess_init w s = Some (t, ok)"
  shows "kept s t"
proof -
  obtain d r where o1: "NewFileStore (osFs_Open (w_fs w)) (s_disk s) (dt_MetaInfo (s_task s)) = Some (d, r)"
    using assms by (cases "NewFileStore (osFs_Open (w_fs w)) (s_disk s) (dt_MetaInfo (s_task s))")
      (auto simp: sess_init_def)
  note e = assms [unfolded sess_init_def Let_def o1 Option.bind.simps prod.case]
  show ?thesis
  proof (cases r)
    case (Inl x)
    then show ?thesis using e by (auto simp: kept_def aligned_def)
  next
    case (Inr fsn)
    obtain fs n where fsn: "fsn = (fs, n)" by (cases fsn)
    have "length (fs_offsets fs) = length (fs_files fs)"
      using o1 unfolding Inr fsn NewFileStore_def by (rule openFiles_aligned) simp
    then show ?thesis using e by (auto simp: Inr fsn kept_def aligned_def bind_eq_Some_conv)
  qed
qed

definition fixed_store :: "session \<Rightarrow> session \<Rightarrow> bool" where
  "fixed_store s t \<longleftrightarrow> s_taskID t = s_taskID s \<and> s_cfg t = s_cfg s \<and> s_fileStore t = s_fileStore s"

lemma kept_fixed: "fixed_store s t \<Longrightarrow> kept s t"
  by (simp add: fixed_store_def kept_def aligned_def)

lemma kept_sess_Init:
  assumes "sess_Init w s = Some t"
  shows "kept s t"
proof (cases "c_Server (s_cfg s)")
  case True
  then have "initInServer w s = Some t" using assms by (simp add: sess_Init_def)
  then obtain s1 ok where i: "sess_init w s = Some (s1, ok)"
    by (cases "sess_init w s") (auto simp: initInServer_def)
  then have "fixed_store s1 t"
    using \<open>initInServer w s = Some t\<close> unfolding initInServer_def
    by (auto simp: fixed_store_def split: Option.bind_split_asm if_split_asm)
  then have "kept s1 t" by (rule kept_fixed)
  with kept_sess_init [OF i] show ?thesis by (rule kept_trans)
next
  case False
  then have c: "initInClient w s = Some t" using assms by (simp add: sess_Init_def)
  let ?s = "clientFiles (s_cfg s) s"
  obtain s1 ok where i: "sess_init w ?s = Some (s1, ok)"
    using c by (cases "sess_init w ?s") (auto simp: initInClient_def Let_def)
  have "fixed_store s1 t"
    using c unfolding initInClient_def Let_def i
    by (auto simp: fixed_store_def split: Option.bind_split_asm if_split_asm prod.split_asm)
  then have "kept s1 t" by (rule kept_fixed)
  moreover have "kept s ?s" by (simp add: clientFiles_def Let_def kept_def aligned_def)
  ultimately show ?thesis using kept_sess_init [OF i] kept_trans by blast
qed

section \<open>Files changed by another session\<close>

lemma contents_agree:
  assumes "\<forall>p \<in> fe_file ` set (fs_files fs). d' p = d p"
  shows "contents d' fs = contents d fs" "wf_store d' fs = wf_store d fs"
proof -
  have m: "map (content d') (fs_files fs) = map (content d) (fs_files fs)"
    using assms by (simp add: content_def)
  show "contents d' fs = contents d fs" unfolding contents_def contents_from_def drop_0 m by (rule refl)
  show "wf_store d' fs = wf_store d fs" using assms by (simp add: wf_store_def)
qed

lemma inv_other_disk:
  assumes "\<forall>p \<in> own_files s. d p = s_disk s p"
  shows "sess_contents (s\<lparr>s_disk := d\<rparr>) = sess_contents s" "sess_inv (s\<lparr>s_disk := d\<rparr>) = sess_inv s"
proof -
  let ?t = "s\<lparr>s_disk := d\<rparr>"
  have ag: "contents d fs = contents (s_disk s) fs" "wf_store d fs = wf_store (s_disk s) fs"
    if "s_fileStore s = Some fs" for fs
    using contents_agree [of fs d "s_disk s"] assms that by (simp_all add: own_files_def)
  show c: "sess_contents ?t = sess_contents s"
    using ag by (simp add: sess_contents_def split: option.split)
  have v: "sess_ref ?t = sess_ref s" "pset ?t = pset s" "pieceLen ?t = pieceLen s"
    by (simp_all add: sess_ref_def pset_def pieceLen_def)
  have "(\<exists>fs. s_fileStore s = Some fs \<and> plain_store d fs) \<longleftrightarrow> (\<exists>fs. s_fileStore s = Some fs \<and> plain_store (s_disk s) fs)"
    using ag(2) by (auto simp: plain_store_def)
  then have "store_inv ?t = store_inv s" unfolding store_inv_def c v by simp
  moreover have "active_inv ?t = active_inv s"
    by (simp add: active_inv_def active_ok_def sess_pieceLength_def v)
  moreover have "peers_inv ?t = peers_inv s" by (simp add: peers_inv_def peer_at_def)
  ultimately show "sess_inv ?t = sess_inv s" by (simp add: sess_inv_def)
qed

end
