(* ===== verification/SessMgntInv.thy ===== *)
theory SessMgntInv
  imports SessMgnt SessFrame
begin

text \<open>
  What holds in every state of a node's session manager, and what one session's turns leave of
  the other sessions.
\<close>

section \<open>One turn of a session\<close>

text \<open>What session \<open>i\<close> sees: its own state and the node's files.\<close>

definition sess_view :: "sess_mgr \<Rightarrow> nat \<Rightarrow> session" where
  "sess_view m i = (sess_of m i)\<lparr>s_disk := sm_disk m\<rparr>"

lemma on_sess_SomeD:
  assumes "on_sess m i f = Some m'"
  shows "\<exists>t. f (sess_view m i) = Some t \<and> m' = (upd_obj m i (to_sess_update (\<lambda>_. t)))\<lparr>sm_disk := s_disk t\<rparr>"
  using assms by (auto simp: on_sess_def sess_view_def bind_eq_Some_conv)

lemma upd_obj_views [simp]:
  "sm_cfg (upd_obj m i f) = sm_cfg m" "sm_disk (upd_obj m i f) = sm_disk m" "sm_sessions (upd_obj m i f) = sm_sessions m"
  "sm_stops (upd_obj m i f) = sm_stops m" "sm_call (upd_obj m i f) = sm_call m" "sm_quitting (upd_obj m i f) = sm_quitting m"
  "sm_ended (upd_obj m i f) = sm_ended m" "length (sm_objs (upd_obj m i f)) = length (sm_objs m)"
  by (simp_all add: upd_obj_def)

lemma upd_obj_nth:
  "i < length (sm_objs m) \<Longrightarrow> sm_objs (upd_obj m i f) ! j = (if j = i then f (sm_objs m ! i) else sm_objs m ! j)"
  by (simp add: upd_obj_def)

definition obj_inv :: "task_obj \<Rightarrow> bool" where
  "obj_inv x \<longleftrightarrow> aligned (to_sess x) \<and> length (to_conns x) \<le> 5 \<and>
     (\<forall>c \<in> set (to_conns x). pc_taskID c = s_taskID (to_sess x))"

definition call_inv :: "sess_mgr \<Rightarrow> bool" where
  "call_inv m = (case sm_call m of
     None \<Rightarrow> True
   | Some (Starting i st) \<Rightarrow> i < length (sm_objs m) \<and> st_TaskID st = s_taskID (sess_of m i)
   | Some (Quitting i) \<Rightarrow> i < length (sm_objs m)
   | Some (Accepting i c) \<Rightarrow> i < length (sm_objs m) \<and> pc_taskID c = s_taskID (sess_of m i))"

definition mgr_inv :: "sess_mgr \<Rightarrow> bool" where
  "mgr_inv m \<longleftrightarrow> distinct (map fst (sm_sessions m)) \<and>
     (\<forall>tid i. map_of (sm_sessions m) tid = Some i \<longrightarrow> i < length (sm_objs m) \<and> s_taskID (sess_of m i) = tid) \<and>
     (\<forall>i < length (sm_objs m). obj_inv (sm_objs m ! i)) \<and> length (sm_stops m) \<le> 1 \<and>
     (\<forall>i \<in> set (sm_quitting m). i < length (sm_objs m)) \<and> call_inv m"

text \<open>The ids of the objects, which never change.\<close>

definition mgr_grows :: "sess_mgr \<Rightarrow> sess_mgr \<Rightarrow> bool" where
  "mgr_grows m t \<longleftrightarrow> sm_cfg t = sm_cfg m \<and> length (sm_objs m) \<le> length (sm_objs t) \<and>
     (\<forall>i < length (sm_objs m). s_taskID (sess_of t i) = s_taskID (sess_of m i))"

lemma mgr_grows_refl [simp]: "mgr_grows m m"
  by (simp add: mgr_grows_def)

lemma mgr_grows_trans: "mgr_grows m t \<Longrightarrow> mgr_grows t u \<Longrightarrow> mgr_grows m u"
  by (auto simp: mgr_grows_def)

lemma upd_obj_inv:
  assumes "mgr_inv m" "i < length (sm_objs m)" "s_taskID (to_sess (f (sm_objs m ! i))) = s_taskID (sess_of m i)"
    and "obj_inv (f (sm_objs m ! i))"
  shows "mgr_inv (upd_obj m i f) \<and> mgr_grows m (upd_obj m i f)"
proof -
  have n: "sm_objs (upd_obj m i f) ! j = (if j = i then f (sm_objs m ! i) else sm_objs m ! j)" for j
    by (rule upd_obj_nth [OF assms(2)])
  have ids: "s_taskID (sess_of (upd_obj m i f) j) = s_taskID (sess_of m j)" for j
    using assms(3) by (simp add: sess_of_def n)
  have "call_inv (upd_obj m i f) = call_inv m" by (simp add: call_inv_def ids cong: option.case_cong mgr_call.case_cong)
  then show ?thesis using assms(1,4) n by (simp add: mgr_inv_def mgr_grows_def ids)
qed

lemma mgr_inv_disk: "mgr_inv (m\<lparr>sm_disk := d\<rparr>) = mgr_inv m" "mgr_grows m (m\<lparr>sm_disk := d\<rparr>)"
  by (simp_all add: mgr_inv_def mgr_grows_def call_inv_def sess_of_def cong: option.case_cong mgr_call.case_cong)

lemma aligned_disk [simp]: "aligned (s\<lparr>s_disk := d\<rparr>) = aligned s" by (simp add: aligned_def)

lemma on_sess_inv:
  assumes "on_sess m i f = Some m'" "mgr_inv m" "i < length (sm_objs m)"
    and "\<And>t. f (sess_view m i) = Some t \<Longrightarrow> kept (sess_view m i) t"
  shows "mgr_inv m' \<and> mgr_grows m m'"
proof -
  obtain t where t: "f (sess_view m i) = Some t" "m' = (upd_obj m i (to_sess_update (\<lambda>_. t)))\<lparr>sm_disk := s_disk t\<rparr>"
    using on_sess_SomeD [OF assms(1)] by blast
  have k: "s_taskID t = s_taskID (sess_of m i)" "aligned (sess_of m i) \<Longrightarrow> aligned t"
    using assms(4) [OF t(1)] by (simp_all add: kept_def sess_view_def)
  have "obj_inv (sm_objs m ! i)" using assms(2,3) by (simp add: mgr_inv_def)
  then have "obj_inv (to_sess_update (\<lambda>_. t) (sm_objs m ! i))"
    using k by (simp add: obj_inv_def sess_of_def)
  then have "mgr_inv (upd_obj m i (to_sess_update (\<lambda>_. t))) \<and> mgr_grows m (upd_obj m i (to_sess_update (\<lambda>_. t)))"
    using k(1) by (intro upd_obj_inv [OF assms(2,3)]) simp_all
  then show ?thesis using mgr_inv_disk mgr_grows_trans unfolding t(2) by blast
qed

lemma kept_sess_step:
  assumes "sess_step w s e = Some t" "aligned s"
  shows "kept s t"
  using sess_step_frame [OF assms] by (rule kept_confined)

lemma afterStop_fx: "afterStop w s = Some t \<Longrightarrow> fx t = fx s"
  by (auto simp: afterStop_def Let_def dest: fx_peersKeepAlive)

lemma view_aligned: "mgr_inv m \<Longrightarrow> i < length (sm_objs m) \<Longrightarrow> aligned (sess_view m i)"
  by (simp add: mgr_inv_def obj_inv_def sess_view_def sess_of_def)

lemma fields_inv:
  assumes "mgr_inv m"
  shows "length q \<le> 1 \<Longrightarrow> mgr_inv (m\<lparr>sm_stops := q\<rparr>)" "mgr_inv (m\<lparr>sm_refused := r\<rparr>)" "mgr_inv (m\<lparr>sm_call := None\<rparr>)"
    "mgr_inv (m\<lparr>sm_quitting := remove1 i (sm_quitting m)\<rparr>)"
  using assms by (auto simp: mgr_inv_def call_inv_def sess_of_def dest: set_remove1_subset [THEN subsetD]
      cong: option.case_cong mgr_call.case_cong)

lemma fields_views [simp]:
  "sess_view (m\<lparr>sm_stops := q\<rparr>) i = sess_view m i" "sess_view (m\<lparr>sm_call := cl\<rparr>) i = sess_view m i"
  "sess_view (m\<lparr>sm_quitting := qs\<rparr>) i = sess_view m i"
  "sess_of (m\<lparr>sm_stops := q\<rparr>) i = sess_of m i" "sess_of (m\<lparr>sm_call := cl\<rparr>) i = sess_of m i"
  "sess_of (m\<lparr>sm_quitting := qs\<rparr>) i = sess_of m i"
  "mgr_grows (m\<lparr>sm_stops := q\<rparr>) x = mgr_grows m x" "mgr_grows (m\<lparr>sm_call := cl\<rparr>) x = mgr_grows m x"
  "mgr_grows (m\<lparr>sm_quitting := qs\<rparr>) x = mgr_grows m x"
  by (simp_all add: sess_view_def sess_of_def mgr_grows_def)

section \<open>The manager keeps its invariant\<close>

lemma createSession_inv:
  assumes "mgr_inv m" "ready m"
  shows "mgr_inv (createSession m dt) \<and> mgr_grows m (createSession m dt)"
proof -
  let ?t = "createSession m dt" and ?n = "length (sm_objs m)"
  have o: "sm_objs ?t = sm_objs m @ [\<lparr>to_sess = NewTaskSession (sm_cfg m) (sm_disk m) dt, to_running = False,
      to_waiting = False, to_conns = []\<rparr>]" by (simp add: createSession_def)
  have old: "sess_of ?t i = sess_of m i" "sm_objs ?t ! i = sm_objs m ! i" if "i < ?n" for i
    using that by (simp_all add: sess_of_def o nth_append)
  have new: "s_taskID (sess_of ?t ?n) = dt_TaskID dt" "obj_inv (sm_objs ?t ! ?n)"
    by (simp_all add: sess_of_def o obj_inv_def aligned_def NewTaskSession_def)
  have f: "sm_sessions ?t = AList.update (dt_TaskID dt) ?n (sm_sessions m)" "sm_stops ?t = sm_stops m"
    "sm_quitting ?t = sm_quitting m" "sm_call ?t = None" "sm_cfg ?t = sm_cfg m" "length (sm_objs ?t) = Suc ?n"
    using assms(2) by (simp_all add: createSession_def ready_def)
  have "i < Suc ?n \<and> s_taskID (sess_of ?t i) = tid" if "map_of (sm_sessions ?t) tid = Some i" for tid i
  proof (cases "tid = dt_TaskID dt")
    case True
    then show ?thesis using that new by (simp add: f(1) update_conv')
  next
    case False
    then have "map_of (sm_sessions m) tid = Some i" using that by (simp add: f(1) update_conv')
    then have "i < ?n \<and> s_taskID (sess_of m i) = tid" using assms(1) unfolding mgr_inv_def by blast
    then show ?thesis using old(1) [of i] by simp
  qed
  moreover have "\<forall>i < Suc ?n. obj_inv (sm_objs ?t ! i)"
    using assms(1) old(2) new(2) by (auto simp: mgr_inv_def less_Suc_eq)
  moreover have "\<forall>i \<in> set (sm_quitting m). i < Suc ?n" using assms(1) by (auto simp: mgr_inv_def)
  moreover have "distinct (map fst (sm_sessions ?t))" using assms(1) by (simp add: f(1) mgr_inv_def distinct_update)
  ultimately have "mgr_inv ?t"
    using assms(1) unfolding mgr_inv_def f(2-6) by (simp add: call_inv_def f)
  then show ?thesis using old by (simp add: mgr_grows_def f)
qed

text \<open>What the manager takes from its channels.\<close>

lemma receive_inv:
  assumes "mgr_inv m"
  shows "mgr_inv (startSession m st)" "mgr_inv (stopSession m tid)" "mgr_inv (acceptConn m c a)"
proof -
  have k: "map_of (sm_sessions m) k = Some i \<Longrightarrow> i < length (sm_objs m) \<and> s_taskID (sess_of m i) = k" for k i
    using assms by (simp add: mgr_inv_def)
  have call: "mgr_inv (m\<lparr>sm_call := Some x\<rparr>)" if "call_inv (m\<lparr>sm_call := Some x\<rparr>)" for x
    using assms that by (simp add: mgr_inv_def sess_of_def)
  show "mgr_inv (startSession m st)"
    using assms by (auto simp: startSession_def call_inv_def sess_of_def dest!: k intro!: call split: option.split)
  show "mgr_inv (acceptConn m c a)"
    using assms fields_inv(2) [OF assms]
    by (auto simp: acceptConn_def call_inv_def sess_of_def dest!: k intro!: call split: option.split)
  show "mgr_inv (stopSession m tid)"
    using assms
    by (auto simp: stopSession_def mgr_inv_def call_inv_def sess_of_def distinct_delete AList.delete_eq
        distinct_map_filter split: option.split)
qed

lemma receive_grows: "mgr_grows m (startSession m st)" "mgr_grows m (stopSession m tid)" "mgr_grows m (acceptConn m c a)"
  by (simp_all add: startSession_def stopSession_def acceptConn_def mgr_grows_def sess_of_def split: option.split)

lemma own_turn_inv:
  assumes "on_sess m i (\<lambda>s. sess_step w s e) = Some m'" "mgr_inv m" "i < length (sm_objs m)"
  shows "mgr_inv m' \<and> mgr_grows m m'"
  using on_sess_inv [OF assms] kept_sess_step view_aligned [OF assms(2,3)] by blast

lemma sendStop_inv:
  assumes "sendStop w m i = Some m'" "mgr_inv m" "i < length (sm_objs m)" "stop_room m"
  shows "mgr_inv m' \<and> mgr_grows m m'"
proof -
  let ?m = "m\<lparr>sm_stops := sm_stops m @ [s_taskID (sess_of m i)]\<rparr>"
  have "mgr_inv ?m" using assms(2,4) by (intro fields_inv) (simp_all add: stop_room_def)
  moreover have "kept s t" if "afterStop w s = Some t" for s t
    using kept_confined [OF frame_fx [OF afterStop_fx [OF that]]] .
  ultimately show ?thesis
    using on_sess_inv [OF assms(1) [unfolded sendStop_def]] assms(3) by simp
qed

lemma quitSession_inv:
  assumes "quitSession w m i = Some m'" "mgr_inv m" "i < length (sm_objs m)"
  shows "mgr_inv m' \<and> mgr_grows m m'"
  using assms own_turn_inv by (auto simp: quitSession_def split: if_splits simp del: sess_step.simps)

lemma flag_inv:
  assumes "mgr_inv m" "i < length (sm_objs m)"
  shows "mgr_inv (upd_obj m i (to_waiting_update f)) \<and> mgr_grows m (upd_obj m i (to_waiting_update f))"
    "mgr_inv (upd_obj m i (to_running_update f)) \<and> mgr_grows m (upd_obj m i (to_running_update f))"
    "mgr_inv (upd_obj m i (to_conns_update tl)) \<and> mgr_grows m (upd_obj m i (to_conns_update tl))"
proof -
  have "obj_inv (sm_objs m ! i)" using assms by (simp add: mgr_inv_def)
  then have "obj_inv (to_waiting_update f (sm_objs m ! i))" "obj_inv (to_running_update f (sm_objs m ! i))"
    "obj_inv (to_conns_update tl (sm_objs m ! i))"
    by (auto simp: obj_inv_def dest: list.set_sel(2) split: list.splits) (metis list.set_sel(2) tl_Nil)
  then show "mgr_inv (upd_obj m i (to_waiting_update f)) \<and> mgr_grows m (upd_obj m i (to_waiting_update f))"
    "mgr_inv (upd_obj m i (to_running_update f)) \<and> mgr_grows m (upd_obj m i (to_running_update f))"
    "mgr_inv (upd_obj m i (to_conns_update tl)) \<and> mgr_grows m (upd_obj m i (to_conns_update tl))"
    by (auto simp: sess_of_def intro!: upd_obj_inv [OF assms, THEN conjunct1] upd_obj_inv [OF assms, THEN conjunct2])
qed

lemma callReturns_inv:
  assumes "callReturns w m = Some m'" "mgr_inv m" "call_ok m"
  shows "mgr_inv m' \<and> mgr_grows m m'"
proof -
  let ?m = "m\<lparr>sm_call := None\<rparr>"
  have n: "mgr_inv ?m" by (rule fields_inv [OF assms(2)])
  obtain call where c: "sm_call m = Some call" using assms(3) by (auto simp: call_ok_def split: option.splits)
  show ?thesis
  proof (cases call)
    case (Starting i st)
    then have "i < length (sm_objs ?m)" using assms(3) c by (simp add: call_ok_def idle_def)
    from own_turn_inv [OF _ n this, of w "Start_Task st" m'] show ?thesis
      using assms(1) c Starting by (simp add: callReturns_def del: sess_step.simps)
  next
    case (Quitting i)
    then have "i < length (sm_objs ?m)" using assms(2) c by (simp add: mgr_inv_def call_inv_def)
    from quitSession_inv [OF _ n this, of w m'] show ?thesis using assms(1) c Quitting by (simp add: callReturns_def)
  next
    case (Accepting i cn)
    then have i: "i < length (sm_objs ?m)" and p: "pc_taskID cn = s_taskID (sess_of m i)"
      using assms(2) c by (simp_all add: mgr_inv_def call_inv_def)
    have "obj_inv (sm_objs m ! i)" "length (to_conns (sm_objs m ! i)) < 5"
      using assms(2,3) i c Accepting by (simp_all add: mgr_inv_def call_ok_def)
    then have "obj_inv (to_conns_update (\<lambda>cs. cs @ [cn]) (sm_objs ?m ! i))"
      using p by (auto simp: obj_inv_def sess_of_def)
    from upd_obj_inv [OF n i, where f = "to_conns_update (\<lambda>cs. cs @ [cn])", OF _ this] show ?thesis
      using assms(1) c Accepting by (simp add: callReturns_def sess_of_def)
  qed
qed

lemma mgr_step_inv:
  assumes "mgr_step w m e = Some m'" "mgr_ok m e" "mgr_inv m"
  shows "mgr_inv m' \<and> mgr_grows m m'"
proof -
  have via: "mgr_inv m' \<and> mgr_grows m m'" if "mgr_inv u \<and> mgr_grows m u" "mgr_inv u \<Longrightarrow> mgr_inv m' \<and> mgr_grows u m'" for u
    using that mgr_grows_trans by blast
  show ?thesis
  proof (cases e)
    case (Recv_Create dt)
    then show ?thesis using assms createSession_inv by auto
  next
    case Recv_Stop
    let ?m = "m\<lparr>sm_stops := tl (sm_stops m)\<rparr>"
    have "length (tl (sm_stops m)) \<le> 1" using assms(3) by (simp add: mgr_inv_def)
    then have "mgr_inv ?m" by (rule fields_inv [OF assms(3)])
    then show ?thesis using assms(1) Recv_Stop receive_inv(2) receive_grows(2) [of ?m] by auto
  next
    case Recv_Quit
    have "i < length (sm_objs m)" if "i \<in> snd ` set (sm_sessions m)" for i
      using that assms(3) by (auto simp: mgr_inv_def)
    then show ?thesis using assms Recv_Quit
      by (auto simp: mgr_inv_def mgr_grows_def call_inv_def sess_of_def ready_def cong: option.case_cong)
  next
    case (Quit_Delivered i)
    then have "i < length (sm_objs m)" using assms(2,3) by (simp add: mgr_inv_def)
    then show ?thesis
      using assms(1) Quit_Delivered quitSession_inv [OF _ fields_inv(4) [OF assms(3), of i], of w i m'] by simp
  next
    case (Api_Stop tid)
    then show ?thesis using assms fields_inv(1) [OF assms(3), of "sm_stops m @ [tid]"]
      by (auto simp: stop_room_def mgr_grows_def sess_of_def)
  next
    case (Session_Init i)
    then have i: "i < length (sm_objs m)" using assms(2) by simp
    show ?thesis
      by (rule via [OF flag_inv(2) [OF assms(3) i, of "\<lambda>_. True"]], rule on_sess_inv [of _ i "sess_Init w"])
        (use assms(1) Session_Init i kept_sess_Init in auto)
  next
    case (Session_Event i ev)
    then have i: "i < length (sm_objs m)" using assms(2) by (simp add: idle_def)
    show ?thesis
    proof (cases "ev = Keep_Alive_Tick")
      case True
      then show ?thesis using assms(1,3) Session_Event i sendStop_inv own_turn_inv flag_inv(1)
        by (auto simp: keepAliveTick_def simp del: sess_step.simps split: if_splits)
    next
      case False
      then show ?thesis using assms(1,3) Session_Event i own_turn_inv by (auto simp del: sess_step.simps)
    qed
  next
    case (Stop_Sent i)
    then have i: "i < length (sm_objs m)" "stop_room m" using assms(2) by simp_all
    show ?thesis
      by (rule via [OF flag_inv(1) [OF assms(3) i(1), of "\<lambda>_. False"]], rule sendStop_inv [of w _ i])
        (use assms(1) Stop_Sent i in \<open>simp_all add: stop_room_def\<close>)
  next
    case (Take_Conn i)
    then have i: "i < length (sm_objs m)" using assms(2) by (simp add: idle_def)
    show ?thesis
      by (rule via [OF flag_inv(3) [OF assms(3) i]], rule own_turn_inv [of _ i w "Add_Peer (hd (to_conns (sm_objs m ! i)))"])
        (use assms(1) Take_Conn i in auto)
  qed (use assms receive_inv receive_grows callReturns_inv in auto)
qed

interpretation mgr: machine mgr_next mgr_inv mgr_grows
proof unfold_locales
  fix m t u
  show "mgr_inv m \<Longrightarrow> mgr_next m t \<Longrightarrow> mgr_inv t \<and> mgr_grows m t"
    using mgr_step_inv by (elim mgr_nextE) blast
  show "mgr_grows m m" by (simp add: mgr_grows_def)
  show "mgr_grows m t \<Longrightarrow> mgr_grows t u \<Longrightarrow> mgr_grows m u" by (rule mgr_grows_trans)
qed

lemma new_mgr_inv: "NewSessionMgnt cfg d = Some m \<Longrightarrow> mgr_inv m"
  by (auto simp: NewSessionMgnt_def bind_eq_Some_conv mgr_inv_def call_inv_def split: if_splits)

section \<open>Sessions that share no file\<close>

text \<open>The session whose code a turn runs.\<close>

fun turn :: "sess_mgr \<Rightarrow> mgr_event \<Rightarrow> nat option" where
  "turn m Call_Returns = (case sm_call m of Some (Starting i st) \<Rightarrow> Some i | Some (Quitting i) \<Rightarrow> Some i | _ \<Rightarrow> None)"
| "turn m (Quit_Delivered i) = Some i"
| "turn m (Session_Init i) = Some i"
| "turn m (Session_Event i e) = Some i"
| "turn m (Stop_Sent i) = Some i"
| "turn m (Take_Conn i) = Some i"
| "turn m _ = None"

definition good_turn :: "session \<Rightarrow> session \<Rightarrow> bool" where
  "good_turn s t \<longleftrightarrow> confined s t \<and> safe s t"

lemma good_turn_refl [simp]: "good_turn s s" by (simp add: good_turn_def)

lemma event_ok_disk [simp]: "event_ok (s\<lparr>s_disk := d\<rparr>) e = event_ok s e"
  by (cases e) simp_all

lemma good_step:
  assumes "sess_step w (sess_view m i) e = Some t" "mgr_inv m" "i < length (sm_objs m)" "event_ok (sess_of m i) e"
  shows "good_turn (sess_view m i) t"
  using safe_sess_step [OF assms(1)] sess_step_frame [OF assms(1) view_aligned [OF assms(2,3)]] assms(4)
  by (simp add: good_turn_def sess_view_def)

lemma good_afterStop:
  assumes "afterStop w s = Some t"
  shows "good_turn s t"
proof -
  have "safe s (s\<lparr>s_stopSess := s_stopSess s @ [s_taskID s]\<rparr>)" by (rule safe_fields)
  then have "safe s t"
    using assms safe_peersKeepAlive safe_trans by (fastforce simp: afterStop_def Let_def)
  then show ?thesis using frame_fx [OF afterStop_fx [OF assms]] by (simp add: good_turn_def)
qed

text \<open>What a turn of session \<open>i\<close> leaves of the others.\<close>

definition turn_of :: "nat \<Rightarrow> sess_mgr \<Rightarrow> sess_mgr \<Rightarrow> bool" where
  "turn_of i m m' \<longleftrightarrow> i < length (sm_objs m) \<and> (\<forall>j. j \<noteq> i \<longrightarrow> sess_of m' j = sess_of m j) \<and>
     good_turn (sess_view m i) (sess_view m' i)"

lemma turn_of_on_sess:
  assumes "on_sess m i f = Some m'" "i < length (sm_objs m)"
    and "\<And>t. f (sess_view m i) = Some t \<Longrightarrow> good_turn (sess_view m i) t"
  shows "turn_of i m m'"
proof -
  obtain t where t: "f (sess_view m i) = Some t" "m' = (upd_obj m i (to_sess_update (\<lambda>_. t)))\<lparr>sm_disk := s_disk t\<rparr>"
    using on_sess_SomeD [OF assms(1)] by blast
  have "sess_of m' j = (if j = i then t else sess_of m j)" for j
    using upd_obj_nth [OF assms(2)] by (simp add: t(2) sess_of_def)
  moreover have "sess_view m' i = t" using calculation by (simp add: sess_view_def t(2))
  ultimately show ?thesis using assms(2,3) t(1) by (simp add: turn_of_def)
qed

lemma same_sessions:
  "sess_of (upd_obj m i (to_waiting_update g)) j = sess_of m j" "sess_of (upd_obj m i (to_conns_update h)) j = sess_of m j"
  by (cases "i < length (sm_objs m)"; cases "j = i"; simp add: sess_of_def upd_obj_def list_update_beyond)+

lemma turn_of_from:
  assumes "turn_of i u m'" "\<And>j. sess_of u j = sess_of m j" "sm_disk u = sm_disk m" "length (sm_objs u) = length (sm_objs m)"
  shows "turn_of i m m'"
  using assms by (simp add: turn_of_def sess_view_def)

lemma turn_of_idle: "i < length (sm_objs m) \<Longrightarrow> (\<And>j. sess_of m' j = sess_of m j) \<Longrightarrow> sm_disk m' = sm_disk m \<Longrightarrow> turn_of i m m'"
  by (simp add: turn_of_def sess_view_def)

lemma turn_of_step:
  assumes "on_sess m i (\<lambda>s. sess_step w s e) = Some m'" "mgr_inv m" "i < length (sm_objs m)" "event_ok (sess_of m i) e"
  shows "turn_of i m m'"
  using turn_of_on_sess [OF assms(1,3)] good_step assms(2-4) by blast

lemma turn_of_sendStop:
  assumes "sendStop w m i = Some m'" "i < length (sm_objs m)"
  shows "turn_of i m m'"
proof (rule turn_of_from)
  show "turn_of i (m\<lparr>sm_stops := sm_stops m @ [s_taskID (sess_of m i)]\<rparr>) m'"
    using assms turn_of_on_sess [OF assms(1) [unfolded sendStop_def]] good_afterStop by simp
qed simp_all

lemma turn_of_quit:
  assumes "quitSession w m i = Some m'" "mgr_inv m" "i < length (sm_objs m)"
  shows "turn_of i m m'"
proof (cases "s_ended (sess_of m i)")
  case True
  then show ?thesis using assms by (simp add: quitSession_def turn_of_def)
next
  case False
  then show ?thesis using assms turn_of_step [of m i w Quit_Session m'] by (simp add: quitSession_def)
qed

lemma turn_effect:
  assumes "mgr_step w m e = Some m'" "mgr_ok m e" "mgr_inv m" "\<forall>i. e \<noteq> Session_Init i"
  shows "case turn m e of Some i \<Rightarrow> turn_of i m m'
    | None \<Rightarrow> (\<forall>j < length (sm_objs m). sess_of m' j = sess_of m j) \<and> sm_disk m' = sm_disk m"
proof (cases e)
  case Call_Returns
  let ?m = "m\<lparr>sm_call := None\<rparr>"
  have n: "mgr_inv ?m" by (rule fields_inv [OF assms(3)])
  obtain call where c: "sm_call m = Some call" using assms(2) Call_Returns by (auto simp: call_ok_def split: option.splits)
  show ?thesis
  proof (cases call)
    case (Starting i st)
    then have i: "i < length (sm_objs ?m)" "event_ok (sess_of ?m i) (Start_Task st)"
      using assms(2) c Call_Returns by (simp_all add: call_ok_def idle_def)
    have "turn_of i ?m m'"
      by (rule turn_of_step [OF _ n i]) (use assms(1) c Starting Call_Returns in \<open>simp add: callReturns_def\<close>)
    then have "turn_of i m m'" by (rule turn_of_from) simp_all
    then show ?thesis using Call_Returns c Starting by simp
  next
    case (Quitting i)
    then have i: "i < length (sm_objs ?m)" using assms(3) c by (simp add: mgr_inv_def call_inv_def)
    have "turn_of i ?m m'"
      by (rule turn_of_quit [OF _ n i]) (use assms(1) c Quitting Call_Returns in \<open>simp add: callReturns_def\<close>)
    then have "turn_of i m m'" by (rule turn_of_from) simp_all
    then show ?thesis using Call_Returns c Quitting by simp
  next
    case (Accepting i cn)
    then show ?thesis using assms(1) c Call_Returns by (auto simp: callReturns_def same_sessions)
  qed
next
  case (Quit_Delivered i)
  let ?m = "m\<lparr>sm_quitting := remove1 i (sm_quitting m)\<rparr>"
  have "i < length (sm_objs ?m)" using assms(2,3) Quit_Delivered by (simp add: mgr_inv_def)
  then have "turn_of i ?m m'"
    using turn_of_quit [OF _ fields_inv(4) [OF assms(3), of i]] assms(1) Quit_Delivered by simp
  then have "turn_of i m m'" by (rule turn_of_from) simp_all
  then show ?thesis using Quit_Delivered by simp
next
  case (Session_Event i ev)
  then have i: "i < length (sm_objs m)" "event_ok (sess_of m i) ev" using assms(2) by (simp_all add: idle_def)
  have "turn_of i m m'"
  proof (cases "ev = Keep_Alive_Tick")
    case True
    then show ?thesis
      using assms(1,3) Session_Event i turn_of_sendStop [of w m i m'] turn_of_step [of m i w Keep_Alive_Tick m']
        turn_of_idle [OF i(1), of m'] same_sessions(1)
      by (auto simp: keepAliveTick_def simp del: sess_step.simps split: if_splits)
  next
    case False
    then show ?thesis using assms(1,3) Session_Event i turn_of_step [of m i w ev m'] by (simp del: sess_step.simps)
  qed
  then show ?thesis using Session_Event by simp
next
  case (Stop_Sent i)
  then have i: "i < length (sm_objs m)" using assms(2) by simp
  have "turn_of i (upd_obj m i (to_waiting_update (\<lambda>_. False))) m'"
    using turn_of_sendStop [of w _ i m'] assms(1) Stop_Sent i by simp
  then have "turn_of i m m'" by (rule turn_of_from) (simp_all add: same_sessions)
  then show ?thesis using Stop_Sent by simp
next
  case (Take_Conn i)
  then have i: "i < length (sm_objs m)" and ne: "\<not> s_ended (sess_of m i)" using assms(2) by (simp_all add: idle_def)
  let ?u = "upd_obj m i (to_conns_update tl)"
  have u: "mgr_inv ?u" using flag_inv(3) [OF assms(3) i] by blast
  have "turn_of i ?u m'"
    by (rule turn_of_step [OF _ u, of _ w "Add_Peer (hd (to_conns (sm_objs m ! i)))"])
      (use assms(1) Take_Conn i ne in \<open>simp_all add: same_sessions\<close>)
  then have "turn_of i m m'" by (rule turn_of_from) (simp_all add: same_sessions)
  then show ?thesis using Take_Conn by simp
next
  case (Session_Init i)
  then show ?thesis using assms(4) by simp
qed (use assms(1) in \<open>auto simp: createSession_def startSession_def stopSession_def acceptConn_def sess_of_def nth_append
      split: option.splits\<close>)

definition separate :: "sess_mgr \<Rightarrow> bool" where
  "separate m \<longleftrightarrow> (\<forall>i < length (sm_objs m). \<forall>j < length (sm_objs m). i \<noteq> j \<longrightarrow>
     own_files (sess_of m i) \<inter> own_files (sess_of m j) = {})"

lemma on_sess_keeps:
  assumes "on_sess m i f = Some m'"
  shows "length (sm_objs m') = length (sm_objs m)" "sm_call m' = sm_call m" "sm_stops m' = sm_stops m"
    "sm_sessions m' = sm_sessions m" "to_waiting (sm_objs m' ! j) = to_waiting (sm_objs m ! j)"
proof -
  obtain t where t: "m' = (upd_obj m i (to_sess_update (\<lambda>_. t)))\<lparr>sm_disk := s_disk t\<rparr>"
    using on_sess_SomeD [OF assms] by blast
  show "length (sm_objs m') = length (sm_objs m)" "sm_call m' = sm_call m" "sm_stops m' = sm_stops m"
    "sm_sessions m' = sm_sessions m" by (simp_all add: t)
  show "to_waiting (sm_objs m' ! j) = to_waiting (sm_objs m ! j)"
    by (cases "i < length (sm_objs m)"; cases "j = i"; simp add: t upd_obj_def list_update_beyond)
qed

lemma created_only:
  assumes "mgr_step w m e = Some m'" "length (sm_objs m) \<le> j" "j < length (sm_objs m')"
  shows "own_files (sess_of m' j) = {}"
proof (cases e)
  case (Recv_Create dt)
  then show ?thesis using assms
    by (auto simp: createSession_def sess_of_def nth_append less_Suc_eq own_files_def NewTaskSession_def)
next
  case (Session_Event i ev)
  then show ?thesis using assms on_sess_keeps(1)
    by (auto simp: keepAliveTick_def sendStop_def simp del: sess_step.simps split: if_splits)
next
  case Call_Returns
  then show ?thesis using assms on_sess_keeps(1)
    by (auto simp: callReturns_def quitSession_def simp del: sess_step.simps split: option.splits mgr_call.splits if_splits)
next
  case (Quit_Delivered i)
  then show ?thesis using assms on_sess_keeps(1)
    by (auto simp: quitSession_def simp del: sess_step.simps split: if_splits)
qed (use assms on_sess_keeps(1) in \<open>fastforce simp: startSession_def stopSession_def acceptConn_def sendStop_def
      simp del: sess_step.simps split: option.splits if_splits\<close>)+

lemma view_grows:
  assumes "\<forall>p \<in> own_files s. d p = s_disk s p"
  shows "sess_grows s (s\<lparr>s_disk := d\<rparr>)"
  using inv_other_disk(1) [OF assms] by (simp add: sess_grows_def pset_def cong: option.case_cong)

text \<open>A turn without a new initialisation keeps the sessions apart and every one of them correct.\<close>

lemma settled_step:
  assumes "mgr_step w m e = Some m'" "mgr_ok m e" "mgr_inv m" "\<forall>i. e \<noteq> Session_Init i" "separate m" "j < length (sm_objs m)"
  shows "own_files (sess_of m' j) = own_files (sess_of m j)"
    "sess_inv (sess_view m j) \<Longrightarrow> sess_inv (sess_view m' j) \<and> sess_grows (sess_view m j) (sess_view m' j)"
proof -
  note eff = turn_effect [OF assms(1-4)]
  have v: "own_files (sess_view x k) = own_files (sess_of x k)" for x k by (simp add: own_files_def sess_view_def)
  have other: "own_files (sess_of m' j) = own_files (sess_of m j) \<and>
      (sess_inv (sess_view m j) \<longrightarrow> sess_inv (sess_view m' j) \<and> sess_grows (sess_view m j) (sess_view m' j))"
    if same: "sess_of m' j = sess_of m j" and agree: "\<forall>p \<in> own_files (sess_of m j). sm_disk m' p = sm_disk m p"
  proof -
    have e: "sess_view m' j = (sess_view m j)\<lparr>s_disk := sm_disk m'\<rparr>" using same by (simp add: sess_view_def)
    have a: "\<forall>p \<in> own_files (sess_view m j). sm_disk m' p = s_disk (sess_view m j) p"
      using agree v by (simp add: sess_view_def own_files_def)
    show ?thesis using same inv_other_disk(2) [OF a] view_grows [OF a] unfolding e by simp
  qed
  have "own_files (sess_of m' j) = own_files (sess_of m j) \<and>
      (sess_inv (sess_view m j) \<longrightarrow> sess_inv (sess_view m' j) \<and> sess_grows (sess_view m j) (sess_view m' j))"
  proof (cases "turn m e")
    case None
    then show ?thesis using eff assms(6) by (intro other) simp_all
  next
    case (Some i)
    then have t: "i < length (sm_objs m)" "\<forall>j. j \<noteq> i \<longrightarrow> sess_of m' j = sess_of m j"
      "good_turn (sess_view m i) (sess_view m' i)" using eff by (simp_all add: turn_of_def)
    have f: "confined (sess_view m i) (sess_view m' i)" using t(3) by (simp add: good_turn_def)
    show ?thesis
    proof (cases "j = i")
      case True
      then show ?thesis using t(3) frame_views(1) [OF f] v by (simp add: good_turn_def safe_def)
    next
      case False
      have "\<forall>p \<in> own_files (sess_of m j). sm_disk m' p = sm_disk m p"
      proof
        fix p assume "p \<in> own_files (sess_of m j)"
        then have "p \<notin> own_files (sess_view m i)" using assms(5,6) t(1) False v by (auto simp: separate_def)
        then show "sm_disk m' p = sm_disk m p" using f by (simp add: confined_def sess_view_def)
      qed
      then show ?thesis using t(2) False by (intro other) simp_all
    qed
  qed
  then show "own_files (sess_of m' j) = own_files (sess_of m j)"
    "sess_inv (sess_view m j) \<Longrightarrow> sess_inv (sess_view m' j) \<and> sess_grows (sess_view m j) (sess_view m' j)" by blast+
qed

lemma settled_separate:
  assumes "mgr_step w m e = Some m'" "mgr_ok m e" "mgr_inv m" "\<forall>i. e \<noteq> Session_Init i" "separate m"
  shows "separate m'"
proof -
  have old: "own_files (sess_of m' j) = own_files (sess_of m j)" if "j < length (sm_objs m)" for j
    using settled_step(1) [OF assms that] .
  have new: "own_files (sess_of m' j) = {}" if "length (sm_objs m) \<le> j" "j < length (sm_objs m')" for j
    using created_only [OF assms(1) that] .
  show ?thesis unfolding separate_def
  proof (intro allI impI)
    fix i j assume ij: "i < length (sm_objs m')" "j < length (sm_objs m')" "i \<noteq> j"
    show "own_files (sess_of m' i) \<inter> own_files (sess_of m' j) = {}"
    proof (cases "i < length (sm_objs m) \<and> j < length (sm_objs m)")
      case True
      then show ?thesis using assms(5) old ij(3) by (simp add: separate_def)
    next
      case False
      then show ?thesis using new [of i] new [of j] ij by auto
    qed
  qed
qed

inductive settled_next :: "sess_mgr \<Rightarrow> sess_mgr \<Rightarrow> bool" where
  event: "\<lbrakk>mgr_ok m e; \<forall>i. e \<noteq> Session_Init i; world_ok w; mgr_step w m e = Some t\<rbrakk> \<Longrightarrow> settled_next m t"

inductive_cases settled_nextE: "settled_next m t"

abbreviation settled_runs :: "sess_mgr \<Rightarrow> sess_mgr \<Rightarrow> bool" where
  "settled_runs \<equiv> settled_next\<^sup>*\<^sup>*"

definition all_correct :: "nat set \<Rightarrow> sess_mgr \<Rightarrow> bool" where
  "all_correct A m \<longleftrightarrow> mgr_inv m \<and> separate m \<and> (\<forall>j \<in> A. j < length (sm_objs m) \<and> sess_inv (sess_view m j))"

definition all_grow :: "nat set \<Rightarrow> sess_mgr \<Rightarrow> sess_mgr \<Rightarrow> bool" where
  "all_grow A m t \<longleftrightarrow> (\<forall>j \<in> A. sess_grows (sess_view m j) (sess_view t j))"

interpretation settled: machine settled_next "all_correct A" "all_grow A" for A
proof unfold_locales
  fix m t u
  show "all_correct A m \<Longrightarrow> settled_next m t \<Longrightarrow> all_correct A t \<and> all_grow A m t"
  proof (elim settled_nextE)
    fix e w assume ok: "mgr_ok m e" "\<forall>i. e \<noteq> Session_Init i" and st: "mgr_step w m e = Some t" and a: "all_correct A m"
    have i: "mgr_inv m" "separate m" using a by (simp_all add: all_correct_def)
    note inv = mgr_step_inv [OF st ok(1) i(1)]
    then have "length (sm_objs m) \<le> length (sm_objs t)" by (simp add: mgr_grows_def)
    then show "all_correct A t \<and> all_grow A m t"
      using inv settled_separate [OF st ok(1) i(1) ok(2) i(2)] settled_step(2) [OF st ok(1) i(1) ok(2) i(2)] a
      by (auto simp: all_correct_def all_grow_def intro: less_le_trans)
  qed
  show "all_grow A m m" by (simp add: all_grow_def)
  show "all_grow A m t \<Longrightarrow> all_grow A t u \<Longrightarrow> all_grow A m u" using grows_trans by (auto simp: all_grow_def)
qed

end
