(* ===== verification/SessMgntProps.thy ===== *)
theory SessMgntProps
  imports SessMgntInv
begin

text \<open>
  The properties of the session manager: routing, isolation of the sessions, and the two ways in
  which sessions and manager get into each other's way.
\<close>

section \<open>A manager that waits for ever\<close>

text \<open>The manager waits to hand a start to session \<open>i\<close>, which waits for the manager.\<close>

definition stuck :: "nat \<Rightarrow> sess_mgr \<Rightarrow> bool" where
  "stuck i m \<longleftrightarrow> (\<exists>st. sm_call m = Some (Starting i st)) \<and> i < length (sm_objs m) \<and> to_waiting (sm_objs m ! i) \<and>
     \<not> stop_room m"

lemma stuck_step:
  assumes "stuck i m" "mgr_ok m e" "mgr_step w m e = Some m'"
  shows "stuck i m' \<and> sm_sessions m' = sm_sessions m"
proof -
  have s: "sm_call m \<noteq> None" "\<not> ready m" "\<not> idle m i" "\<not> call_ok m" "\<not> stop_room m"
    using assms(1) by (auto simp: stuck_def ready_def idle_def call_ok_def)
  have on: "stuck i m' \<and> sm_sessions m' = sm_sessions m" if o: "on_sess u j f = Some m'"
      and u: "sm_call u = sm_call m" "sm_stops u = sm_stops m" "sm_sessions u = sm_sessions m"
        "length (sm_objs u) = length (sm_objs m)" "to_waiting (sm_objs u ! i) = to_waiting (sm_objs m ! i)" for u j f
    using on_sess_keeps [OF o] u assms(1) by (simp add: stuck_def stop_room_def)
  have upd: "to_waiting (sm_objs (upd_obj m j (to_running_update g)) ! i) = to_waiting (sm_objs m ! i)"
    "to_waiting (sm_objs (upd_obj m j (to_conns_update h)) ! i) = to_waiting (sm_objs m ! i)" for j g h
    by (cases "j < length (sm_objs m)"; cases "i = j"; simp add: upd_obj_def list_update_beyond)+
  show ?thesis
  proof (cases e)
    case (Quit_Delivered j)
    let ?u = "m\<lparr>sm_quitting := remove1 j (sm_quitting m)\<rparr>"
    have "m' = ?u \<or> (\<exists>f. on_sess ?u j f = Some m')"
      using assms(3) Quit_Delivered by (auto simp: quitSession_def split: if_splits)
    then show ?thesis using assms(1) on [of ?u j] by (auto simp: stuck_def stop_room_def)
  next
    case (Session_Init j)
    then show ?thesis using assms(3) upd on [of "upd_obj m j (to_running_update (\<lambda>_. True))" j "sess_Init w"] by simp
  next
    case (Session_Event j ev)
    have "m' = upd_obj m j (to_waiting_update (\<lambda>_. True)) \<or> (\<exists>f. on_sess m j f = Some m')"
      using assms(3) Session_Event s(5) by (auto simp: keepAliveTick_def split: if_splits simp del: sess_step.simps)
    moreover have "stuck i (upd_obj m j (to_waiting_update (\<lambda>_. True)))"
      using assms(1) by (cases "j < length (sm_objs m)"; cases "j = i")
        (simp_all add: stuck_def stop_room_def upd_obj_nth, simp_all add: upd_obj_def list_update_beyond)
    ultimately show ?thesis using on [of m j] by auto
  next
    case (Take_Conn j)
    then show ?thesis
      using assms(3) upd on [of "upd_obj m j (to_conns_update tl)" j "\<lambda>s. sess_step w s (Add_Peer (hd (to_conns (sm_objs m ! j))))"]
      by (simp del: sess_step.simps)
  qed (use assms(2) s in simp_all)
qed

lemma stuck_runs: "mgr_runs m t \<Longrightarrow> stuck i m \<Longrightarrow> stuck i t \<and> sm_sessions t = sm_sessions m"
proof (induction rule: rtranclp_induct)
  case (step t u)
  from step.hyps(2) show ?case
  proof (cases rule: mgr_next.cases)
    case (event e w)
    then show ?thesis using stuck_step step.IH step.prems by metis
  qed
qed simp

text \<open>A server with two tasks that nobody has started.\<close>

definition ex_srv :: config where
  "ex_srv = zero_config\<lparr>c_Server := True, c_Control := Some \<lparr>Speed = 1, MaxActive = 1, CacheSize = 1\<rparr>\<rparr>"

definition ex_dt :: "string \<Rightarrow> dispatch_task" where
  "ex_dt tid = ex_task\<lparr>dt_TaskID := tid, dt_MetaInfo := \<lparr>mi_Length = 0, mi_PieceLen = 1, mi_Pieces = [], mi_Files = []\<rparr>\<rparr>"

definition ex_made :: "string \<Rightarrow> session" where
  "ex_made tid = NewTaskSession ex_srv Map.empty (ex_dt tid)"

definition ex_inited :: "string \<Rightarrow> session" where
  "ex_inited tid = (ex_made tid)\<lparr>s_fileStore := Some \<lparr>fs_offsets = [], fs_files = [], fs_cache = None\<rparr>,
     s_lastPieceLength := 1, s_pieceSet := Some (fresh_bitset 0), s_initedAt := Some 7\<rparr>"

definition ex_late :: world where
  "ex_late = ex_world\<lparr>w_now := 1000000000000\<rparr>"

lemma ex_late_ok: "world_ok ex_late"
  using ex_world_ok by (simp add: world_ok_def ex_late_def)

definition ex_obj :: "session \<Rightarrow> bool \<Rightarrow> bool \<Rightarrow> task_obj" where
  "ex_obj s r w = \<lparr>to_sess = s, to_running = r, to_waiting = w, to_conns = []\<rparr>"

definition ex_mgr :: "task_obj list \<Rightarrow> string list \<Rightarrow> mgr_call option \<Rightarrow> sess_mgr" where
  "ex_mgr objs stops call = \<lparr>sm_cfg = ex_srv, sm_disk = Map.empty, sm_objs = objs,
     sm_sessions = take (length objs) [(''a'', 0), (''b'', 1)], sm_stops = stops, sm_call = call,
     sm_quitting = [], sm_refused = [], sm_ended = False\<rparr>"

lemma ex_new_mgr: "NewSessionMgnt ex_srv Map.empty = Some (ex_mgr [] [] None)"
  by (simp add: NewSessionMgnt_def ex_srv_def ex_mgr_def)

lemma ex_made_Init: "sess_Init ex_world (ex_made tid) = Some (ex_inited tid)"
proof -
  have b: "NewBitset 0 = Some (fresh_bitset 0)" using NewBitset_nat [of 0] by simp
  have c: "countPieces 0 1 = Some (0, 1)" using countPieces_eq [of 1 0] by (simp add: piece_count_def)
  have "w_now ex_world = 7" by (simp add: ex_world_def)
  then show ?thesis
    by (simp add: sess_Init_def ex_made_def NewTaskSession_def ex_srv_def initInServer_def sess_init_def NewFileStore_def
        ex_dt_def c b ex_inited_def)
qed

lemma ex_disk_views [simp]: "(ex_made tid)\<lparr>s_disk := Map.empty\<rparr> = ex_made tid" "(ex_inited tid)\<lparr>s_disk := Map.empty\<rparr> = ex_inited tid"
  "s_disk (ex_inited tid) = Map.empty" "s_ended (ex_inited tid) = False" "s_peers (ex_inited tid) = []" "s_taskID (ex_inited tid) = tid"
  by (simp_all add: ex_inited_def ex_made_def NewTaskSession_def ex_dt_def)

lemma ex_timeout: "sess_timeout ex_late (ex_inited tid)"
  by (simp add: sess_timeout_def ex_inited_def ex_made_def NewTaskSession_def ex_late_def seconds_def)

lemma ex_no_ids [simp]: "w_ids ex_late [] = []"
  by (simp add: ex_late_def ex_world_def)

definition ex_stuck :: sess_mgr where
  "ex_stuck = ex_mgr [ex_obj ((ex_inited ''a'')\<lparr>s_stopSess := [''a'']\<rparr>) True False, ex_obj (ex_inited ''b'') True True] [''a'']
     (Some (Starting 1 \<lparr>st_TaskID = ''b'', st_LinkChain = None\<rparr>))"

lemma ex_stuck_reached: "mgr_runs (ex_mgr [] [] None) ex_stuck"
proof -
  note step = mgr_next.intros [OF _ ex_world_ok] and late = mgr_next.intros [OF _ ex_late_ok]
  note defs = ex_mgr_def ex_obj_def ready_def idle_def sess_of_def upd_obj_def on_sess_def
  have "s_stopSess (ex_inited ''a'') = []" by (simp add: ex_inited_def ex_made_def NewTaskSession_def)
  note a = this
  have 1: "mgr_next (ex_mgr [] [] None) (ex_mgr [ex_obj (ex_made ''a'') False False] [] None)"
    by (rule step [of _ "Recv_Create (ex_dt ''a'')"]) (simp_all add: defs createSession_def ex_made_def ex_dt_def)
  have 2: "mgr_next (ex_mgr [ex_obj (ex_made ''a'') False False] [] None)
      (ex_mgr [ex_obj (ex_made ''a'') False False, ex_obj (ex_made ''b'') False False] [] None)"
    by (rule step [of _ "Recv_Create (ex_dt ''b'')"]) (simp_all add: defs createSession_def ex_made_def ex_dt_def)
  have 3: "mgr_next (ex_mgr [ex_obj (ex_made ''a'') False False, ex_obj (ex_made ''b'') False False] [] None)
      (ex_mgr [ex_obj (ex_inited ''a'') True False, ex_obj (ex_made ''b'') False False] [] None)"
    by (rule step [of _ "Session_Init 0"]) (simp_all add: defs ex_made_Init)
  have 4: "mgr_next (ex_mgr [ex_obj (ex_inited ''a'') True False, ex_obj (ex_made ''b'') False False] [] None)
      (ex_mgr [ex_obj (ex_inited ''a'') True False, ex_obj (ex_inited ''b'') True False] [] None)"
    by (rule step [of _ "Session_Init 1"]) (simp_all add: defs ex_made_Init)
  have 5: "mgr_next (ex_mgr [ex_obj (ex_inited ''a'') True False, ex_obj (ex_inited ''b'') True False] [] None)
      (ex_mgr [ex_obj ((ex_inited ''a'')\<lparr>s_stopSess := [''a'']\<rparr>) True False, ex_obj (ex_inited ''b'') True False] [''a''] None)"
    by (rule late [of _ "Session_Event 0 Keep_Alive_Tick"])
      (simp_all add: defs keepAliveTick_def stop_room_def sendStop_def afterStop_def ex_timeout a)
  have 6: "mgr_next (ex_mgr [ex_obj ((ex_inited ''a'')\<lparr>s_stopSess := [''a'']\<rparr>) True False, ex_obj (ex_inited ''b'') True False] [''a''] None)
      (ex_mgr [ex_obj ((ex_inited ''a'')\<lparr>s_stopSess := [''a'']\<rparr>) True False, ex_obj (ex_inited ''b'') True True] [''a''] None)"
    by (rule late [of _ "Session_Event 1 Keep_Alive_Tick"])
      (simp_all add: defs keepAliveTick_def stop_room_def ex_timeout)
  have 7: "mgr_next (ex_mgr [ex_obj ((ex_inited ''a'')\<lparr>s_stopSess := [''a'']\<rparr>) True False, ex_obj (ex_inited ''b'') True True] [''a''] None)
      ex_stuck"
    by (rule step [of _ "Recv_Start \<lparr>st_TaskID = ''b'', st_LinkChain = None\<rparr>"]) (simp_all add: defs startSession_def ex_stuck_def)
  show ?thesis
    using 1 2 3 4 5 6 7 by (meson rtranclp.rtrancl_into_rtrancl rtranclp.rtrancl_refl)
qed

lemma ex_stuck: "stuck 1 ex_stuck"
  by (simp add: stuck_def ex_stuck_def ex_mgr_def stop_room_def ex_obj_def)

section \<open>Properties\<close>

text \<open>C21: Whatever the manager is sent and however its sessions' turns interleave, the session map
  stays a map from ids to sessions of that id; a connection waits only at a session of the task
  its header names, at most five of them; a start that is being handed over goes to a session of
  its task; and the channel of stop requests holds at most one id.\<close>

theorem manager_routes:
  assumes "NewSessionMgnt cfg d = Some m0" "mgr_runs m0 m"
  shows "distinct (map fst (sm_sessions m)) \<and>
    (\<forall>tid i. map_of (sm_sessions m) tid = Some i \<longrightarrow> i < length (sm_objs m) \<and> s_taskID (sess_of m i) = tid) \<and>
    (\<forall>i < length (sm_objs m). length (to_conns (sm_objs m ! i)) \<le> 5 \<and>
      (\<forall>c \<in> set (to_conns (sm_objs m ! i)). pc_taskID c = s_taskID (sess_of m i))) \<and>
    (\<forall>i st. sm_call m = Some (Starting i st) \<longrightarrow> st_TaskID st = s_taskID (sess_of m i)) \<and>
    (\<forall>i c. sm_call m = Some (Accepting i c) \<longrightarrow> pc_taskID c = s_taskID (sess_of m i)) \<and>
    length (sm_stops m) \<le> 1"
proof -
  have "mgr_inv m" using mgr.runs_inv [OF assms(2)] new_mgr_inv [OF assms(1)] by blast
  then have i: "distinct (map fst (sm_sessions m))"
      "\<forall>tid i. map_of (sm_sessions m) tid = Some i \<longrightarrow> i < length (sm_objs m) \<and> s_taskID (sess_of m i) = tid"
      "\<forall>i < length (sm_objs m). obj_inv (sm_objs m ! i)" "length (sm_stops m) \<le> 1" and c: "call_inv m"
    unfolding mgr_inv_def by blast+
  have "\<forall>i st. sm_call m = Some (Starting i st) \<longrightarrow> st_TaskID st = s_taskID (sess_of m i)"
    "\<forall>i c. sm_call m = Some (Accepting i c) \<longrightarrow> pc_taskID c = s_taskID (sess_of m i)"
    using c by (auto simp: call_inv_def)
  then show ?thesis using i by (simp add: obj_inv_def sess_of_def)
qed

theorem manager_routes_witness:
  "mgr_runs (ex_mgr [] [] None) ex_stuck \<and> sm_call ex_stuck = Some (Starting 1 \<lparr>st_TaskID = ''b'', st_LinkChain = None\<rparr>) \<and>
   s_taskID (sess_of ex_stuck 1) = ''b''"
proof -
  have c: "sm_call ex_stuck = Some (Starting 1 \<lparr>st_TaskID = ''b'', st_LinkChain = None\<rparr>)"
    by (simp add: ex_stuck_def ex_mgr_def)
  note r = manager_routes [OF ex_new_mgr ex_stuck_reached]
  have "\<forall>i st. sm_call ex_stuck = Some (Starting i st) \<longrightarrow> st_TaskID st = s_taskID (sess_of ex_stuck i)"
    using r by (elim conjE)
  then show ?thesis using ex_stuck_reached c by (metis start_task.select_convs(1))
qed

text \<open>C20: Two tasks of a node do not disturb each other.  In any run in which no further session is
  initialised, from a state in which no two sessions have a file in common, each session that was
  correct stays correct on the files as they then are, and the bytes of each of its verified
  pieces stay as they were, whatever messages the other sessions receive.\<close>

theorem sessions_isolated:
  assumes "NewSessionMgnt cfg d = Some m0" "mgr_runs m0 m" "separate m" "settled_runs m t"
    and "j < length (sm_objs m)" "sess_inv (sess_view m j)"
  shows "sess_inv (sess_view t j) \<and> pset (sess_view m j) \<subseteq> pset (sess_view t j) \<and>
    (\<forall>k \<in> pset (sess_view m j). window (sess_contents (sess_view t j)) (k * plen (sess_view m j)) (plen (sess_view m j)) =
      window (sess_contents (sess_view m j)) (k * plen (sess_view m j)) (plen (sess_view m j)))"
proof -
  have "mgr_inv m" using mgr.runs_inv [OF assms(2)] new_mgr_inv [OF assms(1)] by blast
  then have "all_correct {j} m" using assms(3,5,6) by (simp add: all_correct_def)
  from settled.runs_inv [OF assms(4) this] show ?thesis
    by (simp add: all_correct_def all_grow_def sess_grows_def piece_bytes_def)
qed

definition ex_two :: sess_mgr where
  "ex_two = ex_mgr [ex_obj (ex_inited ''a'') True False, ex_obj (ex_inited ''b'') True False] [] None"

lemma ex_two_reached: "mgr_runs (ex_mgr [] [] None) ex_two"
proof -
  note step = mgr_next.intros [OF _ ex_world_ok]
  note defs = ex_mgr_def ex_obj_def ready_def sess_of_def upd_obj_def on_sess_def
  have "mgr_next (ex_mgr [] [] None) (ex_mgr [ex_obj (ex_made ''a'') False False] [] None)"
    by (rule step [of _ "Recv_Create (ex_dt ''a'')"]) (simp_all add: defs createSession_def ex_made_def ex_dt_def)
  moreover have "mgr_next (ex_mgr [ex_obj (ex_made ''a'') False False] [] None)
      (ex_mgr [ex_obj (ex_made ''a'') False False, ex_obj (ex_made ''b'') False False] [] None)"
    by (rule step [of _ "Recv_Create (ex_dt ''b'')"]) (simp_all add: defs createSession_def ex_made_def ex_dt_def)
  moreover have "mgr_next (ex_mgr [ex_obj (ex_made ''a'') False False, ex_obj (ex_made ''b'') False False] [] None)
      (ex_mgr [ex_obj (ex_inited ''a'') True False, ex_obj (ex_made ''b'') False False] [] None)"
    by (rule step [of _ "Session_Init 0"]) (simp_all add: defs ex_made_Init)
  moreover have "mgr_next (ex_mgr [ex_obj (ex_inited ''a'') True False, ex_obj (ex_made ''b'') False False] [] None) ex_two"
    unfolding ex_two_def by (rule step [of _ "Session_Init 1"]) (simp_all add: defs ex_made_Init)
  ultimately show ?thesis by (meson rtranclp.rtrancl_into_rtrancl rtranclp.rtrancl_refl)
qed

lemma ex_inited_inv: "sess_inv (ex_inited tid)"
proof -
  have v: "sess_contents (ex_inited tid) = []" "pieceLen (ex_inited tid) = 1" "sess_ref (ex_inited tid) = []"
    "s_activePieces (ex_inited tid) = []" "s_heap (ex_inited tid) = []" "s_fileStore (ex_inited tid) = Some \<lparr>fs_offsets = [], fs_files = [], fs_cache = None\<rparr>"
    "s_pieceSet (ex_inited tid) = Some (fresh_bitset 0)" "s_totalSize (ex_inited tid) = 0" "s_totalPieces (ex_inited tid) = 0"
    "s_lastPieceLength (ex_inited tid) = 1" "s_goodPieces (ex_inited tid) = 0"
    by (simp_all add: ex_inited_def ex_made_def NewTaskSession_def ex_dt_def sess_contents_def contents_def contents_from_def
        pieceLen_def sess_ref_def)
  have "pset (ex_inited tid) = {}"
    using bs.members_bound [OF wf_fresh, of 0] by (simp add: pset_def v Len_def)
  then have "store_inv (ex_inited tid)" using wf_fresh [of 0]
    by (simp add: store_inv_def v piece_count_def plain_store_def wf_store_def Len_def)
  then show ?thesis by (simp add: sess_inv_def active_inv_def peers_inv_def v)
qed

theorem sessions_isolated_witness:
  "\<exists>t. mgr_step ex_world ex_two (Session_Event 1 Speed_Tick) = Some t \<and> sess_inv (sess_view t 0)"
proof -
  have v: "sess_view ex_two 0 = ex_inited ''a''" "length (sm_objs ex_two) = 2"
    by (simp_all add: sess_view_def ex_two_def ex_mgr_def ex_obj_def sess_of_def)
  have s: "separate ex_two"
    by (simp add: separate_def ex_two_def ex_mgr_def ex_obj_def sess_of_def less_Suc_eq numeral_2_eq_2 own_files_def ex_inited_def)
  obtain t where t: "mgr_step ex_world ex_two (Session_Event 1 Speed_Tick) = Some t"
    by (simp add: on_sess_def)
  have "settled_next ex_two t"
    by (rule settled_next.intros [OF _ _ ex_world_ok t])
      (simp_all add: idle_def ex_two_def ex_mgr_def ex_obj_def sess_of_def)
  then have r: "settled_runs ex_two t" by (rule r_into_rtranclp)
  have i: "0 < length (sm_objs ex_two)" "sess_inv (sess_view ex_two 0)" using v ex_inited_inv by simp_all
  show ?thesis using sessions_isolated [OF ex_new_mgr ex_two_reached s r i] t by blast
qed

text \<open>C22: A second create for an id replaces the session in the map but does not stop it.  When the
  replaced session times out it asks the manager to stop its id, and the manager takes the new
  session out of the map and quits it; the replaced one is in no entry and stays.\<close>

theorem replaced_session_stops_successor:
  assumes "NewSessionMgnt cfg d = Some m0" "mgr_runs m0 m"
    and "map_of (sm_sessions m) tid = Some j" "i \<noteq> j" "s_taskID (sess_of m i) = tid" "ready m" "sm_stops m = []"
    and "mgr_ok m (Session_Event i Keep_Alive_Tick)" "sess_timeout w (sess_of m i)"
    and "mgr_step w m (Session_Event i Keep_Alive_Tick) = Some m1"
  shows "mgr_ok m1 Recv_Stop \<and> (\<forall>k. map_of (sm_sessions m1) k \<noteq> Some i) \<and>
    (\<exists>m2. mgr_step w m1 Recv_Stop = Some m2 \<and> map_of (sm_sessions m2) tid = None \<and> sm_call m2 = Some (Quitting j))"
proof -
  have inv: "mgr_inv m" using mgr.runs_inv [OF assms(2)] new_mgr_inv [OF assms(1)] by blast
  have o: "on_sess (m\<lparr>sm_stops := [tid]\<rparr>) i (afterStop w) = Some m1"
    using assms(5,7,9,10) by (simp add: keepAliveTick_def stop_room_def sendStop_def)
  obtain t where "m1 = (upd_obj (m\<lparr>sm_stops := [tid]\<rparr>) i (to_sess_update (\<lambda>_. t)))\<lparr>sm_disk := s_disk t\<rparr>"
    using on_sess_SomeD [OF o] by blast
  then have m1: "sm_stops m1 = [tid]" "sm_sessions m1 = sm_sessions m" "ready m1 = ready m"
    by (simp_all add: ready_def)
  have "map_of (sm_sessions m) k \<noteq> Some i" for k
  proof
    assume k: "map_of (sm_sessions m) k = Some i"
    then have "k = tid" using inv assms(5) unfolding mgr_inv_def by blast
    then show False using k assms(3,4) by simp
  qed
  then show ?thesis using m1 assms(3,6) by (simp add: stopSession_def delete_conv')
qed

definition ex_twice :: "task_obj list \<Rightarrow> nat \<Rightarrow> sess_mgr" where
  "ex_twice objs n = (ex_mgr objs [] None)\<lparr>sm_sessions := [(''a'', n)]\<rparr>"

lemma ex_twice_reached:
  "mgr_runs (ex_mgr [] [] None) (ex_twice [ex_obj (ex_inited ''a'') True False, ex_obj (ex_made ''a'') False False] 1)"
proof -
  note step = mgr_next.intros [OF _ ex_world_ok]
  note defs = ex_twice_def ex_mgr_def ex_obj_def ready_def sess_of_def upd_obj_def on_sess_def
  have "mgr_next (ex_mgr [] [] None) (ex_twice [ex_obj (ex_made ''a'') False False] 0)"
    by (rule step [of _ "Recv_Create (ex_dt ''a'')"]) (simp_all add: defs createSession_def ex_made_def ex_dt_def)
  moreover have "mgr_next (ex_twice [ex_obj (ex_made ''a'') False False] 0) (ex_twice [ex_obj (ex_inited ''a'') True False] 0)"
    by (rule step [of _ "Session_Init 0"]) (simp_all add: defs ex_made_Init)
  moreover have "mgr_next (ex_twice [ex_obj (ex_inited ''a'') True False] 0)
      (ex_twice [ex_obj (ex_inited ''a'') True False, ex_obj (ex_made ''a'') False False] 1)"
    by (rule step [of _ "Recv_Create (ex_dt ''a'')"]) (simp_all add: defs createSession_def ex_made_def ex_dt_def)
  ultimately show ?thesis by (meson rtranclp.rtrancl_into_rtrancl rtranclp.rtrancl_refl)
qed

theorem replaced_session_stops_successor_witness:
  "\<exists>m1 m2. mgr_step ex_late (ex_twice [ex_obj (ex_inited ''a'') True False, ex_obj (ex_made ''a'') False False] 1)
      (Session_Event 0 Keep_Alive_Tick) = Some m1 \<and>
    mgr_step ex_late m1 Recv_Stop = Some m2 \<and> sm_call m2 = Some (Quitting 1)"
proof -
  let ?m = "ex_twice [ex_obj (ex_inited ''a'') True False, ex_obj (ex_made ''a'') False False] 1"
  note defs = ex_twice_def ex_mgr_def ex_obj_def ready_def sess_of_def idle_def
  have h: "map_of (sm_sessions ?m) ''a'' = Some 1" "0 \<noteq> (1::nat)" "s_taskID (sess_of ?m 0) = ''a''" "ready ?m" "sm_stops ?m = []"
    "mgr_ok ?m (Session_Event 0 Keep_Alive_Tick)" "sess_timeout ex_late (sess_of ?m 0)"
    using ex_timeout by (simp_all add: defs)
  obtain m1 where m1: "mgr_step ex_late ?m (Session_Event 0 Keep_Alive_Tick) = Some m1"
    by (simp add: defs keepAliveTick_def stop_room_def sendStop_def on_sess_def afterStop_def ex_timeout)
  show ?thesis using replaced_session_stops_successor [OF ex_new_mgr ex_twice_reached h m1] m1 by blast
qed

text \<open>C23: The manager and a session can wait for each other for ever: the manager hands a start to
  the session while the session, timed out, waits to put its id on the full channel of stop
  requests that only the manager empties.  From then on, whatever else the node does, the manager
  serves nothing and its session map never changes.\<close>

theorem manager_deadlock:
  assumes "sm_call m = Some (Starting i st)" "i < length (sm_objs m)" "to_waiting (sm_objs m ! i)" "length (sm_stops m) = 1"
    and "mgr_runs m t"
  shows "(\<exists>st. sm_call t = Some (Starting i st)) \<and> \<not> mgr_ok t Call_Returns \<and> sm_sessions t = sm_sessions m \<and>
    (\<forall>e \<in> {Recv_Create dt, Recv_Start st', Recv_Stop, Recv_Quit, Recv_Conn c a}. \<not> mgr_ok t e)"
proof -
  have "stuck i m" using assms(1-4) by (simp add: stuck_def stop_room_def)
  from stuck_runs [OF assms(5) this] have s: "stuck i t" "sm_sessions t = sm_sessions m" by blast+
  then show ?thesis by (auto simp: stuck_def ready_def call_ok_def idle_def)
qed

theorem manager_deadlock_witness:
  "mgr_runs (ex_mgr [] [] None) ex_stuck \<and> \<not> mgr_ok ex_stuck (Recv_Create (ex_dt ''c'')) \<and> \<not> mgr_ok ex_stuck Recv_Stop"
proof -
  have h: "sm_call ex_stuck = Some (Starting 1 \<lparr>st_TaskID = ''b'', st_LinkChain = None\<rparr>)" "1 < length (sm_objs ex_stuck)"
    "to_waiting (sm_objs ex_stuck ! 1)" "length (sm_stops ex_stuck) = 1"
    by (simp_all add: ex_stuck_def ex_mgr_def ex_obj_def)
  show ?thesis using manager_deadlock [OF h rtranclp.rtrancl_refl] ex_stuck_reached by blast
qed

end
