(* ===== verification/Meta.thy ===== *)
theory Meta
  imports Piece
begin

text \<open>
  \<open>p2p/meta.go\<close>: the metadata a server makes of the files it distributes.  The disk is the map
  of \<open>FileStore\<close>; what else the operating system decides is a \<open>meta_env\<close>.  The sums are those
  of \<open>Piece\<close>, computed through the read-only file system \<open>fsAdapter_Open\<close>.
\<close>

section \<open>The length of a piece\<close>

definition minimumPieceLength :: int where
  "minimumPieceLength = 1024 * 1024 * 256"

definition targetPieceCountMax :: int where
  "targetPieceCountMax = push_bit 1 (push_bit 28 1)"

text \<open>\<open>int64\<close> shifts of values that stay far below \<open>2\<^sup>6\<^sup>3\<close> (\<open>choosePieceLength_spec\<close>).\<close>

function choose_loop :: "int \<Rightarrow> int \<Rightarrow> int" where
  "choose_loop pieceLength num =
     (if num \<ge> targetPieceCountMax then choose_loop (push_bit 1 pieceLength) (drop_bit 1 num)
      else pieceLength)"
  by pat_completeness auto
termination
  by (relation "measure (\<lambda>(_, num). nat num)")
    (auto simp: targetPieceCountMax_def drop_bit_eq_div push_bit_eq_mult)

declare choose_loop.simps [simp del]

definition choosePieceLength :: "int \<Rightarrow> int" where
  "choosePieceLength totalLength = choose_loop minimumPieceLength (totalLength sdiv minimumPieceLength)"

section \<open>The files\<close>

datatype meta_error = Stat_Failed | Not_Support_Dir | Sum_Failed | Store_Failed io_error | Total_Length

record meta_env =
  me_isDir :: "string \<Rightarrow> bool"
  me_readable :: "string \<Rightarrow> bool"

definition sha1Sum :: "meta_env \<Rightarrow> disk \<Rightarrow> string \<Rightarrow> bytes option" where
  "sha1Sum e d file =
     (case d file of
        None \<Rightarrow> None
      | Some c \<Rightarrow> if me_readable e file then Some (sha1 c) else None)"

definition addFiles :: "meta_env \<Rightarrow> disk \<Rightarrow> int \<Rightarrow> string \<Rightarrow> meta_error + file_dict" where
  "addFiles e d sz file =
     (let cleanFile = path_Clean file; (p, n) = path_Split cleanFile in
      case sha1Sum e d file of
        None \<Rightarrow> Inl Sum_Failed
      | Some s \<Rightarrow> Inr \<lparr>fd_Length = sz, fd_Path = p, fd_Name = n, fd_Sum = s\<rparr>)"

text \<open>The loop over the roots: the files described so far and the sum of their sizes.\<close>

fun addRoots :: "meta_env \<Rightarrow> disk \<Rightarrow> string list \<Rightarrow> file_dict list \<Rightarrow> int \<Rightarrow> meta_error + file_dict list \<times> int" where
  "addRoots e d [] files len = Inr (files, len)"
| "addRoots e d (f # fs) files len =
     (if me_isDir e f then Inl Not_Support_Dir
      else case d f of
        None \<Rightarrow> Inl Stat_Failed
      | Some c \<Rightarrow>
          (case addFiles e d (int (length c)) f of
             Inl err \<Rightarrow> Inl err
           | Inr fd \<Rightarrow> addRoots e d fs (files @ [fd]) (len + int (length c))))"

definition CreateFileMeta ::
  "((int \<times> bytes) list \<Rightarrow> (int \<times> bytes) list) \<Rightarrow> meta_env \<Rightarrow> disk \<Rightarrow> string list \<Rightarrow> int \<Rightarrow>
   (meta_error + meta_info) run" where
  "CreateFileMeta order e d roots pieceLen =
     (case addRoots e d roots [] 0 of
        Inl err \<Rightarrow> Ret (Inl err)
      | Inr (files, len) \<Rightarrow>
          (let pieceLen = (if pieceLen = 0 then choosePieceLength len else pieceLen);
               mi = \<lparr>mi_Length = len, mi_PieceLen = pieceLen, mi_Pieces = [], mi_Files = files\<rparr>
           in case NewFileStore fsAdapter_Open d mi of
                None \<Rightarrow> Panics
              | Some (d, Inl err) \<Rightarrow> Ret (Inl (Store_Failed err))
              | Some (d, Inr (fs, n)) \<Rightarrow>
                  if n \<noteq> mi_Length mi then Ret (Inl Total_Length)
                  else run_bind (computeSums order d fs (mi_Length mi) (mi_PieceLen mi))
                    (\<lambda>sums. Ret (Inr (mi\<lparr>mi_Pieces := sums\<rparr>)))))"

section \<open>Lemmas\<close>

lemma choose_loop_spec:
  "0 \<le> q \<Longrightarrow> \<exists>k. choose_loop p q = p * 2 ^ k \<and> q div 2 ^ k < 2 ^ 29 \<and> (k = 0 \<or> 2 ^ 29 \<le> q div 2 ^ (k - 1))"
proof (induction p q rule: choose_loop.induct)
  case (1 p q)
  have t: "targetPieceCountMax = 2 ^ 29" by (simp add: targetPieceCountMax_def push_bit_eq_mult)
  show ?case
  proof (cases "q \<ge> targetPieceCountMax")
    case False
    then show ?thesis by (intro exI [of _ 0]) (simp add: choose_loop.simps t)
  next
    case True
    have "0 \<le> drop_bit 1 q" using 1(2) by simp
    then obtain k where k: "choose_loop (push_bit 1 p) (drop_bit 1 q) = push_bit 1 p * 2 ^ k"
      "drop_bit 1 q div 2 ^ k < 2 ^ 29" "k = 0 \<or> 2 ^ 29 \<le> drop_bit 1 q div 2 ^ (k - 1)"
      using 1(1) [OF True] by blast
    have d: "drop_bit 1 q div 2 ^ j = q div 2 ^ Suc j" for j
      by (simp add: drop_bit_eq_div zdiv_zmult2_eq)
    have "k = 0 \<or> 2 ^ 29 \<le> q div 2 ^ k" using k(3) d [of "k - 1"] by (cases k) simp_all
    then have "2 ^ 29 \<le> q div 2 ^ k" using True t by (cases k) simp_all
    then show ?thesis
      using k(1,2) True unfolding d
      by (intro exI [of _ "Suc k"]) (simp add: choose_loop.simps push_bit_eq_mult)
  qed
qed

lemma pieces_join: "pieces (x @ slash # y) = pieces x @ pieces y"
proof (induction x)
  case (Cons a x)
  then show ?case by (cases "pieces x") simp_all
qed simp

lemma clean_stack_append:
  "clean_stack r out (a @ b) = clean_stack r (clean_stack r out a) b"
proof (induction a arbitrary: out)
  case (Cons q qs)
  then show ?case by (cases out; cases r) simp_all
qed simp

lemma path_Split_parts:
  assumes "path_Split c = (p, n)"
  shows "c = p @ n" "slash \<notin> set n" "p = [] \<or> (\<exists>x. p = x @ [slash])"
proof -
  define tw dw where "tw = takeWhile (\<lambda>c. c \<noteq> slash) (rev c)" and "dw = dropWhile (\<lambda>c. c \<noteq> slash) (rev c)"
  have "rev c = tw @ dw" by (simp add: tw_def dw_def)
  then have c: "c = rev dw @ rev tw" by (metis rev_append rev_rev_ident)
  have s: "p = take (length c - length (rev tw)) c \<and> n = rev tw"
    using assms by (auto simp: path_Split_def Let_def tw_def)
  then have d: "p = rev dw" "n = rev tw" by (simp_all add: c)
  then show "c = p @ n" using c by simp
  have "\<forall>x \<in> set tw. x \<noteq> slash" unfolding tw_def by (auto dest: set_takeWhileD)
  then show "slash \<notin> set n" using d by auto
  show "p = [] \<or> (\<exists>x. p = x @ [slash])"
  proof (cases dw)
    case (Cons a r)
    then have "a = slash" using hd_dropWhile [of "\<lambda>c. c \<noteq> slash" "rev c"] by (simp add: dw_def)
    then show ?thesis using Cons d by simp
  qed (simp add: d)
qed

text \<open>Splitting a path and joining the two parts again gives the cleaned path.\<close>

lemma path_Join_Split:
  assumes "path_Split c = (p, n)"
  shows "path_Clean (path_Join [p, n]) = path_Clean c"
proof (cases "p = [] \<or> n = []")
  case True
  then show ?thesis using path_Split_parts [OF assms]
    by (auto simp: path_Join_def path_Clean_idem)
next
  case False
  then obtain x where x: "p = x @ [slash]" using path_Split_parts [OF assms] by blast
  have "path_Clean (x @ slash # slash # n) = path_Clean (x @ slash # n)"
  proof (rule path_Clean_cong)
    show "path_IsAbs (x @ slash # slash # n) = path_IsAbs (x @ slash # n)" by (cases x) simp_all
  qed (simp add: pieces_join clean_stack_append)
  then show ?thesis using False x path_Split_parts [OF assms]
    by (simp add: path_Join_def path_Clean_idem)
qed

definition root_ok :: "meta_env \<Rightarrow> disk \<Rightarrow> string \<Rightarrow> bool" where
  "root_ok e d f \<longleftrightarrow> \<not> me_isDir e f \<and> me_readable e f \<and> d f \<noteq> None"

definition root_bytes :: "disk \<Rightarrow> string \<Rightarrow> bytes" where
  "root_bytes d f = (case d f of None \<Rightarrow> [] | Some c \<Rightarrow> c)"

definition root_dict :: "disk \<Rightarrow> string \<Rightarrow> file_dict" where
  "root_dict d f = \<lparr>fd_Length = int (length (root_bytes d f)), fd_Path = fst (path_Split (path_Clean f)),
     fd_Name = snd (path_Split (path_Clean f)), fd_Sum = sha1 (root_bytes d f)\<rparr>"

definition all_bytes :: "disk \<Rightarrow> string list \<Rightarrow> bytes" where
  "all_bytes d roots = concat (map (root_bytes d) roots)"

lemma addRoots_ok:
  "\<forall>f \<in> set roots. root_ok e d f \<Longrightarrow>
   addRoots e d roots files len = Inr (files @ map (root_dict d) roots, len + int (length (all_bytes d roots)))"
proof (induction roots arbitrary: files len)
  case (Cons f fs)
  then obtain c where "d f = Some c" by (auto simp: root_ok_def)
  then show ?case using Cons
    by (auto simp: root_ok_def addFiles_def sha1Sum_def root_dict_def root_bytes_def all_bytes_def
        split: prod.splits)
qed (simp add: all_bytes_def)

lemma addRoots_bad:
  "\<exists>f \<in> set roots. \<not> root_ok e d f \<Longrightarrow> \<exists>err. addRoots e d roots files len = Inl err"
  by (induction roots arbitrary: files len)
    (auto simp: root_ok_def addFiles_def sha1Sum_def split: option.splits prod.splits)

definition entry_of :: "disk \<Rightarrow> string \<Rightarrow> file_entry" where
  "entry_of d f = \<lparr>fe_length = int (length (root_bytes d f)), fe_file = path_Clean f\<rparr>"

lemma openFiles_roots:
  "\<forall>f \<in> set roots. root_ok e d f \<and> d (path_Clean f) = d f \<Longrightarrow>
   \<exists>fs'. openFiles fsAdapter_Open d (map (root_dict d) roots) fs n =
     Some (d, Inr (fs', n + int (length (all_bytes d roots)))) \<and>
   fs_files fs' = fs_files fs @ map (entry_of d) roots"
proof (induction roots arbitrary: fs n)
  case (Cons f roots)
  then obtain c where c: "d f = Some c" by (auto simp: root_ok_def)
  have "path_Clean (path_Join [fst (path_Split (path_Clean f)), snd (path_Split (path_Clean f))]) = path_Clean f"
    using path_Join_Split [of "path_Clean f"] by (simp add: path_Clean_idem)
  then have o: "fsAdapter_Open d [fd_Path (root_dict d f), fd_Name (root_dict d f)] (fd_Length (root_dict d f)) =
      Some (d, Inr (path_Clean f))"
    using Cons.prems c by (simp add: fsAdapter_Open_def root_dict_def root_bytes_def)
  let ?fs = "fs\<lparr>fs_files := fs_files fs @ [\<lparr>fe_length = fd_Length (root_dict d f), fe_file = path_Clean f\<rparr>],
      fs_offsets := fs_offsets fs @ [n]\<rparr>"
  obtain fs' where r: "openFiles fsAdapter_Open d (map (root_dict d) roots) ?fs (n + fd_Length (root_dict d f)) =
      Some (d, Inr (fs', (n + fd_Length (root_dict d f)) + int (length (all_bytes d roots))))"
    "fs_files fs' = fs_files ?fs @ map (entry_of d) roots"
    using Cons.IH [of ?fs "n + fd_Length (root_dict d f)"] Cons.prems by auto
  have l: "fd_Length (root_dict d f) + int (length (all_bytes d roots)) = int (length (all_bytes d (f # roots)))"
    by (simp add: root_dict_def all_bytes_def)
  show ?case
    using r l by (intro exI [of _ fs']) (simp add: o entry_of_def, simp add: root_dict_def)
qed (simp add: all_bytes_def)

lemma open_roots:
  assumes "\<forall>f \<in> set roots. root_ok e d f \<and> d (path_Clean f) = d f" "distinct (map path_Clean roots)"
    and "mi_Files m = map (root_dict d) roots"
  obtains fs where "NewFileStore fsAdapter_Open d m = Some (d, Inr (fs, int (length (all_bytes d roots))))"
    and "plain_store d fs" "contents d fs = all_bytes d roots"
proof -
  obtain fs where o: "NewFileStore fsAdapter_Open d m = Some (d, Inr (fs, int (length (all_bytes d roots))))"
    and f: "fs_files fs = map (entry_of d) roots"
    using openFiles_roots [OF assms(1), of "\<lparr>fs_offsets = [], fs_files = [], fs_cache = None\<rparr>" 0]
    unfolding NewFileStore_def assms(3) by auto
  have "map fe_file (fs_files fs) = map path_Clean roots" by (simp add: f entry_of_def)
  then have p: "plain_store d fs" using adapter.NewFileStore_wf [OF o] assms(2) by (simp add: plain_store_def)
  have "map (content d) (fs_files fs) = map (root_bytes d) roots"
    using assms(1) by (simp add: f content_def entry_of_def root_bytes_def)
  then have "contents d fs = all_bytes d roots"
    by (simp add: contents_def contents_from_def all_bytes_def)
  then show ?thesis using that o p by blast
qed

lemma CreateFileMeta_ok:
  assumes "\<forall>f \<in> set roots. d (path_Clean f) = d f" "distinct (map path_Clean roots)"
    and "\<forall>xs. mset (order xs) = mset xs" "0 < P"
    and "int P = (if n = 0 then choosePieceLength (int (length (all_bytes d roots))) else n)"
    and ok: "\<forall>f \<in> set roots. root_ok e d f"
  shows "CreateFileMeta order e d roots n =
    Ret (Inr \<lparr>mi_Length = int (length (all_bytes d roots)), mi_PieceLen = int P,
      mi_Pieces = piece_sums (all_bytes d roots) P, mi_Files = map (root_dict d) roots\<rparr>)"
proof -
  let ?m = "\<lparr>mi_Length = int (length (all_bytes d roots)), mi_PieceLen = int P, mi_Pieces = [],
    mi_Files = map (root_dict d) roots\<rparr>"
  obtain fs where s: "NewFileStore fsAdapter_Open d ?m = Some (d, Inr (fs, int (length (all_bytes d roots))))"
    "plain_store d fs" "contents d fs = all_bytes d roots"
    using ok assms(1) by (rule_tac open_roots [of roots e d ?m, OF _ assms(2)]) auto
  have "computeSums order d fs (int (length (all_bytes d roots))) (int P) = Ret (piece_sums (all_bytes d roots) P)"
    by (rule computeSums_eq [OF s(2,3) assms(4)]) (simp add: assms(3))
  then show ?thesis
    unfolding CreateFileMeta_def addRoots_ok [OF ok] using s(1) assms(5)
    by (simp add: Let_def del: of_nat_sum)
qed

lemma CreateFileMeta_bad:
  "\<exists>f \<in> set roots. \<not> root_ok e d f \<Longrightarrow> \<exists>err. CreateFileMeta order e d roots n = Ret (Inl err)"
  using addRoots_bad [of roots e d "[]" 0] by (auto simp: CreateFileMeta_def)

section \<open>Properties\<close>

lemma countPieces_round_up:
  assumes "0 \<le> n" "0 < P"
  shows "countPieces n P = Some (if n mod P = 0 then (n div P, P) else (n div P + 1, n mod P))"
  using assms by (simp add: countPieces_def go_div_nonneg go_mod_nonneg)

text \<open>C19: The chosen piece length is 256 MiB times the least power of two for which the data has
  fewer than 2^29 whole pieces, and for any 64-bit total it stays far from overflow. The number
  of pieces the program counts with it is rounded up: it is at most 2^29, and it reaches this
  target (which the comment of the source wants it to stay below) exactly when 2^29 - 1 whole
  pieces leave a rest. Once the length has been doubled there are at least 2^28 pieces.\<close>

theorem choosePieceLength_spec:
  assumes "0 \<le> n"
  shows "\<exists>k c l. choosePieceLength n = 2 ^ (28 + k) \<and> n div choosePieceLength n < 2 ^ 29 \<and>
    (k = 0 \<or> 2 ^ 29 \<le> n div (2 ^ (28 + (k - 1)))) \<and> (n < 2 ^ 63 \<longrightarrow> k \<le> 6) \<and>
    countPieces n (choosePieceLength n) = Some (c, l) \<and> c \<le> 2 ^ 29 \<and> (k = 0 \<or> 2 ^ 28 \<le> c) \<and>
    (c = 2 ^ 29 \<longleftrightarrow> n div choosePieceLength n = 2 ^ 29 - 1 \<and> n mod choosePieceLength n \<noteq> 0)"
proof -
  have m: "minimumPieceLength = 2 ^ 28" by (simp add: minimumPieceLength_def)
  have q: "n sdiv minimumPieceLength = n div 2 ^ 28" using assms by (simp add: m sdiv_nonneg)
  have "0 \<le> n div 2 ^ 28" using assms by simp
  from choose_loop_spec [OF this, of "2 ^ 28"] obtain k where
    k: "choosePieceLength n = 2 ^ 28 * 2 ^ k" "n div 2 ^ 28 div 2 ^ k < 2 ^ 29"
      "k = 0 \<or> 2 ^ 29 \<le> n div 2 ^ 28 div 2 ^ (k - 1)"
    unfolding choosePieceLength_def q unfolding m by blast
  have d: "n div 2 ^ 28 div 2 ^ j = n div 2 ^ (28 + j)" for j
    by (simp only: power_add zdiv_zmult2_eq [of "2 ^ j"] zero_le_power zero_le_numeral)
  have "k \<le> 6" if "n < 2 ^ 63"
  proof (rule ccontr)
    assume "\<not> k \<le> 6"
    then have l: "2 ^ 29 \<le> n div 2 ^ (28 + (k - 1))" using k(3) unfolding d by auto
    have "34 \<le> 28 + (k - 1)" using \<open>\<not> k \<le> 6\<close> by simp
    then have e: "(2 :: int) ^ 34 \<le> 2 ^ (28 + (k - 1))" by (intro power_increasing) simp_all
    have "n div 2 ^ (28 + (k - 1)) \<le> n div 2 ^ 34" using e assms by (intro zdiv_mono2) simp_all
    also have "\<dots> < 2 ^ 29" using that by simp
    finally show False using l by simp
  qed
  then have small: "n < 2 ^ 63 \<longrightarrow> k \<le> 6" by blast
  define P where "P = choosePieceLength n"
  define r where "r = (if n mod P = 0 then (n div P, P) else (n div P + 1, n mod P))"
  have p: "P = 2 ^ (28 + k)" using k(1) by (simp add: P_def power_add)
  then have "0 < P" by simp
  then have c: "countPieces n P = Some (fst r, snd r)" using assms by (simp add: countPieces_round_up r_def)
  have q: "n div P < 2 ^ 29" "k = 0 \<or> 2 ^ 29 \<le> n div (2 ^ (28 + (k - 1)))"
    using k(2,3) unfolding d p by simp_all
  have h: "k = 0 \<or> 2 ^ 28 \<le> n div P"
  proof (cases k)
    case (Suc j)
    have "(2 :: int) ^ 29 div 2 \<le> n div 2 ^ (28 + j) div 2"
      using q(2) by (intro zdiv_mono1) (simp_all add: Suc)
    also have "n div 2 ^ (28 + j) div 2 = n div (2 ^ (28 + j) * 2)" by (rule zdiv_zmult2_eq [symmetric]) simp
    also have "(2 :: int) ^ (28 + j) * 2 = P" by (simp add: p Suc power_add)
    finally show ?thesis by simp
  qed simp
  have b: "fst r \<le> 2 ^ 29" "k = 0 \<or> 2 ^ 28 \<le> fst r"
    "fst r = 2 ^ 29 \<longleftrightarrow> n div P = 2 ^ 29 - 1 \<and> n mod P \<noteq> 0"
    using q(1) h by (auto simp: r_def)
  show ?thesis unfolding P_def [symmetric]
    by (rule exI [of _ k], rule exI [of _ "fst r"], rule exI [of _ "snd r"]) (intro conjI p q small c b)
qed

theorem choosePieceLength_spec_witness:
  "choosePieceLength (2 ^ 58) = 2 ^ 30 \<and> (\<exists>l. countPieces (2 ^ 57 - 1) (2 ^ 28) = Some (2 ^ 29, l))"
proof -
  have a: "choosePieceLength (2 ^ 58) = 2 ^ 30" "choosePieceLength (2 ^ 57 - 1) = 2 ^ 28"
    by (simp_all add: choosePieceLength_def minimumPieceLength_def choose_loop.simps targetPieceCountMax_def
        push_bit_eq_mult drop_bit_eq_div sdiv_nonneg)
  then show ?thesis using choosePieceLength_spec [of "2 ^ 57 - 1"] by auto
qed

text \<open>C17: The metadata of a list of files: when every root is a readable file, the piece sums are
  those of the concatenated bytes, the total length is their number, and each file is described
  by its cleaned path cut into directory and name, its length and its own SHA-1 sum; otherwise
  an error is returned; the order in which the hashing goroutines deliver does not matter.\<close>

theorem CreateFileMeta_spec:
  assumes "\<forall>f \<in> set roots. d (path_Clean f) = d f" "distinct (map path_Clean roots)"
    and "\<forall>xs. mset (order xs) = mset xs" "0 < P"
    and "int P = (if n = 0 then choosePieceLength (int (length (all_bytes d roots))) else n)"
  shows "((\<forall>f \<in> set roots. root_ok e d f) \<longrightarrow> CreateFileMeta order e d roots n =
      Ret (Inr \<lparr>mi_Length = int (length (all_bytes d roots)), mi_PieceLen = int P,
        mi_Pieces = piece_sums (all_bytes d roots) P, mi_Files = map (root_dict d) roots\<rparr>)) \<and>
    ((\<exists>f \<in> set roots. \<not> root_ok e d f) \<longrightarrow> (\<exists>err. CreateFileMeta order e d roots n = Ret (Inl err)))"
  using CreateFileMeta_ok [OF assms] CreateFileMeta_bad by blast

definition ex_env :: meta_env where
  "ex_env = \<lparr>me_isDir = \<lambda>f. f = ''/'', me_readable = \<lambda>_. True\<rparr>"

definition ex_roots :: disk where
  "ex_roots = [''/a'' \<mapsto> [1, 2, 3], ''/b'' \<mapsto> [4]]"

lemma ex_clean: "path_Clean ''/a'' = ''/a''" "path_Clean ''/b'' = ''/b''"
  by (simp_all add: path_Clean_def dot_def dotdot_def)

lemma ex_all_bytes: "all_bytes ex_roots [''/a'', ''/b''] = [1, 2, 3, 4]"
  by (simp add: all_bytes_def root_bytes_def ex_roots_def)

theorem CreateFileMeta_spec_witness:
  "CreateFileMeta rev ex_env ex_roots [''/a'', ''/b''] 3 =
    Ret (Inr \<lparr>mi_Length = 4, mi_PieceLen = 3, mi_Pieces = sha1 [1, 2, 3] @ sha1 [4],
      mi_Files = [\<lparr>fd_Length = 3, fd_Path = ''/'', fd_Name = ''a'', fd_Sum = sha1 [1, 2, 3]\<rparr>,
        \<lparr>fd_Length = 1, fd_Path = ''/'', fd_Name = ''b'', fd_Sum = sha1 [4]\<rparr>]\<rparr>)"
proof -
  have s: "piece_sums [1, 2, 3, 4] 3 = sha1 [1, 2, 3] @ sha1 [4]"
    by (simp add: piece_sums_def piece_bytes_def window_def piece_count_def upt_rec)
  have r: "root_dict ex_roots ''/a'' =
      \<lparr>fd_Length = 3, fd_Path = ''/'', fd_Name = ''a'', fd_Sum = sha1 [1, 2, 3]\<rparr>"
    "root_dict ex_roots ''/b'' = \<lparr>fd_Length = 1, fd_Path = ''/'', fd_Name = ''b'', fd_Sum = sha1 [4]\<rparr>"
    by (simp_all add: root_dict_def ex_clean root_bytes_def ex_roots_def path_Split_def)
  have o: "\<forall>f \<in> set [''/a'', ''/b'']. root_ok ex_env ex_roots f"
    by (simp add: root_ok_def ex_env_def ex_roots_def)
  show ?thesis
    using CreateFileMeta_spec [of "[''/a'', ''/b'']" ex_roots rev 3 3 ex_env] o
    by (simp add: ex_clean ex_all_bytes s r)
qed

text \<open>C18: Published metadata and received files meet: a node whose files hold the bytes of the
  server's files, cut into files in whatever way, counts every piece as good against the
  metadata the server published.\<close>

theorem published_meta_accepted:
  assumes "CreateFileMeta order e d roots n = Ret (Inr m)" "\<forall>xs. mset (order xs) = mset xs"
    and "\<forall>f \<in> set roots. d (path_Clean f) = d f" "distinct (map path_Clean roots)"
    and "0 < P" "int P = (if n = 0 then choosePieceLength (int (length (all_bytes d roots))) else n)"
    and "plain_store d' fs" "contents d' fs = all_bytes d roots" "\<forall>xs. mset (order' xs) = mset xs"
  shows "\<exists>b. checkPieces order' d' fs (mi_Length m) m =
      Ret (int (piece_count (length (all_bytes d roots)) P), 0, b, None) \<and>
    wf_bitset b \<and> elems b = {0..<piece_count (length (all_bytes d roots)) P}"
proof -
  let ?bs = "all_bytes d roots"
  have "\<forall>f \<in> set roots. root_ok e d f"
    using CreateFileMeta_bad [of roots e d order n] assms(1) by auto
  then have m: "mi_Length m = int (length ?bs)" "mi_PieceLen m = int P" "mi_Pieces m = piece_sums ?bs P"
    using CreateFileMeta_ok [OF assms(3,4,2,5,6)] assms(1) by auto
  have g: "good_pieces (mi_Pieces m) ?bs P = {0..<piece_count (length ?bs) P}"
    by (auto simp: good_pieces_def m window_piece_sums)
  show ?thesis
    using checkPieces_eq [OF assms(7,8) m(2) assms(5), of order'] assms(9) g
    by (auto simp: m)
qed

theorem published_meta_accepted_witness:
  "\<exists>m b. CreateFileMeta rev ex_env ex_roots [''/a'', ''/b''] 3 = Ret (Inr m) \<and>
    checkPieces rev [''f'' \<mapsto> [1, 2, 3, 4]]
      \<lparr>fs_offsets = [0], fs_files = [\<lparr>fe_length = 4, fe_file = ''f''\<rparr>], fs_cache = None\<rparr> (mi_Length m) m =
      Ret (2, 0, b, None)"
proof -
  let ?fs = "\<lparr>fs_offsets = [0], fs_files = [\<lparr>fe_length = 4, fe_file = ''f''\<rparr>], fs_cache = None\<rparr>"
  let ?d = "[''f'' \<mapsto> [1, 2, 3, 4 :: byte]]"
  have p: "plain_store ?d ?fs" by (simp add: plain_store_def wf_store_def base_of_def)
  have c: "contents ?d ?fs = [1, 2, 3, 4]" by (simp add: contents_def contents_from_def content_def)
  obtain m where m: "CreateFileMeta rev ex_env ex_roots [''/a'', ''/b''] 3 = Ret (Inr m)"
    using CreateFileMeta_ok [of "[''/a'', ''/b'']" ex_roots rev 3 3 ex_env]
    by (force simp: ex_clean root_ok_def ex_env_def ex_roots_def)
  show ?thesis
    using published_meta_accepted [OF m, of 3 ?d ?fs rev] m
    by (auto simp: ex_clean ex_all_bytes p c piece_count_def)
qed

end
