(* ===== verification/TaskMgnt.thy ===== *)
theory TaskMgnt
  imports Session Meta "HOL-Library.AList"
begin

text \<open>
  \<open>server/taskmgnt.go\<close>: one distribution task on the server.  One goroutine owns the task: it
  creates the task on the agents, waits for their answers, starts it on those that answered,
  and then serves stop, compare and query requests and the agents' reports.  The goroutine
  blocks in three places; where it blocks is \<open>ct_phase\<close>.  \<open>ct_sent\<close> holds the addresses of the
  HTTP requests not answered yet: each sender goroutine delivers one answer.  \<open>ct_out\<close> is the
  sequence of calls the task has made to the session manager, the cache and the agents.
\<close>

section \<open>Data (api.go)\<close>

datatype task_status = TaskNotExist | TaskExist | TaskInit | TaskFailed | TaskCompleted
  | TaskInProgress | TaskFileNotExist

fun status_String :: "task_status \<Rightarrow> string" where
  "status_String TaskNotExist = ''TASK_NOT_EXISTED''"
| "status_String TaskExist = ''TASK_EXISTED''"
| "status_String TaskInit = ''INIT''"
| "status_String TaskFailed = ''FAILED''"
| "status_String TaskCompleted = ''COMPLETED''"
| "status_String TaskInProgress = ''INPROGESS''"
| "status_String TaskFileNotExist = ''FILE_NOT_EXISTED''"

record create_task =
  cr_ID :: string
  cr_FileType :: int
  cr_Gid :: int
  cr_Version :: int
  cr_StorageDir :: string
  cr_DispatchFiles :: "string list"
  cr_DestIPs :: "string list"

record dispatch_file =
  df_FileName :: string
  df_PercentComplete :: rat

record dispatch_info =
  di_Status :: string
  di_PercentComplete :: rat
  di_StartedAt :: int
  di_FinishedAt :: "int option"
  di_DispatchFiles :: "dispatch_file list"

record task_info =
  ti_ID :: string
  ti_Status :: string
  ti_StartedAt :: int
  ti_FinishedAt :: "int option"
  ti_DispatchInfos :: "(string \<times> dispatch_info) list"

record status_report =
  sr_TaskID :: string
  sr_IP :: string
  sr_FileType :: int
  sr_GID :: int
  sr_Version :: int
  sr_StorageDir :: string
  sr_PercentComplete :: rat

section \<open>The task\<close>

definition FixedBlockLen :: int where
  "FixedBlockLen = 1024 * 1024 * 256"

datatype http_body = Create_Body dispatch_task | Start_Body start_task

datatype action = Session_Create dispatch_task | Session_Start start_task | Session_Stop string
  | Cache_Replace "int option" | Http_Post string string http_body | Http_Delete string string
  | Reply_Cmp bool | Reply_Query task_info

datatype ct_phase = In_Create | In_Start | Serving | Ended

record task_mgr =
  ct_cfg :: config
  ct_id :: string
  ct_dispatchFiles :: "string list"
  ct_destIPs :: "string list"
  ct_ti :: task_info
  ct_fileType :: int
  ct_gid :: int
  ct_version :: int
  ct_storageDir :: string
  ct_succCount :: int
  ct_failCount :: int
  ct_allCount :: int
  ct_phase :: ct_phase
  ct_sent :: "string list"
  ct_out :: "action list"

record task_world =
  tw_now :: int
  tw_disk :: disk
  tw_meta :: meta_env
  tw_order :: "(int \<times> bytes) list \<Rightarrow> (int \<times> bytes) list"

definition newDispatchInfo :: "int \<Rightarrow> create_task \<Rightarrow> dispatch_info" where
  "newDispatchInfo now t = \<lparr>di_Status = status_String TaskInit, di_PercentComplete = 0,
     di_StartedAt = now, di_FinishedAt = None,
     di_DispatchFiles = map (\<lambda>fn. \<lparr>df_FileName = fn, df_PercentComplete = 0\<rparr>) (cr_DispatchFiles t)\<rparr>"

definition newTaskInfo :: "int \<Rightarrow> create_task \<Rightarrow> task_info" where
  "newTaskInfo now t = \<lparr>ti_ID = cr_ID t, ti_Status = status_String TaskInit, ti_StartedAt = now,
     ti_FinishedAt = None,
     ti_DispatchInfos = fold (\<lambda>ip m. AList.update ip (newDispatchInfo now t) m) (cr_DestIPs t) []\<rparr>"

definition NewCachedTaskInfo :: "config \<Rightarrow> int \<Rightarrow> create_task \<Rightarrow> task_mgr" where
  "NewCachedTaskInfo cfg now t = \<lparr>ct_cfg = cfg, ct_id = cr_ID t, ct_dispatchFiles = cr_DispatchFiles t,
     ct_destIPs = cr_DestIPs t, ct_ti = newTaskInfo now t, ct_fileType = cr_FileType t,
     ct_gid = cr_Gid t, ct_version = cr_Version t, ct_storageDir = cr_StorageDir t,
     ct_succCount = 0, ct_failCount = 0, ct_allCount = 0, ct_phase = Serving, ct_sent = [], ct_out = []\<rparr>"

definition chainNodes :: "string list \<Rightarrow> task_info \<Rightarrow> string list" where
  "chainNodes ips ti = filter (\<lambda>ip. case map_of (ti_DispatchInfos ti) ip of
     None \<Rightarrow> False | Some di \<Rightarrow> di_Status di = status_String TaskInProgress) ips"

definition createLinkChain :: "config \<Rightarrow> string list \<Rightarrow> task_info \<Rightarrow> link_chain" where
  "createLinkChain cfg ips ti =
     \<lparr>lc_DispatchAddrs = host_port (Host (c_Net cfg)) (DataPort (c_Net cfg)) #
        map (\<lambda>ip. host_port ip (AgentDataPort (c_Net cfg))) (chainNodes ips ti),
      lc_ServerAddr = host_port (Host (c_Net cfg)) (MgntPort (c_Net cfg))\<rparr>"

definition emit :: "action list \<Rightarrow> task_mgr \<Rightarrow> task_mgr" where
  "emit as ct = ct\<lparr>ct_out := ct_out ct @ as\<rparr>"

definition set_info :: "string \<Rightarrow> dispatch_info \<Rightarrow> task_mgr \<Rightarrow> task_mgr" where
  "set_info ip di ct = ct\<lparr>ct_ti := (ct_ti ct)\<lparr>ti_DispatchInfos :=
     AList.update ip di (ti_DispatchInfos (ct_ti ct))\<rparr>\<rparr>"

definition seconds_of :: "int \<Rightarrow> int" where
  "seconds_of n = n * 1000000000"

definition endTask :: "task_world \<Rightarrow> task_status \<Rightarrow> task_mgr \<Rightarrow> task_mgr" where
  "endTask w ts ct = emit [Cache_Replace (Some (seconds_of (5 * 60))), Session_Stop (ct_id ct)]
     (ct\<lparr>ct_ti := (ct_ti ct)\<lparr>ti_Status := status_String ts, ti_FinishedAt := Some (tw_now w)\<rparr>\<rparr>)"

text \<open>The host an address names: cut at the first colon, unless the colon comes first.\<close>

definition host_of :: "string \<Rightarrow> string" where
  "host_of addr = (if CHR '':'' \<in> set addr \<and> takeWhile (\<lambda>c. c \<noteq> CHR '':'') addr \<noteq> []
     then takeWhile (\<lambda>c. c \<noteq> CHR '':'') addr else addr)"

definition sendReqToClients :: "string list \<Rightarrow> string \<Rightarrow> http_body \<Rightarrow> task_mgr \<Rightarrow> task_mgr" where
  "sendReqToClients ips url body ct =
     emit (map (\<lambda>ip. Http_Post (host_of ip) url body) ips) (ct\<lparr>ct_sent := ct_sent ct @ map host_of ips\<rparr>)"

definition stopAllClientTask :: "task_mgr \<Rightarrow> task_mgr" where
  "stopAllClientTask ct = emit (Session_Stop (ct_id ct) #
     map (\<lambda>ip. Http_Delete ip (''/api/v1/agent/tasks/'' @ ct_id ct)) (ct_destIPs ct)) ct"

text \<open>What \<open>Start\<close> does with the status \<open>createTask\<close> returns.\<close>

definition created :: "task_world \<Rightarrow> task_status \<Rightarrow> task_mgr \<Rightarrow> task_mgr" where
  "created w ts ct = (let ct = ct\<lparr>ct_phase := Serving\<rparr> in
     if ts \<noteq> TaskInProgress then endTask w ts ct else ct)"

definition dispatchTaskOf :: "task_mgr \<Rightarrow> meta_info \<Rightarrow> dispatch_task" where
  "dispatchTaskOf ct mi = \<lparr>dt_TaskID = ct_id ct, dt_FileType = ct_fileType ct, dt_GID = ct_gid ct,
     dt_Version = ct_version ct, dt_StorageDir = ct_storageDir ct, dt_MetaInfo = mi,
     dt_LinkChain = Some (createLinkChain (ct_cfg ct) [] (ct_ti ct)),
     dt_Speed = (case c_Control (ct_cfg ct) of None \<Rightarrow> 0 | Some c \<Rightarrow> Speed c * FixedBlockLen)\<rparr>"

text \<open>\<open>createTask\<close> and \<open>startTask\<close> up to the loop that waits for the answers.  Without a
  \<open>Control\<close> section the configuration is a nil pointer and the task panics.\<close>

definition createTask :: "task_world \<Rightarrow> task_mgr \<Rightarrow> task_mgr option" where
  "createTask w ct =
     (case CreateFileMeta (tw_order w) (tw_meta w) (tw_disk w) (ct_dispatchFiles ct) FixedBlockLen of
        Ret (Inl _) \<Rightarrow> Some (created w TaskFileNotExist ct)
      | Ret (Inr mi) \<Rightarrow>
          if c_Control (ct_cfg ct) = None then None
          else (let dt = dispatchTaskOf ct mi;
             ct = ct\<lparr>ct_allCount := int (length (ct_destIPs ct)), ct_succCount := 0, ct_failCount := 0,
               ct_ti := (ct_ti ct)\<lparr>ti_Status := status_String TaskInProgress\<rparr>, ct_phase := In_Create\<rparr>;
             ct = emit [Session_Create dt] ct
           in Some (sendReqToClients (ct_destIPs ct) ''/api/v1/agent/tasks'' (Create_Body dt) ct))
      | _ \<Rightarrow> None)"

definition startTask :: "task_world \<Rightarrow> task_mgr \<Rightarrow> task_mgr" where
  "startTask w ct =
     (let lc = createLinkChain (ct_cfg ct) (ct_destIPs ct) (ct_ti ct);
          st = \<lparr>st_TaskID = ct_id ct, st_LinkChain = Some lc\<rparr>;
          ct = ct\<lparr>ct_allCount := int (length (lc_DispatchAddrs lc)) - 1, ct_succCount := 0,
            ct_failCount := 0, ct_phase := In_Start\<rparr>;
          ct = emit [Session_Start st] ct
      in sendReqToClients (tl (lc_DispatchAddrs lc)) ''/api/v1/agent/tasks/start'' (Start_Body st) ct)"

definition checkAgentRsp :: "task_world \<Rightarrow> string \<Rightarrow> bool \<Rightarrow> task_mgr \<Rightarrow> task_mgr" where
  "checkAgentRsp w ip success ct =
     (case map_of (ti_DispatchInfos (ct_ti ct)) ip of
        None \<Rightarrow> ct
      | Some di \<Rightarrow>
          (let di = di\<lparr>di_StartedAt := tw_now w\<rparr> in
           if success then (set_info ip (di\<lparr>di_Status := status_String TaskInProgress\<rparr>) ct)
             \<lparr>ct_succCount := ct_succCount ct + 1\<rparr>
           else (set_info ip (di\<lparr>di_Status := status_String TaskFailed, di_FinishedAt := Some (tw_now w)\<rparr>) ct)
             \<lparr>ct_failCount := ct_failCount ct + 1\<rparr>))"

text \<open>\<open>int(x)\<close> of a float: rounded towards zero.\<close>

definition rat_trunc :: "rat \<Rightarrow> int" where
  "rat_trunc x = (if x \<ge> 0 then \<lfloor>x\<rfloor> else \<lceil>x\<rceil>)"

definition reportStatus :: "task_world \<Rightarrow> status_report \<Rightarrow> task_mgr \<Rightarrow> task_mgr" where
  "reportStatus w csr ct =
     (case map_of (ti_DispatchInfos (ct_ti ct)) (sr_IP csr) of
        None \<Rightarrow> ct
      | Some di \<Rightarrow>
          (let di = (if rat_trunc (sr_PercentComplete csr) = 100
               then di\<lparr>di_Status := status_String TaskCompleted, di_FinishedAt := Some (tw_now w)\<rparr>
             else if rat_trunc (sr_PercentComplete csr) = -1
               then di\<lparr>di_Status := status_String TaskFailed, di_FinishedAt := Some (tw_now w)\<rparr>
             else di)
           in set_info (sr_IP csr) (di\<lparr>di_PercentComplete := sr_PercentComplete csr\<rparr>) ct))"

definition checkFinished :: "task_info \<Rightarrow> task_status \<times> bool" where
  "checkFinished ti =
     (let infos = map snd (ti_DispatchInfos ti);
          completed = length (filter (\<lambda>v. di_Status v = status_String TaskCompleted) infos);
          failed = length (filter (\<lambda>v. di_Status v = status_String TaskFailed) infos)
      in if completed = length infos then (TaskCompleted, True)
         else if completed + failed = length infos then (TaskCompleted, True)
         else (TaskInProgress, False))"

text \<open>The two nested loops: any pair of different elements ends them.\<close>

fun noneDiffers :: "string \<Rightarrow> string list \<Rightarrow> bool" where
  "noneDiffers i [] = True"
| "noneDiffers i (j # js) = (if i \<noteq> j then False else noneDiffers i js)"

fun equalLoop :: "string list \<Rightarrow> string list \<Rightarrow> bool" where
  "equalLoop [] b = True"
| "equalLoop (i # is) b = (if noneDiffers i b then equalLoop is b else False)"

definition equalSlice :: "string list \<Rightarrow> string list \<Rightarrow> bool" where
  "equalSlice a b = (if length a \<noteq> length b then False else equalLoop a b)"

section \<open>The goroutine\<close>

text \<open>
  \<open>Cmp t shut\<close>: the caller of \<open>EqualCmp\<close> takes one answer and closes its channel; \<open>shut\<close> says
  that it had done so before the goroutine sent its second answer, which then panics.
\<close>

datatype ct_event = Agent_Rsp string bool | Rsp_Timeout | Quit_Task | Stop_Task
  | Cmp create_task bool | Query_Task | Report status_report

definition agentRsp :: "task_world \<Rightarrow> string \<Rightarrow> bool \<Rightarrow> task_mgr \<Rightarrow> task_mgr" where
  "agentRsp w ip ok ct =
     (let ct = checkAgentRsp w ip ok ct in
      if ct_failCount ct = ct_allCount ct then created w TaskFailed ct
      else if ct_succCount ct + ct_failCount ct = ct_allCount ct
        then (if ct_phase ct = In_Create then startTask w ct else created w TaskInProgress ct)
      else ct)"

definition cmpTask :: "task_world \<Rightarrow> create_task \<Rightarrow> bool \<Rightarrow> task_mgr \<Rightarrow> task_mgr option" where
  "cmpTask w t shut ct =
     (let same = equalSlice (cr_DestIPs t) (ct_destIPs ct) \<and> equalSlice (cr_DispatchFiles t) (ct_dispatchFiles ct);
          ct1 = (if same then ct else emit [Reply_Cmp False] ct)
      in if \<not> same \<and> shut then None
         else (let ct2 = emit [Reply_Cmp True] ct1 in
           if ti_Status (ct_ti ct2) = status_String TaskFailed
           then createTask w (emit [Cache_Replace None] ct2) else Some ct2))"

definition reportTask :: "task_world \<Rightarrow> status_report \<Rightarrow> task_mgr \<Rightarrow> task_mgr" where
  "reportTask w csr ct =
     (let ct = reportStatus w csr ct; (ts, fin) = checkFinished (ct_ti ct) in
      if fin then stopAllClientTask (endTask w ts ct) else ct)"

fun ct_event_ok :: "task_mgr \<Rightarrow> ct_event \<Rightarrow> bool" where
  "ct_event_ok ct (Agent_Rsp ip ok) \<longleftrightarrow> ct_phase ct \<in> {In_Create, In_Start} \<and> ip \<in> set (ct_sent ct)"
| "ct_event_ok ct Rsp_Timeout \<longleftrightarrow> ct_phase ct \<in> {In_Create, In_Start}"
| "ct_event_ok ct _ \<longleftrightarrow> ct_phase ct = Serving"

fun ct_step :: "task_world \<Rightarrow> task_mgr \<Rightarrow> ct_event \<Rightarrow> task_mgr option" where
  "ct_step w ct (Agent_Rsp ip ok) = Some (agentRsp w ip ok (ct\<lparr>ct_sent := remove1 ip (ct_sent ct)\<rparr>))"
| "ct_step w ct Rsp_Timeout = Some (if ct_succCount ct = 0 then created w TaskFailed ct else ct)"
| "ct_step w ct Quit_Task = Some (ct\<lparr>ct_phase := Ended\<rparr>)"
| "ct_step w ct Stop_Task = Some (stopAllClientTask (endTask w TaskFailed ct))"
| "ct_step w ct (Cmp t shut) = cmpTask w t shut ct"
| "ct_step w ct Query_Task = Some (emit [Reply_Query (ct_ti ct)] ct)"
| "ct_step w ct (Report csr) = Some (reportTask w csr ct)"

inductive ct_next :: "task_mgr \<Rightarrow> task_mgr \<Rightarrow> bool" where
  event: "\<lbrakk>ct_event_ok ct e; ct_step w ct e = Some ct'\<rbrakk> \<Longrightarrow> ct_next ct ct'"

inductive_cases ct_nextE: "ct_next ct ct'"

abbreviation ct_runs :: "task_mgr \<Rightarrow> task_mgr \<Rightarrow> bool" where
  "ct_runs \<equiv> ct_next\<^sup>*\<^sup>*"

end
