(* ===== verification/TaskInv.thy ===== *)
theory TaskInv
  imports TaskMgnt "HOL-Library.Sublist"
begin

text \<open>
  What the task goroutine keeps: the nodes of the task are its target addresses, its status is
  one of five, a completed task has only completed and failed nodes, a start command went only to
  a part of the targets and only after the task was created, and while it waits for answers
  enough of them are outstanding.  The interface \<open>machine\<close> carries this to every run.
\<close>

section \<open>The invariant\<close>

definition node_ok :: "string \<Rightarrow> bool" where
  "node_ok s \<longleftrightarrow> s \<in> status_String ` {TaskInit, TaskInProgress, TaskFailed, TaskCompleted}"

definition done_ok :: "string \<Rightarrow> bool" where
  "done_ok s \<longleftrightarrow> s \<in> status_String ` {TaskFailed, TaskCompleted}"

definition infos :: "task_mgr \<Rightarrow> (string \<times> dispatch_info) list" where
  "infos ct = ti_DispatchInfos (ct_ti ct)"

definition nodes_inv :: "task_mgr \<Rightarrow> bool" where
  "nodes_inv ct \<longleftrightarrow> distinct (map fst (infos ct)) \<and> set (map fst (infos ct)) = set (ct_destIPs ct) \<and>
     (\<forall>(ip, di) \<in> set (infos ct). node_ok (di_Status di))"

definition status_inv :: "task_mgr \<Rightarrow> bool" where
  "status_inv ct \<longleftrightarrow>
     ti_Status (ct_ti ct) \<in> status_String ` {TaskInit, TaskInProgress, TaskFailed, TaskCompleted, TaskFileNotExist} \<and>
     (ti_Status (ct_ti ct) = status_String TaskCompleted \<longrightarrow>
       (\<forall>(ip, di) \<in> set (infos ct). done_ok (di_Status di)))"

definition waiting :: "task_mgr \<Rightarrow> bool" where
  "waiting ct \<longleftrightarrow> ct_phase ct \<in> {In_Create, In_Start}"

definition wait_inv :: "task_mgr \<Rightarrow> bool" where
  "wait_inv ct \<longleftrightarrow> (waiting ct \<longrightarrow> ti_Status (ct_ti ct) = status_String TaskInProgress \<and>
     0 \<le> ct_succCount ct \<and> 0 \<le> ct_failCount ct \<and>
     (ct_succCount ct + ct_failCount ct < ct_allCount ct \<or> ct_allCount ct = 0) \<and>
     ct_allCount ct \<le> ct_succCount ct + ct_failCount ct +
       int (length (filter (\<lambda>ip. ip \<in> set (ct_destIPs ct)) (ct_sent ct))) \<and>
     (\<exists>dt. Session_Create dt \<in> set (ct_out ct)))"

definition start_ok :: "task_mgr \<Rightarrow> start_task \<Rightarrow> bool" where
  "start_ok ct st \<longleftrightarrow> st_TaskID st = ct_id ct \<and> (\<exists>lc ips. st_LinkChain st = Some lc \<and> subseq ips (ct_destIPs ct) \<and>
     lc_DispatchAddrs lc = host_port (Host (c_Net (ct_cfg ct))) (DataPort (c_Net (ct_cfg ct))) #
       map (\<lambda>ip. host_port ip (AgentDataPort (c_Net (ct_cfg ct)))) ips)"

definition trace_inv :: "task_mgr \<Rightarrow> bool" where
  "trace_inv ct \<longleftrightarrow> (\<forall>pre st post. ct_out ct = pre @ Session_Start st # post \<longrightarrow>
     start_ok ct st \<and> (\<exists>dt. Session_Create dt \<in> set pre))"

text \<open>Target addresses without a port: the address an answer carries is then the target itself.\<close>

definition plain_host :: "string \<Rightarrow> bool" where
  "plain_host ip \<longleftrightarrow> ip \<noteq> [] \<and> CHR '':'' \<notin> set ip"

definition base_inv :: "task_mgr \<Rightarrow> bool" where
  "base_inv ct \<longleftrightarrow> (\<forall>ip \<in> set (ct_destIPs ct). plain_host ip) \<and> distinct (ct_destIPs ct) \<and>
     nodes_inv ct \<and> status_inv ct \<and> trace_inv ct"

definition task_inv :: "task_mgr \<Rightarrow> bool" where
  "task_inv ct \<longleftrightarrow> base_inv ct \<and> wait_inv ct"

definition fixed :: "task_mgr \<Rightarrow> config \<times> string \<times> string list \<times> string list" where
  "fixed ct = (ct_cfg ct, ct_id ct, ct_destIPs ct, ct_dispatchFiles ct)"

definition task_grows :: "task_mgr \<Rightarrow> task_mgr \<Rightarrow> bool" where
  "task_grows a b \<longleftrightarrow> fixed b = fixed a \<and> prefix (ct_out a) (ct_out b)"

section \<open>Addresses\<close>

lemma host_of_plain: "plain_host ip \<Longrightarrow> host_of ip = ip"
  by (simp add: plain_host_def host_of_def)

lemma host_of_port: "plain_host ip \<Longrightarrow> host_of (host_port ip p) = ip"
proof -
  assume p: "plain_host ip"
  then have "takeWhile (\<lambda>c. c \<noteq> CHR '':'') (ip @ CHR '':'' # show_int p) = ip"
    by (subst takeWhile_append2) (auto simp: plain_host_def)
  then show ?thesis using p by (simp add: host_of_def host_port_def plain_host_def)
qed

lemma map_host_plain: "\<forall>ip \<in> set ips. plain_host ip \<Longrightarrow> map host_of ips = ips"
  by (induction ips) (simp_all add: host_of_plain)

lemma map_host_port: "\<forall>ip \<in> set ips. plain_host ip \<Longrightarrow> map (\<lambda>ip. host_of (host_port ip p)) ips = ips"
  by (induction ips) (simp_all add: host_of_port)

lemma chainNodes_subseq: "subseq (chainNodes ips ti) ips"
  by (simp add: chainNodes_def subseq_filter_left)

section \<open>The parts of a step\<close>

named_theorems task_simps

lemma emit_simps [simp]:
  "ct_cfg (emit as ct) = ct_cfg ct" "ct_id (emit as ct) = ct_id ct" "ct_destIPs (emit as ct) = ct_destIPs ct"
  "ct_dispatchFiles (emit as ct) = ct_dispatchFiles ct" "ct_ti (emit as ct) = ct_ti ct"
  "ct_phase (emit as ct) = ct_phase ct" "ct_sent (emit as ct) = ct_sent ct"
  "ct_succCount (emit as ct) = ct_succCount ct" "ct_failCount (emit as ct) = ct_failCount ct"
  "ct_allCount (emit as ct) = ct_allCount ct" "ct_out (emit as ct) = ct_out ct @ as"
  by (simp_all add: emit_def)

lemma set_info_simps [simp]:
  "ct_cfg (set_info ip di ct) = ct_cfg ct" "ct_id (set_info ip di ct) = ct_id ct"
  "ct_destIPs (set_info ip di ct) = ct_destIPs ct" "ct_dispatchFiles (set_info ip di ct) = ct_dispatchFiles ct"
  "ct_phase (set_info ip di ct) = ct_phase ct" "ct_sent (set_info ip di ct) = ct_sent ct"
  "ct_succCount (set_info ip di ct) = ct_succCount ct" "ct_failCount (set_info ip di ct) = ct_failCount ct"
  "ct_allCount (set_info ip di ct) = ct_allCount ct" "ct_out (set_info ip di ct) = ct_out ct"
  "ti_Status (ct_ti (set_info ip di ct)) = ti_Status (ct_ti ct)"
  "infos (set_info ip di ct) = AList.update ip di (infos ct)"
  by (simp_all add: set_info_def infos_def)

lemma start_ok_fixed: "fixed b = fixed a \<Longrightarrow> start_ok b st = start_ok a st"
  by (simp add: fixed_def start_ok_def)

lemma trace_inv_append:
  assumes "trace_inv a" "ct_out b = ct_out a @ as" "fixed b = fixed a"
    and "\<forall>pre st post. as = pre @ Session_Start st # post \<longrightarrow>
      start_ok a st \<and> (\<exists>dt. Session_Create dt \<in> set (ct_out a @ pre))"
  shows "trace_inv b"
  unfolding trace_inv_def
proof (intro allI impI)
  fix pre st post assume "ct_out b = pre @ Session_Start st # post"
  then have "ct_out a @ as = pre @ Session_Start st # post" using assms(2) by simp
  then consider (old) post' where "ct_out a = pre @ Session_Start st # post'"
    | (new) pre' where "as = pre' @ Session_Start st # post" "pre = ct_out a @ pre'"
    by (auto simp: append_eq_append_conv2 Cons_eq_append_conv append_eq_Cons_conv)
  then show "start_ok b st \<and> (\<exists>dt. Session_Create dt \<in> set pre)"
  proof cases
    case old
    then show ?thesis using assms(1) start_ok_fixed [OF assms(3)] unfolding trace_inv_def by blast
  next
    case new
    then show ?thesis using assms(4) start_ok_fixed [OF assms(3)] by blast
  qed
qed

text \<open>The usual case: nothing about a start is added to the trace.\<close>

lemma trace_inv_quiet:
  assumes "trace_inv a" "ct_out b = ct_out a @ as" "fixed b = fixed a" "\<forall>st. Session_Start st \<notin> set as"
  shows "trace_inv b"
  by (rule trace_inv_append [OF assms(1-3)]) (use assms(4) in auto)

lemma base_inv_quiet:
  assumes "base_inv a" "ct_out b = ct_out a @ as" "fixed b = fixed a" "\<forall>st. Session_Start st \<notin> set as"
    and "nodes_inv b" "status_inv b"
  shows "base_inv b"
  using assms trace_inv_quiet [OF _ assms(2-4)] by (simp add: base_inv_def fixed_def)

section \<open>Each part keeps the invariant\<close>

lemma status_ok [simp]:
  "status_String a = status_String b \<longleftrightarrow> a = b"
  by (cases a; cases b) simp_all

declare status_String.simps [simp del]

lemma not_waiting_inv: "base_inv ct \<Longrightarrow> \<not> waiting ct \<Longrightarrow> task_inv ct"
  by (simp add: task_inv_def wait_inv_def)

lemma endTask_inv:
  assumes "base_inv ct" "ts \<in> {TaskFailed, TaskCompleted, TaskFileNotExist}"
    and "ts = TaskCompleted \<Longrightarrow> \<forall>(ip, di) \<in> set (infos ct). done_ok (di_Status di)"
  shows "base_inv (endTask w ts ct)" "task_grows ct (endTask w ts ct)" "ct_phase (endTask w ts ct) = ct_phase ct"
    "infos (endTask w ts ct) = infos ct" "ti_Status (ct_ti (endTask w ts ct)) = status_String ts"
    "ct_destIPs (endTask w ts ct) = ct_destIPs ct"
proof -
  show v: "infos (endTask w ts ct) = infos ct" "ti_Status (ct_ti (endTask w ts ct)) = status_String ts"
    "ct_phase (endTask w ts ct) = ct_phase ct" "ct_destIPs (endTask w ts ct) = ct_destIPs ct"
    by (simp_all add: endTask_def infos_def)
  have o: "ct_out (endTask w ts ct) = ct_out ct @ [Cache_Replace (Some (seconds_of (5 * 60))), Session_Stop (ct_id ct)]"
    and f: "fixed (endTask w ts ct) = fixed ct"
    by (simp_all add: endTask_def fixed_def)
  show "task_grows ct (endTask w ts ct)" using o f by (simp add: task_grows_def)
  have "nodes_inv (endTask w ts ct)" using assms(1) v by (simp add: base_inv_def nodes_inv_def)
  moreover have "status_inv (endTask w ts ct)"
    unfolding status_inv_def v using assms(2,3) by auto
  ultimately show "base_inv (endTask w ts ct)" by (intro base_inv_quiet [OF assms(1) o f]) simp_all
qed

lemma stopAllClientTask_inv:
  assumes "base_inv ct"
  shows "base_inv (stopAllClientTask ct)" "task_grows ct (stopAllClientTask ct)"
    "ct_phase (stopAllClientTask ct) = ct_phase ct"
proof -
  show "ct_phase (stopAllClientTask ct) = ct_phase ct" by (simp add: stopAllClientTask_def)
  have o: "ct_out (stopAllClientTask ct) = ct_out ct @ Session_Stop (ct_id ct) #
      map (\<lambda>ip. Http_Delete ip (''/api/v1/agent/tasks/'' @ ct_id ct)) (ct_destIPs ct)"
    and f: "fixed (stopAllClientTask ct) = fixed ct"
    and i: "nodes_inv (stopAllClientTask ct) = nodes_inv ct" "status_inv (stopAllClientTask ct) = status_inv ct"
    by (simp_all add: stopAllClientTask_def fixed_def nodes_inv_def status_inv_def infos_def)
  show "task_grows ct (stopAllClientTask ct)" using o f by (simp add: task_grows_def)
  show "base_inv (stopAllClientTask ct)"
    using i assms by (intro base_inv_quiet [OF assms o f]) (auto simp: base_inv_def)
qed

lemma created_inv:
  assumes "base_inv ct" "ts \<in> {TaskInProgress, TaskFailed, TaskFileNotExist}"
  shows "task_inv (created w ts ct) \<and> task_grows ct (created w ts ct) \<and> ct_phase (created w ts ct) = Serving"
proof -
  let ?c = "ct\<lparr>ct_phase := Serving\<rparr>"
  have b: "base_inv ?c"
    using assms(1) by (simp add: base_inv_def nodes_inv_def status_inv_def infos_def trace_inv_def start_ok_def)
  have g: "task_grows ct ?c" by (simp add: task_grows_def fixed_def)
  show ?thesis
  proof (cases "ts = TaskInProgress")
    case True
    then show ?thesis using b g by (simp add: created_def not_waiting_inv waiting_def)
  next
    case False
    note e = endTask_inv [OF b, of ts w]
    have "base_inv (endTask w ts ?c)" "task_grows ?c (endTask w ts ?c)" "ct_phase (endTask w ts ?c) = Serving"
      using False assms(2) e(1-3) by auto
    then show ?thesis using False g
      by (auto simp: created_def waiting_def task_grows_def intro!: not_waiting_inv)
  qed
qed

lemma sendReq_simps:
  "ct_sent (sendReqToClients ips url body ct) = ct_sent ct @ map host_of ips"
  "ct_out (sendReqToClients ips url body ct) = ct_out ct @ map (\<lambda>ip. Http_Post (host_of ip) url body) ips"
  "fixed (sendReqToClients ips url body ct) = fixed ct" "ct_ti (sendReqToClients ips url body ct) = ct_ti ct"
  "ct_phase (sendReqToClients ips url body ct) = ct_phase ct"
  "ct_succCount (sendReqToClients ips url body ct) = ct_succCount ct"
  "ct_failCount (sendReqToClients ips url body ct) = ct_failCount ct"
  "ct_allCount (sendReqToClients ips url body ct) = ct_allCount ct"
  "ct_destIPs (sendReqToClients ips url body ct) = ct_destIPs ct"
  "ct_cfg (sendReqToClients ips url body ct) = ct_cfg ct" "ct_id (sendReqToClients ips url body ct) = ct_id ct"
  "ct_dispatchFiles (sendReqToClients ips url body ct) = ct_dispatchFiles ct"
  by (simp_all add: sendReqToClients_def fixed_def)

lemma createTask_inv:
  assumes "createTask w ct = Some ct'" "base_inv ct"
  shows "task_inv ct' \<and> task_grows ct ct'"
proof (cases "CreateFileMeta (tw_order w) (tw_meta w) (tw_disk w) (ct_dispatchFiles ct) FixedBlockLen")
  case (Ret r)
  show ?thesis
  proof (cases r)
    case (Inl err)
    then have "ct' = created w TaskFileNotExist ct" using assms(1) Ret by (simp add: createTask_def)
    then show ?thesis using created_inv [OF assms(2), of TaskFileNotExist w] by simp
  next
    case (Inr mi)
    define dt where "dt = dispatchTaskOf ct mi"
    define c1 where "c1 = emit [Session_Create dt] (ct\<lparr>ct_allCount := int (length (ct_destIPs ct)),
      ct_succCount := 0, ct_failCount := 0,
      ct_ti := (ct_ti ct)\<lparr>ti_Status := status_String TaskInProgress\<rparr>, ct_phase := In_Create\<rparr>)"
    have c': "ct' = sendReqToClients (ct_destIPs ct) ''/api/v1/agent/tasks'' (Create_Body dt) c1"
      using assms(1) Ret Inr by (simp add: createTask_def Let_def c1_def dt_def split: if_splits)
    have hosts: "\<forall>ip \<in> set (ct_destIPs ct). plain_host ip" using assms(2) by (simp add: base_inv_def)
    have o: "ct_out ct' = ct_out ct @ Session_Create dt #
        map (\<lambda>ip. Http_Post (host_of ip) ''/api/v1/agent/tasks'' (Create_Body dt)) (ct_destIPs ct)"
      and f: "fixed ct' = fixed ct" and d: "ct_destIPs ct' = ct_destIPs ct"
      and i: "infos ct' = infos ct" "ti_Status (ct_ti ct') = status_String TaskInProgress"
      and n: "ct_allCount ct' = int (length (ct_destIPs ct))" "ct_succCount ct' = 0" "ct_failCount ct' = 0"
      and s: "ct_sent ct' = ct_sent ct @ ct_destIPs ct"
      using map_host_plain [OF hosts] by (simp_all add: c' sendReq_simps c1_def infos_def fixed_def)
    have ni: "nodes_inv ct'" using assms(2) i d by (simp add: base_inv_def nodes_inv_def)
    have si: "status_inv ct'" using i by (simp add: status_inv_def)
    have "base_inv ct'" by (rule base_inv_quiet [OF assms(2) o f _ ni si]) auto
    moreover have "wait_inv ct'"
      unfolding wait_inv_def i n s d o by auto
    ultimately show ?thesis using o f by (simp add: task_inv_def task_grows_def)
  qed
qed (use assms(1) in \<open>simp_all add: createTask_def\<close>)

lemma startTask_inv:
  assumes "base_inv ct" "\<exists>dt. Session_Create dt \<in> set (ct_out ct)"
    and "ti_Status (ct_ti ct) = status_String TaskInProgress"
  shows "task_inv (startTask w ct) \<and> task_grows ct (startTask w ct)"
proof -
  let ?ips = "chainNodes (ct_destIPs ct) (ct_ti ct)"
  define lc where "lc = createLinkChain (ct_cfg ct) (ct_destIPs ct) (ct_ti ct)"
  define st where "st = \<lparr>st_TaskID = ct_id ct, st_LinkChain = Some lc\<rparr>"
  define url :: string where "url = ''/api/v1/agent/tasks/start''"
  have lc: "lc_DispatchAddrs lc = host_port (Host (c_Net (ct_cfg ct))) (DataPort (c_Net (ct_cfg ct))) #
      map (\<lambda>ip. host_port ip (AgentDataPort (c_Net (ct_cfg ct)))) ?ips"
    by (simp add: lc_def createLinkChain_def)
  have hosts: "\<forall>ip \<in> set ?ips. plain_host ip"
    using assms(1) by (auto simp: base_inv_def chainNodes_def)
  define ct' where "ct' = startTask w ct"
  have c': "ct' = sendReqToClients (tl (lc_DispatchAddrs lc)) url (Start_Body st)
      (emit [Session_Start st] (ct\<lparr>ct_allCount := int (length (lc_DispatchAddrs lc)) - 1, ct_succCount := 0,
         ct_failCount := 0, ct_phase := In_Start\<rparr>))"
    by (simp add: ct'_def startTask_def Let_def lc_def st_def url_def)
  have o: "ct_out ct' = ct_out ct @ Session_Start st #
      map (\<lambda>a. Http_Post (host_of a) url (Start_Body st)) (tl (lc_DispatchAddrs lc))"
    and f: "fixed ct' = fixed ct" and d: "ct_destIPs ct' = ct_destIPs ct"
    and i: "infos ct' = infos ct" "ti_Status (ct_ti ct') = ti_Status (ct_ti ct)"
    and n: "ct_allCount ct' = int (length ?ips)" "ct_succCount ct' = 0" "ct_failCount ct' = 0"
    and s: "ct_sent ct' = ct_sent ct @ ?ips"
    using map_host_port [OF hosts] by (simp_all add: c' sendReq_simps infos_def fixed_def lc comp_def)
  have ok: "start_ok ct st"
    using lc chainNodes_subseq by (auto simp: start_ok_def st_def)
  have "trace_inv ct'"
    using assms(1,2) ok by (intro trace_inv_append [OF _ o f]) (auto simp: base_inv_def Cons_eq_append_conv map_eq_append_conv)
  then have "base_inv ct'"
    using assms(1) d i by (simp add: base_inv_def nodes_inv_def status_inv_def)
  moreover have "set ?ips \<subseteq> set (ct_destIPs ct)" by (auto simp: chainNodes_def)
  then have "filter (\<lambda>ip. ip \<in> set (ct_destIPs ct)) ?ips = ?ips" by (simp add: filter_id_conv subset_iff)
  then have "wait_inv ct'"
    unfolding wait_inv_def i n s d o using assms(2,3) by auto
  ultimately show ?thesis using o f by (simp add: task_inv_def task_grows_def ct'_def [symmetric])
qed

lemma set_update_subset: "set (AList.update k v xs) \<subseteq> insert (k, v) (set xs)"
  by (induction xs) (auto split: if_splits)

lemma set_info_nodes:
  assumes "nodes_inv ct" "ip \<in> set (ct_destIPs ct)" "node_ok (di_Status di)"
  shows "nodes_inv (set_info ip di ct)"
proof -
  have "distinct (map fst (infos ct))" "set (map fst (infos ct)) = set (ct_destIPs ct)"
    using assms(1) by (simp_all add: nodes_inv_def)
  moreover note set_update_subset [of ip di "infos ct"]
  ultimately show ?thesis using assms
    by (auto simp: nodes_inv_def update_keys simp del: set_map)
qed


lemma nodes_counts [simp]:
  "nodes_inv (ct\<lparr>ct_succCount := n\<rparr>) = nodes_inv ct" "nodes_inv (ct\<lparr>ct_failCount := n\<rparr>) = nodes_inv ct"
  by (simp_all add: nodes_inv_def infos_def)

lemma known_node: "nodes_inv ct \<Longrightarrow> map_of (infos ct) ip = None \<longleftrightarrow> ip \<notin> set (ct_destIPs ct)"
  by (simp add: nodes_inv_def map_of_eq_None_iff)

text \<open>An answer is counted when its node belongs to the task.\<close>

lemma checkAgentRsp_inv:
  fixes w ip ok
  assumes "base_inv ct" "ti_Status (ct_ti ct) = status_String TaskInProgress"
  defines "c \<equiv> checkAgentRsp w ip ok ct"
  shows "base_inv c" "fixed c = fixed ct" "ct_out c = ct_out ct" "ct_phase c = ct_phase ct"
    "ct_allCount c = ct_allCount ct" "ct_sent c = ct_sent ct" "ti_Status (ct_ti c) = ti_Status (ct_ti ct)"
    "ct_succCount c = ct_succCount ct + (if ip \<in> set (ct_destIPs ct) \<and> ok then 1 else 0)"
    "ct_failCount c = ct_failCount ct + (if ip \<in> set (ct_destIPs ct) \<and> \<not> ok then 1 else 0)"
    "ct_destIPs c = ct_destIPs ct"
proof -
  have ni: "nodes_inv ct" using assms(1) by (simp add: base_inv_def)
  have known: "ip \<in> set (ct_destIPs ct) \<longleftrightarrow> (\<exists>di. map_of (infos ct) ip = Some di)"
    using known_node [OF ni, of ip] by auto
  show o: "ct_out c = ct_out ct" and f: "fixed c = fixed ct"
    and s: "ti_Status (ct_ti c) = ti_Status (ct_ti ct)" and d: "ct_destIPs c = ct_destIPs ct"
    and "ct_phase c = ct_phase ct"
    "ct_allCount c = ct_allCount ct" "ct_sent c = ct_sent ct"
    by (simp_all add: c_def checkAgentRsp_def fixed_def Let_def split: option.split)
  show "ct_succCount c = ct_succCount ct + (if ip \<in> set (ct_destIPs ct) \<and> ok then 1 else 0)"
    "ct_failCount c = ct_failCount ct + (if ip \<in> set (ct_destIPs ct) \<and> \<not> ok then 1 else 0)"
    using known by (auto simp: c_def checkAgentRsp_def infos_def Let_def split: option.split)
  have nc: "nodes_inv c"
  proof (cases "map_of (ti_DispatchInfos (ct_ti ct)) ip")
    case None
    then show ?thesis using ni by (simp add: c_def checkAgentRsp_def)
  next
    case (Some di)
    then have "ip \<in> set (ct_destIPs ct)" using known by (simp add: infos_def)
    note set_info_nodes [OF ni this]
    then show ?thesis using Some
      by (auto simp: c_def checkAgentRsp_def Let_def node_ok_def)
  qed
  have "status_inv c" using assms(1,2) s by (simp add: status_inv_def)
  then show "base_inv c" using nc o f by (intro base_inv_quiet [OF assms(1), of c "[]"]) simp_all
qed

lemma agentRsp_inv:
  fixes w ip ok
  assumes "task_inv ct" "waiting ct" "ip \<in> set (ct_sent ct)"
  defines "ct1 \<equiv> ct\<lparr>ct_sent := remove1 ip (ct_sent ct)\<rparr>"
  shows "task_inv (agentRsp w ip ok ct1) \<and> task_grows ct (agentRsp w ip ok ct1)"
proof -
  define c where "c = checkAgentRsp w ip ok ct1"
  have w: "wait_inv ct" and b: "base_inv ct" using assms(1) by (simp_all add: task_inv_def)
  have b1: "base_inv ct1" and f1: "fixed ct1 = fixed ct" and o1: "ct_out ct1 = ct_out ct"
    using b by (simp_all add: ct1_def base_inv_def nodes_inv_def status_inv_def infos_def trace_inv_def
        start_ok_def fixed_def)
  have st: "ti_Status (ct_ti ct1) = status_String TaskInProgress"
    using w assms(2) by (simp add: wait_inv_def ct1_def)
  note c = checkAgentRsp_inv [OF b1 st, of w ip ok, folded c_def]
  have cr: "\<exists>dt. Session_Create dt \<in> set (ct_out c)" using w assms(2) c(3) o1 by (simp add: wait_inv_def)
  have g: "task_grows ct c" using c(2,3) f1 o1 by (simp add: task_grows_def)
  have tr: "task_grows ct y" if "task_grows c y" for y using that g by (auto simp: task_grows_def)
  have r: "agentRsp w ip ok ct1 =
     (if ct_failCount c = ct_allCount c then created w TaskFailed c
      else if ct_succCount c + ct_failCount c = ct_allCount c
        then (if ct_phase c = In_Create then startTask w c else created w TaskInProgress c) else c)"
    by (simp add: agentRsp_def c_def)
  consider "ct_failCount c = ct_allCount c"
    | "ct_failCount c \<noteq> ct_allCount c" "ct_succCount c + ct_failCount c = ct_allCount c"
    | "ct_failCount c \<noteq> ct_allCount c" "ct_succCount c + ct_failCount c \<noteq> ct_allCount c" by blast
  then show ?thesis
  proof cases
    case 1
    then show ?thesis using r created_inv [OF c(1), of TaskFailed w] tr by simp
  next
    case 2
    then show ?thesis
      using r created_inv [OF c(1), of TaskInProgress w] startTask_inv [OF c(1) cr] c(7) st tr by simp
  next
    case 3
    have len: "int (length (filter (\<lambda>ip. ip \<in> set (ct_destIPs ct)) (ct_sent ct))) =
      int (length (filter (\<lambda>ip. ip \<in> set (ct_destIPs ct)) (remove1 ip (ct_sent ct)))) +
      (if ip \<in> set (ct_destIPs ct) then 1 else 0)"
      using assms(3) length_pos_if_in_set [of ip "filter (\<lambda>ip. ip \<in> set (ct_destIPs ct)) (ct_sent ct)"]
      by (auto simp: filter_remove1 length_remove1 of_nat_diff Suc_le_eq)
    define K where "K = int (length (filter (\<lambda>ip. ip \<in> set (ct_destIPs ct)) (ct_sent ct)))"
    have W: "0 \<le> ct_succCount ct" "0 \<le> ct_failCount ct"
      "ct_succCount ct + ct_failCount ct < ct_allCount ct \<or> ct_allCount ct = 0"
      "ct_allCount ct \<le> ct_succCount ct + ct_failCount ct + K"
      using w assms(2) unfolding wait_inv_def K_def by blast+
    have n: "ct_succCount c = ct_succCount ct + (if ip \<in> set (ct_destIPs ct) \<and> ok then 1 else 0)"
      "ct_failCount c = ct_failCount ct + (if ip \<in> set (ct_destIPs ct) \<and> \<not> ok then 1 else 0)"
      "ct_allCount c = ct_allCount ct" "ct_destIPs c = ct_destIPs ct"
      "K = int (length (filter (\<lambda>ip. ip \<in> set (ct_destIPs c)) (ct_sent c))) + (if ip \<in> set (ct_destIPs ct) then 1 else 0)"
      using c(5,6,8-10) len by (simp_all add: ct1_def K_def)
    have "0 \<le> ct_succCount c" "0 \<le> ct_failCount c" using W(1,2) n(1,2) by auto
    moreover have "ct_succCount c + ct_failCount c < ct_allCount c \<or> ct_allCount c = 0"
      using W(3) n(1-3) 3(2) by (auto split: if_splits)
    moreover have "ct_allCount c \<le> ct_succCount c + ct_failCount c +
        int (length (filter (\<lambda>ip. ip \<in> set (ct_destIPs c)) (ct_sent c)))"
      using W(4) n by (auto split: if_splits)
    ultimately have "wait_inv c" using c(7) st cr by (simp add: wait_inv_def)
    then show ?thesis using r 3 c(1) g by (simp add: task_inv_def)
  qed
qed


lemma reportStatus_inv:
  fixes w csr ct
  assumes "base_inv ct"
  defines "c \<equiv> reportStatus w csr ct"
  shows "base_inv c" "fixed c = fixed ct" "ct_out c = ct_out ct" "ct_phase c = ct_phase ct"
proof -
  have ni: "nodes_inv ct" using assms(1) by (simp add: base_inv_def)
  show o: "ct_out c = ct_out ct" and f: "fixed c = fixed ct" and "ct_phase c = ct_phase ct"
    by (simp_all add: c_def reportStatus_def fixed_def Let_def split: option.split)
  have "base_inv c"
  proof (cases "map_of (ti_DispatchInfos (ct_ti ct)) (sr_IP csr)")
    case None
    then show ?thesis using assms(1) by (simp add: c_def reportStatus_def)
  next
    case (Some di)
    define di' where "di' = (if rat_trunc (sr_PercentComplete csr) = 100
        then di\<lparr>di_Status := status_String TaskCompleted, di_FinishedAt := Some (tw_now w)\<rparr>
        else if rat_trunc (sr_PercentComplete csr) = -1
        then di\<lparr>di_Status := status_String TaskFailed, di_FinishedAt := Some (tw_now w)\<rparr>
        else di)\<lparr>di_PercentComplete := sr_PercentComplete csr\<rparr>"
    have c: "c = set_info (sr_IP csr) di' ct" by (simp add: c_def reportStatus_def Some di'_def Let_def)
    have mem: "(sr_IP csr, di) \<in> set (infos ct)" using Some by (simp add: infos_def map_of_SomeD)
    have ip: "sr_IP csr \<in> set (ct_destIPs ct)" using known_node [OF ni, of "sr_IP csr"] Some by (auto simp: infos_def)
    have s: "di_Status di' \<in> status_String ` {TaskCompleted, TaskFailed} \<or> di_Status di' = di_Status di"
      by (simp add: di'_def)
    have "node_ok (di_Status di)" using ni mem by (auto simp: nodes_inv_def)
    then have "node_ok (di_Status di')" using s by (auto simp: node_ok_def)
    then have nc: "nodes_inv c" unfolding c by (rule set_info_nodes [OF ni ip])
    have "done_ok (di_Status di')" if "done_ok (di_Status di)" using s that by (auto simp: done_ok_def)
    then have "status_inv c"
      using assms(1) mem set_update_subset [of "sr_IP csr" di' "infos ct"]
      by (fastforce simp: base_inv_def status_inv_def c)
    then show ?thesis using nc o f by (intro base_inv_quiet [OF assms(1), of c "[]"]) simp_all
  qed
  then show "base_inv c" .
qed

lemma checkFinished_eq:
  "snd (checkFinished ti) = (\<forall>(ip, di) \<in> set (ti_DispatchInfos ti). done_ok (di_Status di))"
  "snd (checkFinished ti) \<Longrightarrow> fst (checkFinished ti) = TaskCompleted"
proof -
  let ?C = "\<lambda>v. di_Status v = status_String TaskCompleted" and ?F = "\<lambda>v. di_Status v = status_String TaskFailed"
  let ?vs = "map snd (ti_DispatchInfos ti)"
  have sum: "length (filter ?C vs) + length (filter ?F vs) = length (filter (\<lambda>v. done_ok (di_Status v)) vs)" for vs
    by (induction vs) (auto simp: done_ok_def)
  have all: "length (filter P vs) = length vs \<longleftrightarrow> (\<forall>v \<in> set vs. P v)" for P and vs :: "dispatch_info list"
    using length_filter_less [of _ vs P] by (metis filter_True less_irrefl)
  have one: "(\<forall>v \<in> set ?vs. done_ok (di_Status v))" if "length (filter ?C ?vs) = length ?vs"
    using that unfolding all by (auto simp: done_ok_def)
  have "snd (checkFinished ti) \<longleftrightarrow> (\<forall>v \<in> set ?vs. done_ok (di_Status v))"
    using one unfolding checkFinished_def Let_def sum all by auto
  then show "snd (checkFinished ti) = (\<forall>(ip, di) \<in> set (ti_DispatchInfos ti). done_ok (di_Status di))" by auto
  show "snd (checkFinished ti) \<Longrightarrow> fst (checkFinished ti) = TaskCompleted"
    by (auto simp: checkFinished_def Let_def split: if_splits)
qed

lemma reportTask_inv:
  assumes "task_inv ct" "ct_phase ct = Serving"
  shows "task_inv (reportTask w csr ct) \<and> task_grows ct (reportTask w csr ct)"
proof -
  define c where "c = reportStatus w csr ct"
  note r = reportStatus_inv [of ct w csr, folded c_def]
  have b: "base_inv c" and g: "task_grows ct c" and ph: "ct_phase c = Serving"
    using r assms by (auto simp: task_inv_def task_grows_def)
  show ?thesis
  proof (cases "snd (checkFinished (ct_ti c))")
    case False
    then have "reportTask w csr ct = c"
      by (cases "checkFinished (ct_ti c)") (simp add: reportTask_def c_def)
    then show ?thesis using b g ph by (auto simp: waiting_def intro: not_waiting_inv)
  next
    case True
    then have eq: "reportTask w csr ct = stopAllClientTask (endTask w TaskCompleted c)"
      using checkFinished_eq(2) [OF True]
      by (cases "checkFinished (ct_ti c)") (simp add: reportTask_def c_def)
    have d: "\<forall>(ip, di) \<in> set (infos c). done_ok (di_Status di)"
      using True by (simp add: checkFinished_eq(1) infos_def)
    have e: "base_inv (endTask w TaskCompleted c)" "task_grows c (endTask w TaskCompleted c)"
      "ct_phase (endTask w TaskCompleted c) = Serving"
      using endTask_inv [OF b, of TaskCompleted w] d ph by simp_all
    note s = stopAllClientTask_inv [OF e(1)]
    show ?thesis
      using eq s e g by (auto simp: task_grows_def waiting_def intro!: not_waiting_inv)
  qed
qed

lemma cmpTask_inv:
  assumes "task_inv ct" "ct_phase ct = Serving" "cmpTask w t shut ct = Some ct'"
  shows "task_inv ct' \<and> task_grows ct ct'"
proof -
  have quiet: "base_inv (emit as c) \<and> task_grows c (emit as c)"
    if "base_inv c" "\<forall>st. Session_Start st \<notin> set as" for as c
    using that by (auto simp: task_grows_def fixed_def base_inv_def nodes_inv_def status_inv_def infos_def
        intro!: trace_inv_quiet [of c "emit as c" as])
  have tr: "task_grows a b \<Longrightarrow> task_grows b c \<Longrightarrow> task_grows a c" for a b c by (auto simp: task_grows_def)
  have b: "base_inv ct" using assms(1) by (simp add: task_inv_def)
  define same where "same = (equalSlice (cr_DestIPs t) (ct_destIPs ct) \<and> equalSlice (cr_DispatchFiles t) (ct_dispatchFiles ct))"
  define c1 where "c1 = (if same then ct else emit [Reply_Cmp False] ct)"
  define c2 where "c2 = emit [Reply_Cmp True] c1"
  have c1: "base_inv c1" "task_grows ct c1" "ct_phase c1 = Serving"
    using b quiet [OF b, of "[Reply_Cmp False]"] assms(2) by (auto simp: c1_def task_grows_def)
  have c2: "base_inv c2" "task_grows ct c2" "ct_phase c2 = Serving"
    using quiet [OF c1(1), of "[Reply_Cmp True]"] c1 tr by (auto simp: c2_def)
  have r: "(if ti_Status (ct_ti c2) = status_String TaskFailed then createTask w (emit [Cache_Replace None] c2)
      else Some c2) = Some ct'"
    using assms(3) by (simp add: cmpTask_def Let_def same_def [symmetric] c1_def [symmetric] c2_def [symmetric] split: if_splits)
  show ?thesis
  proof (cases "ti_Status (ct_ti c2) = status_String TaskFailed")
    case True
    have q: "base_inv (emit [Cache_Replace None] c2)" "task_grows c2 (emit [Cache_Replace None] c2)"
      using quiet [OF c2(1)] by simp_all
    then show ?thesis using r True createTask_inv [OF _ q(1)] tr c2 by auto
  next
    case False
    then show ?thesis using r c2 by (auto simp: waiting_def intro: not_waiting_inv)
  qed
qed

lemma ct_step_inv:
  assumes "task_inv ct" "ct_event_ok ct e" "ct_step w ct e = Some ct'"
  shows "task_inv ct' \<and> task_grows ct ct'"
proof -
  have b: "base_inv ct" using assms(1) by (simp add: task_inv_def)
  show ?thesis
  proof (cases e)
    case (Agent_Rsp ip ok)
    then show ?thesis using agentRsp_inv [OF assms(1), of ip w ok] assms(2,3) by (auto simp: waiting_def)
  next
    case Rsp_Timeout
    then show ?thesis using created_inv [OF b, of TaskFailed w] assms
      by (auto simp: task_grows_def split: if_splits)
  next
    case Quit_Task
    then have ct': "ct' = ct\<lparr>ct_phase := Ended\<rparr>" using assms(3) by simp
    have "base_inv ct'" using b unfolding ct'
      by (simp add: base_inv_def nodes_inv_def status_inv_def infos_def trace_inv_def start_ok_def)
    then show ?thesis by (auto simp: ct' task_grows_def fixed_def waiting_def intro!: not_waiting_inv)
  next
    case Stop_Task
    note e = endTask_inv [OF b, of TaskFailed w]
    have "base_inv (endTask w TaskFailed ct)" "task_grows ct (endTask w TaskFailed ct)"
      "ct_phase (endTask w TaskFailed ct) = Serving"
      using e assms(2) Stop_Task by simp_all
    with stopAllClientTask_inv [OF this(1)] show ?thesis
      using Stop_Task assms(3) by (auto simp: task_grows_def waiting_def intro!: not_waiting_inv)
  next
    case (Cmp t shut)
    then show ?thesis using cmpTask_inv [OF assms(1)] assms by auto
  next
    case Query_Task
    then have ct': "ct' = emit [Reply_Query (ct_ti ct)] ct" using assms(3) by simp
    have "base_inv ct'"
      by (rule base_inv_quiet [OF b, of ct' "[Reply_Query (ct_ti ct)]"])
        (use b in \<open>simp_all add: ct' fixed_def base_inv_def nodes_inv_def status_inv_def infos_def\<close>)
    then show ?thesis using assms(2) Query_Task
      by (auto simp: ct' task_grows_def fixed_def waiting_def intro!: not_waiting_inv)
  next
    case (Report csr)
    then show ?thesis using reportTask_inv [OF assms(1), of w csr] assms by simp
  qed
qed

interpretation task: machine ct_next task_inv task_grows
proof unfold_locales
  fix s t u
  show "task_inv s \<Longrightarrow> ct_next s t \<Longrightarrow> task_inv t \<and> task_grows s t"
    by (elim ct_nextE) (rule ct_step_inv)
  show "task_grows s s" by (simp add: task_grows_def)
  show "task_grows s t \<Longrightarrow> task_grows t u \<Longrightarrow> task_grows s u" by (auto simp: task_grows_def)
qed

end
