(* ===== verification/TaskProps.thy ===== *)
theory TaskProps
  imports TaskInv
begin

text \<open>
  The properties of a task on the server: every run keeps the invariant, the waits for agents
  end, what one answer, one report and one comparison do, and how a stopped task comes back.
\<close>

section \<open>A new task\<close>

lemma fold_update_infos:
  "set (map fst (fold (\<lambda>ip m. AList.update ip v m) ips m)) = set ips \<union> set (map fst m) \<and>
   (distinct (map fst m) \<longrightarrow> distinct (map fst (fold (\<lambda>ip m. AList.update ip v m) ips m))) \<and>
   (\<forall>x \<in> set (fold (\<lambda>ip m. AList.update ip v m) ips m). snd x = v \<or> x \<in> set m)"
proof (induction ips arbitrary: m)
  case (Cons ip ips)
  have "set (map fst (AList.update ip v m)) = insert ip (set (map fst m))"
    by (simp add: dom_update)
  then show ?case
    using Cons.IH [of "AList.update ip v m"] distinct_update [of m ip v] set_update_subset [of ip v m] by fastforce
qed simp

lemma new_task_inv:
  assumes "\<forall>ip \<in> set (cr_DestIPs t). plain_host ip" "distinct (cr_DestIPs t)"
  shows "base_inv (NewCachedTaskInfo cfg now t)"
proof -
  let ?ct = "NewCachedTaskInfo cfg now t"
  have i: "infos ?ct = fold (\<lambda>ip m. AList.update ip (newDispatchInfo now t) m) (cr_DestIPs t) []"
    by (simp add: NewCachedTaskInfo_def infos_def newTaskInfo_def)
  note f = fold_update_infos [of "newDispatchInfo now t" "cr_DestIPs t" "[]"]
  have "nodes_inv ?ct"
    using f unfolding nodes_inv_def i
    by (auto simp: NewCachedTaskInfo_def node_ok_def newDispatchInfo_def)
  then show ?thesis using assms
    by (simp add: base_inv_def status_inv_def trace_inv_def) (simp add: NewCachedTaskInfo_def newTaskInfo_def)
qed

lemma task_run_inv:
  assumes "createTask w (NewCachedTaskInfo cfg now t) = Some ct0" "ct_runs ct0 ct"
    and "\<forall>ip \<in> set (cr_DestIPs t). plain_host ip" "distinct (cr_DestIPs t)"
  shows "task_inv ct" "task_grows ct0 ct" "fixed ct = (cfg, cr_ID t, cr_DestIPs t, cr_DispatchFiles t)"
proof -
  note c = createTask_inv [OF assms(1) new_task_inv [OF assms(3,4)]]
  show i: "task_inv ct" and g: "task_grows ct0 ct" using task.runs_inv [OF assms(2)] c by blast+
  have "fixed (NewCachedTaskInfo cfg now t) = (cfg, cr_ID t, cr_DestIPs t, cr_DispatchFiles t)"
    by (simp add: NewCachedTaskInfo_def fixed_def)
  then show "fixed ct = (cfg, cr_ID t, cr_DestIPs t, cr_DispatchFiles t)"
    using c g by (simp add: task_grows_def)
qed

section \<open>Waiting for answers\<close>

text \<open>A sequence of answers of outstanding requests.\<close>

fun run_answers :: "task_world \<Rightarrow> task_mgr \<Rightarrow> (string \<times> bool) list \<Rightarrow> task_mgr option" where
  "run_answers w ct [] = Some ct"
| "run_answers w ct ((ip, ok) # rs) =
     (if ct_event_ok ct (Agent_Rsp ip ok)
      then Option.bind (ct_step w ct (Agent_Rsp ip ok)) (\<lambda>ct. run_answers w ct rs) else None)"

definition wait_measure :: "task_mgr \<Rightarrow> nat" where
  "wait_measure ct = (case ct_phase ct of
     In_Create \<Rightarrow> length (ct_sent ct) + length (ct_destIPs ct)
   | In_Start \<Rightarrow> length (ct_sent ct)
   | _ \<Rightarrow> 0)"

lemma created_phase: "ct_phase (created w ts ct) = Serving"
  by (simp add: created_def endTask_def Let_def)

lemma checkAgentRsp_frame:
  "ct_phase (checkAgentRsp w ip ok ct) = ct_phase ct" "ct_sent (checkAgentRsp w ip ok ct) = ct_sent ct"
  "ct_destIPs (checkAgentRsp w ip ok ct) = ct_destIPs ct" "ct_allCount (checkAgentRsp w ip ok ct) = ct_allCount ct"
  "ct_cfg (checkAgentRsp w ip ok ct) = ct_cfg ct" "ct_id (checkAgentRsp w ip ok ct) = ct_id ct"
  "ct_out (checkAgentRsp w ip ok ct) = ct_out ct"
  "ti_Status (ct_ti (checkAgentRsp w ip ok ct)) = ti_Status (ct_ti ct)"
  by (simp_all add: checkAgentRsp_def Let_def split: option.split)

lemma length_chainNodes: "length (chainNodes ips ti) \<le> length ips"
  by (simp add: chainNodes_def)

lemma startTask_frame:
  "ct_phase (startTask w ct) = In_Start"
  "ct_sent (startTask w ct) = ct_sent ct @
    map (\<lambda>ip. host_of (host_port ip (AgentDataPort (c_Net (ct_cfg ct))))) (chainNodes (ct_destIPs ct) (ct_ti ct))"
  by (simp_all add: startTask_def Let_def sendReq_simps createLinkChain_def comp_def)

lemma answer_decreases:
  assumes "ct_event_ok ct (Agent_Rsp ip ok)" "ct_step w ct (Agent_Rsp ip ok) = Some ct'"
  shows "wait_measure ct' < wait_measure ct"
proof -
  define c where "c = checkAgentRsp w ip ok (ct\<lparr>ct_sent := remove1 ip (ct_sent ct)\<rparr>)"
  have sent: "Suc (length (ct_sent c)) = length (ct_sent ct)"
    using assms(1) length_pos_if_in_set [of ip "ct_sent ct"]
    by (simp add: c_def checkAgentRsp_frame length_remove1 Suc_pred' split: if_splits)
  have f: "ct_phase c = ct_phase ct" "ct_destIPs c = ct_destIPs ct" by (simp_all add: c_def checkAgentRsp_frame)
  have ph: "ct_phase ct = In_Create \<or> ct_phase ct = In_Start" using assms(1) by simp
  have "ct' = created w TaskFailed c \<or> ct' = created w TaskInProgress c \<or>
      (ct_phase ct = In_Create \<and> ct' = startTask w c) \<or> ct' = c"
    using assms(2) f(1) by (auto simp: agentRsp_def c_def [symmetric] Let_def split: if_splits)
  moreover have "wait_measure (created w ts c) < wait_measure ct" for ts
    using sent ph by (auto simp: wait_measure_def created_phase)
  moreover have "wait_measure (startTask w c) < wait_measure ct" if "ct_phase ct = In_Create"
    using that sent length_chainNodes [of "ct_destIPs ct" "ct_ti c"] by (simp add: wait_measure_def startTask_frame f)
  moreover have "wait_measure c < wait_measure ct"
    using sent ph f by (auto simp: wait_measure_def)
  ultimately show ?thesis by auto
qed

lemma run_answers_inv:
  "run_answers w ct rs = Some ct' \<Longrightarrow> task_inv ct \<Longrightarrow> task_inv ct' \<and> length rs + wait_measure ct' \<le> wait_measure ct"
proof (induction w ct rs rule: run_answers.induct)
  case (2 w ct ip ok rs)
  then obtain c where c: "ct_event_ok ct (Agent_Rsp ip ok)" "ct_step w ct (Agent_Rsp ip ok) = Some c"
    "run_answers w c rs = Some ct'" by (auto split: if_splits simp del: ct_step.simps ct_event_ok.simps simp: bind_eq_Some_conv)
  have "task_inv c" using ct_step_inv [OF 2(3) c(1,2)] by blast
  then show ?case using 2(1) [OF c(1,2,3)] answer_decreases [OF c(1,2)] by simp
qed simp

section \<open>Properties\<close>

text \<open>C13: However agents answer and report, and whatever stop, query and compare requests arrive, a
  task keeps the nodes it was created for, its status is one of five, it is COMPLETED only when
  every node is completed or failed, and every start command was issued after the task was
  created and names the server first and then some of the targets in their order.\<close>

theorem task_run_correct:
  assumes "createTask w (NewCachedTaskInfo cfg now t) = Some ct0" "ct_runs ct0 ct"
    and "\<forall>ip \<in> set (cr_DestIPs t). plain_host ip" "distinct (cr_DestIPs t)"
  shows "task_inv ct \<and> set (map fst (ti_DispatchInfos (ct_ti ct))) = set (cr_DestIPs t) \<and>
    ti_Status (ct_ti ct) \<in> status_String ` {TaskInit, TaskInProgress, TaskFailed, TaskCompleted, TaskFileNotExist} \<and>
    (ti_Status (ct_ti ct) = ''COMPLETED'' \<longrightarrow>
      (\<forall>(ip, di) \<in> set (ti_DispatchInfos (ct_ti ct)). di_Status di \<in> {''COMPLETED'', ''FAILED''})) \<and>
    (\<forall>pre st post. ct_out ct = pre @ Session_Start st # post \<longrightarrow>
      (\<exists>dt. Session_Create dt \<in> set pre) \<and> st_TaskID st = cr_ID t \<and>
      (\<exists>lc ips. st_LinkChain st = Some lc \<and> subseq ips (cr_DestIPs t) \<and>
        lc_DispatchAddrs lc = host_port (Host (c_Net cfg)) (DataPort (c_Net cfg)) #
          map (\<lambda>ip. host_port ip (AgentDataPort (c_Net cfg))) ips)) \<and>
    prefix (ct_out ct0) (ct_out ct)"
proof -
  note r = task_run_inv [OF assms]
  have f: "ct_cfg ct = cfg" "ct_id ct = cr_ID t" "ct_destIPs ct = cr_DestIPs t" using r(3) by (simp_all add: fixed_def)
  have b: "nodes_inv ct" "status_inv ct" "trace_inv ct" using r(1) by (simp_all add: task_inv_def base_inv_def)
  have s: "status_String TaskCompleted = ''COMPLETED''" "status_String TaskFailed = ''FAILED''"
    by (simp_all add: status_String.simps)
  have "prefix (ct_out ct0) (ct_out ct)" using r(2) by (simp add: task_grows_def)
  moreover have "set (map fst (ti_DispatchInfos (ct_ti ct))) = set (cr_DestIPs t)"
    using b(1) f by (simp add: nodes_inv_def infos_def)
  moreover have "\<forall>(ip, di) \<in> set (ti_DispatchInfos (ct_ti ct)). di_Status di \<in> {''COMPLETED'', ''FAILED''}"
    if "ti_Status (ct_ti ct) = ''COMPLETED''"
  proof -
    have "ti_Status (ct_ti ct) = status_String TaskCompleted" using that by (simp only: s)
    then have "\<forall>(ip, di) \<in> set (ti_DispatchInfos (ct_ti ct)). done_ok (di_Status di)"
      using b(2) unfolding status_inv_def infos_def by blast
    then show ?thesis by (auto simp: done_ok_def s)
  qed
  moreover have "\<forall>pre st post. ct_out ct = pre @ Session_Start st # post \<longrightarrow>
      (\<exists>dt. Session_Create dt \<in> set pre) \<and> st_TaskID st = cr_ID t \<and>
      (\<exists>lc ips. st_LinkChain st = Some lc \<and> subseq ips (cr_DestIPs t) \<and>
        lc_DispatchAddrs lc = host_port (Host (c_Net cfg)) (DataPort (c_Net cfg)) #
          map (\<lambda>ip. host_port ip (AgentDataPort (c_Net cfg))) ips)"
    using b(3) unfolding trace_inv_def start_ok_def f by blast
  moreover have "ti_Status (ct_ti ct) \<in> status_String ` {TaskInit, TaskInProgress, TaskFailed, TaskCompleted, TaskFileNotExist}"
    using b(2) unfolding status_inv_def by (rule conjunct1)
  ultimately show ?thesis using r(1) by (intro conjI impI)
qed

definition ex_create :: create_task where
  "ex_create = \<lparr>cr_ID = ''t'', cr_FileType = 1, cr_Gid = 2, cr_Version = 3, cr_StorageDir = [],
     cr_DispatchFiles = [''/a''], cr_DestIPs = [''n1'', ''n2'']\<rparr>"

definition ex_tw :: task_world where
  "ex_tw = \<lparr>tw_now = 5, tw_disk = [''/a'' \<mapsto> [1, 2, 3]], tw_meta = ex_env, tw_order = \<lambda>xs. xs\<rparr>"

definition ex_server_cfg :: config where
  "ex_server_cfg = zero_config\<lparr>c_Server := True, c_Control := Some (defaultControl None)\<rparr>"

lemma ex_createTask:
  "\<exists>ct. createTask ex_tw (NewCachedTaskInfo ex_server_cfg now ex_create) = Some ct \<and> ct_phase ct = In_Create \<and>
    ct_sent ct = [''n1'', ''n2''] \<and> ct_allCount ct = 2 \<and> ct_succCount ct = 0 \<and> ct_failCount ct = 0"
proof -
  have "all_bytes (tw_disk ex_tw) [''/a''] = [1, 2, 3]" by (simp add: all_bytes_def root_bytes_def ex_tw_def)
  then have "CreateFileMeta (tw_order ex_tw) (tw_meta ex_tw) (tw_disk ex_tw) [''/a''] FixedBlockLen =
    Ret (Inr \<lparr>mi_Length = 3, mi_PieceLen = 2 ^ 28, mi_Pieces = piece_sums [1, 2, 3] (2 ^ 28),
      mi_Files = [root_dict (tw_disk ex_tw) ''/a'']\<rparr>)"
    using CreateFileMeta_ok [of "[''/a'']" "tw_disk ex_tw" "tw_order ex_tw" "2 ^ 28" FixedBlockLen "tw_meta ex_tw"]
    by (simp add: ex_clean ex_tw_def FixedBlockLen_def root_ok_def ex_env_def)
  then show ?thesis
    by (simp add: createTask_def NewCachedTaskInfo_def ex_create_def ex_server_cfg_def Let_def sendReq_simps)
      (simp add: host_of_def)
qed

theorem task_run_correct_witness:
  "\<exists>ct0 ct. createTask ex_tw (NewCachedTaskInfo ex_server_cfg 4 ex_create) = Some ct0 \<and>
    ct_next ct0 ct \<and> ct_phase ct = Serving \<and> set (map fst (ti_DispatchInfos (ct_ti ct))) = {''n1'', ''n2''}"
proof -
  obtain ct0 where c: "createTask ex_tw (NewCachedTaskInfo ex_server_cfg 4 ex_create) = Some ct0"
    and p: "ct_phase ct0 = In_Create" "ct_succCount ct0 = 0" using ex_createTask by blast
  have n: "ct_next ct0 (created ex_tw TaskFailed ct0)"
    by (rule ct_next.event [of ct0 Rsp_Timeout ex_tw]) (simp_all add: p)
  have h: "\<forall>ip \<in> set (cr_DestIPs ex_create). plain_host ip" "distinct (cr_DestIPs ex_create)"
    by (simp_all add: ex_create_def plain_host_def)
  have "ct_runs ct0 (created ex_tw TaskFailed ct0)" by (rule r_into_rtranclp [of ct_next, OF n])
  note task_run_correct [OF c this h, THEN conjunct2, THEN conjunct1]
  then have "set (map fst (ti_DispatchInfos (ct_ti (created ex_tw TaskFailed ct0)))) = {''n1'', ''n2''}"
    unfolding ex_create_def by simp
  then show ?thesis using c n created_phase [of ex_tw TaskFailed ct0]
    by (intro exI [of _ ct0] exI [of _ "created ex_tw TaskFailed ct0"] conjI)
qed

text \<open>C14: While the task waits for agents to create or start it, every answer brings the end of the
  wait nearer: at most as many answers as are outstanding, and one per target more, can be taken,
  and as long as answers are awaited one of a target is outstanding; when nobody has succeeded,
  the time-out ends the wait with a failed task.\<close>

theorem answers_end_wait:
  assumes "task_inv ct" "run_answers w ct rs = Some ct'"
  shows "length rs \<le> length (ct_sent ct) + length (ct_destIPs ct) \<and>
    (ct_phase ct' \<in> {In_Create, In_Start} \<and> 0 < ct_allCount ct' \<longrightarrow>
      (\<exists>ip \<in> set (ct_sent ct'). ip \<in> set (ct_destIPs ct') \<and> ct_event_ok ct' (Agent_Rsp ip True))) \<and>
    (ct_phase ct' \<in> {In_Create, In_Start} \<and> ct_succCount ct' = 0 \<longrightarrow>
      (\<exists>c. ct_step w ct' Rsp_Timeout = Some c \<and> ct_phase c = Serving \<and> ti_Status (ct_ti c) = ''FAILED''))"
proof -
  note r = run_answers_inv [OF assms(2,1)]
  have "wait_measure ct \<le> length (ct_sent ct) + length (ct_destIPs ct)"
    by (simp add: wait_measure_def split: ct_phase.split)
  then have "length rs \<le> length (ct_sent ct) + length (ct_destIPs ct)" using r by simp
  moreover have "\<exists>ip \<in> set (ct_sent ct'). ip \<in> set (ct_destIPs ct') \<and> ct_event_ok ct' (Agent_Rsp ip True)"
    if w: "ct_phase ct' \<in> {In_Create, In_Start}" "0 < ct_allCount ct'"
  proof -
    have "waiting ct'" "wait_inv ct'" using w(1) r by (simp_all add: waiting_def task_inv_def)
    then have "ct_succCount ct' + ct_failCount ct' < ct_allCount ct'"
      "ct_allCount ct' \<le> ct_succCount ct' + ct_failCount ct' +
        int (length (filter (\<lambda>ip. ip \<in> set (ct_destIPs ct')) (ct_sent ct')))"
      using w(2) by (auto simp: wait_inv_def)
    then have "0 < length (filter (\<lambda>ip. ip \<in> set (ct_destIPs ct')) (ct_sent ct'))" by linarith
    then show ?thesis using w(1) by (auto simp: filter_empty_conv)
  qed
  moreover have "ti_Status (ct_ti (created w TaskFailed ct')) = ''FAILED''"
    by (simp add: created_def endTask_def Let_def status_String.simps)
  ultimately show ?thesis by (simp add: created_phase)
qed

theorem answers_end_wait_witness:
  "\<exists>ct0. createTask ex_tw (NewCachedTaskInfo ex_server_cfg 4 ex_create) = Some ct0 \<and>
    (\<exists>ip \<in> set (ct_sent ct0). ip \<in> {''n1'', ''n2''})"
proof -
  obtain ct0 where c: "createTask ex_tw (NewCachedTaskInfo ex_server_cfg 4 ex_create) = Some ct0"
    and p: "ct_phase ct0 = In_Create" "ct_allCount ct0 = 2" using ex_createTask by blast
  have h: "\<forall>ip \<in> set (cr_DestIPs ex_create). plain_host ip" "distinct (cr_DestIPs ex_create)"
    by (simp_all add: ex_create_def plain_host_def)
  note i = task_run_inv [OF c rtranclp.rtrancl_refl h]
  have "ct_destIPs ct0 = [''n1'', ''n2'']" using i(3) by (simp add: fixed_def ex_create_def)
  then show ?thesis
    using answers_end_wait [OF i(1), of ex_tw "[]" ct0] c p by auto
qed

text \<open>C15: An answer of a target is counted once and decides alone: all failed ends the task as
  FAILED; the last answer of the create round sends the start command, with the chain of exactly
  the targets whose status is in progress, to exactly these; the last answer of the start round
  ends the wait with the task still in progress; any other answer leaves the task waiting.\<close>

theorem agent_answer_spec:
  fixes w ok
  assumes "nodes_inv ct" "ip \<in> set (ct_destIPs ct)" "ct_phase ct \<in> {In_Create, In_Start}"
    and "\<forall>ip \<in> set (ct_destIPs ct). plain_host ip"
  defines "c \<equiv> agentRsp w ip ok ct"
  defines "s \<equiv> ct_succCount ct + of_bool ok" and "f \<equiv> ct_failCount ct + of_bool (\<not> ok)"
  shows "(f = ct_allCount ct \<longrightarrow> ct_phase c = Serving \<and> ti_Status (ct_ti c) = ''FAILED'') \<and>
    (f \<noteq> ct_allCount ct \<and> s + f = ct_allCount ct \<and> ct_phase ct = In_Create \<longrightarrow> ct_phase c = In_Start \<and>
      (let up = filter (\<lambda>n. \<exists>di. map_of (ti_DispatchInfos (ct_ti c)) n = Some di \<and> di_Status di = ''INPROGESS'') (ct_destIPs ct)
       in ct_sent c = ct_sent ct @ up \<and> ct_allCount c = int (length up) \<and>
         (\<exists>lc. Session_Start \<lparr>st_TaskID = ct_id ct, st_LinkChain = Some lc\<rparr> \<in> set (ct_out c) \<and>
           lc_DispatchAddrs lc = host_port (Host (c_Net (ct_cfg ct))) (DataPort (c_Net (ct_cfg ct))) #
             map (\<lambda>n. host_port n (AgentDataPort (c_Net (ct_cfg ct)))) up))) \<and>
    (f \<noteq> ct_allCount ct \<and> s + f = ct_allCount ct \<and> ct_phase ct = In_Start \<longrightarrow>
      ct_phase c = Serving \<and> ti_Status (ct_ti c) = ti_Status (ct_ti ct)) \<and>
    (f \<noteq> ct_allCount ct \<and> s + f \<noteq> ct_allCount ct \<longrightarrow>
      ct_phase c = ct_phase ct \<and> ct_succCount c = s \<and> ct_failCount c = f \<and> ct_out c = ct_out ct)"
proof -
  define k where "k = checkAgentRsp w ip ok ct"
  obtain di where di: "map_of (ti_DispatchInfos (ct_ti ct)) ip = Some di"
    using known_node [OF assms(1), of ip] assms(2) by (auto simp: infos_def)
  have n: "ct_succCount k = s" "ct_failCount k = f"
    by (simp_all add: k_def checkAgentRsp_def di s_def f_def Let_def)
  have fr: "ct_phase k = ct_phase ct" "ct_sent k = ct_sent ct" "ct_destIPs k = ct_destIPs ct"
    "ct_allCount k = ct_allCount ct" "ct_cfg k = ct_cfg ct" "ct_id k = ct_id ct" "ct_out k = ct_out ct"
    "ti_Status (ct_ti k) = ti_Status (ct_ti ct)"
    by (simp_all add: k_def checkAgentRsp_frame)
  have r: "c = (if f = ct_allCount ct then created w TaskFailed k
      else if s + f = ct_allCount ct
        then (if ct_phase ct = In_Create then startTask w k else created w TaskInProgress k) else k)"
    by (simp add: c_def agentRsp_def k_def [symmetric] n fr Let_def)
  have failed: "ti_Status (ct_ti (created w TaskFailed k)) = ''FAILED''"
    by (simp add: created_def endTask_def Let_def status_String.simps)
  have going: "ti_Status (ct_ti (created w TaskInProgress k)) = ti_Status (ct_ti ct)"
    by (simp add: created_def fr)
  let ?up = "chainNodes (ct_destIPs ct) (ct_ti k)"
  have hosts: "\<forall>n \<in> set ?up. plain_host n" using assms(4) by (auto simp: chainNodes_def)
  have ti: "ct_ti (startTask w k) = ct_ti k" by (simp add: startTask_def Let_def sendReq_simps)
  have up: "?up = filter (\<lambda>n. \<exists>di. map_of (ti_DispatchInfos (ct_ti k)) n = Some di \<and> di_Status di = ''INPROGESS'') (ct_destIPs ct)"
    unfolding chainNodes_def by (rule filter_cong [OF refl]) (simp add: status_String.simps split: option.split)
  have sent: "ct_sent (startTask w k) = ct_sent ct @ ?up"
    using map_host_port [OF hosts] by (simp add: startTask_frame fr)
  have all: "ct_allCount (startTask w k) = int (length ?up)"
    by (simp add: startTask_def Let_def sendReq_simps createLinkChain_def fr)
  define lc where "lc = createLinkChain (ct_cfg ct) (ct_destIPs ct) (ct_ti k)"
  have out: "Session_Start \<lparr>st_TaskID = ct_id ct, st_LinkChain = Some lc\<rparr> \<in> set (ct_out (startTask w k))"
    by (simp add: startTask_def Let_def sendReq_simps fr lc_def)
  have lc: "lc_DispatchAddrs lc = host_port (Host (c_Net (ct_cfg ct))) (DataPort (c_Net (ct_cfg ct))) #
      map (\<lambda>n. host_port n (AgentDataPort (c_Net (ct_cfg ct)))) ?up"
    by (simp add: lc_def createLinkChain_def)
  have start: "ct_sent (startTask w k) = ct_sent ct @ ?up \<and> ct_allCount (startTask w k) = int (length ?up) \<and>
      (\<exists>lc. Session_Start \<lparr>st_TaskID = ct_id ct, st_LinkChain = Some lc\<rparr> \<in> set (ct_out (startTask w k)) \<and>
        lc_DispatchAddrs lc = host_port (Host (c_Net (ct_cfg ct))) (DataPort (c_Net (ct_cfg ct))) #
          map (\<lambda>n. host_port n (AgentDataPort (c_Net (ct_cfg ct)))) ?up)"
    using sent all out lc by blast
  show ?thesis
    unfolding r using failed going start fr n
    by (simp add: created_phase startTask_frame(1) ti up [symmetric] Let_def)
qed

theorem agent_answer_spec_witness:
  "\<exists>ct0 c. createTask ex_tw (NewCachedTaskInfo ex_server_cfg 4 ex_create) = Some ct0 \<and>
    c = agentRsp ex_tw ''n1'' True ct0 \<and> ct_phase c = In_Create \<and> ct_succCount c = 1"
proof -
  obtain ct0 where c: "createTask ex_tw (NewCachedTaskInfo ex_server_cfg 4 ex_create) = Some ct0"
    and p: "ct_phase ct0 = In_Create" "ct_allCount ct0 = 2" "ct_succCount ct0 = 0" "ct_failCount ct0 = 0"
    using ex_createTask by blast
  have h: "\<forall>ip \<in> set (cr_DestIPs ex_create). plain_host ip" "distinct (cr_DestIPs ex_create)"
    by (simp_all add: ex_create_def plain_host_def)
  note i = task_run_inv [OF c rtranclp.rtrancl_refl h]
  have d: "ct_destIPs ct0 = [''n1'', ''n2'']" using i(3) by (simp add: fixed_def ex_create_def)
  have "nodes_inv ct0" "\<forall>ip \<in> set (ct_destIPs ct0). plain_host ip" using i(1) by (simp_all add: task_inv_def base_inv_def)
  then have "ct_phase (agentRsp ex_tw ''n1'' True ct0) = In_Create \<and> ct_succCount (agentRsp ex_tw ''n1'' True ct0) = 1"
    using agent_answer_spec [of ct0 "''n1''" True ex_tw] p d by simp
  then show ?thesis using c by blast
qed

text \<open>C16: A report of a node sets that node alone: 100 percent completes it, -1 fails it, any other
  value leaves its status, and the percentage is kept.  The task ends, as COMPLETED, exactly when
  every node is then completed or failed; a report of an unknown address changes no node.\<close>

theorem report_spec:
  fixes w csr
  assumes "nodes_inv ct"
  defines "c \<equiv> reportTask w csr ct"
  defines "fin \<equiv> \<forall>(ip, di) \<in> set (ti_DispatchInfos (ct_ti c)). di_Status di \<in> {''COMPLETED'', ''FAILED''}"
  shows "(\<forall>ip. ip \<noteq> sr_IP csr \<longrightarrow>
      map_of (ti_DispatchInfos (ct_ti c)) ip = map_of (ti_DispatchInfos (ct_ti ct)) ip) \<and>
    map_of (ti_DispatchInfos (ct_ti c)) (sr_IP csr) =
      map_option (\<lambda>di. (if rat_trunc (sr_PercentComplete csr) \<in> {100, -1}
          then di\<lparr>di_Status := (if rat_trunc (sr_PercentComplete csr) = 100 then ''COMPLETED'' else ''FAILED''),
            di_FinishedAt := Some (tw_now w)\<rparr> else di)\<lparr>di_PercentComplete := sr_PercentComplete csr\<rparr>)
        (map_of (ti_DispatchInfos (ct_ti ct)) (sr_IP csr)) \<and>
    ti_Status (ct_ti c) = (if fin then ''COMPLETED'' else ti_Status (ct_ti ct)) \<and>
    (\<not> fin \<longrightarrow> ct_out c = ct_out ct)"
proof -
  define k where "k = reportStatus w csr ct"
  have s: "status_String TaskCompleted = ''COMPLETED''" "status_String TaskFailed = ''FAILED''"
    by (simp_all add: status_String.simps)
  have nodes: "map_of (ti_DispatchInfos (ct_ti k)) ip = (if ip \<noteq> sr_IP csr then map_of (ti_DispatchInfos (ct_ti ct)) ip
      else map_option (\<lambda>di. (if rat_trunc (sr_PercentComplete csr) \<in> {100, -1}
          then di\<lparr>di_Status := (if rat_trunc (sr_PercentComplete csr) = 100 then ''COMPLETED'' else ''FAILED''),
            di_FinishedAt := Some (tw_now w)\<rparr> else di)\<lparr>di_PercentComplete := sr_PercentComplete csr\<rparr>)
        (map_of (ti_DispatchInfos (ct_ti ct)) (sr_IP csr)))" for ip
    by (auto simp: k_def reportStatus_def set_info_def s Let_def update_conv split: option.split)
  have chk: "snd (checkFinished (ct_ti k)) \<longleftrightarrow>
      (\<forall>(ip, di) \<in> set (ti_DispatchInfos (ct_ti k)). di_Status di \<in> {''COMPLETED'', ''FAILED''})"
    unfolding checkFinished_eq(1) done_ok_def image_insert s by auto
  have k: "ti_Status (ct_ti k) = ti_Status (ct_ti ct)" "ct_out k = ct_out ct"
    by (simp_all add: k_def reportStatus_def Let_def split: option.split)
  have c: "c = (if snd (checkFinished (ct_ti k)) then stopAllClientTask (endTask w TaskCompleted k) else k)"
    using checkFinished_eq(2) [of "ct_ti k"]
    by (cases "checkFinished (ct_ti k)") (auto simp: c_def reportTask_def k_def)
  have i: "ti_DispatchInfos (ct_ti c) = ti_DispatchInfos (ct_ti k)"
    by (simp add: c stopAllClientTask_def endTask_def)
  have st: "ti_Status (ct_ti (stopAllClientTask (endTask w TaskCompleted k))) = ''COMPLETED''"
    by (simp add: stopAllClientTask_def endTask_def s)
  have "ti_Status (ct_ti c) = (if fin then ''COMPLETED'' else ti_Status (ct_ti ct))"
    "\<not> fin \<longrightarrow> ct_out c = ct_out ct"
    unfolding fin_def i using chk c st k by auto
  then show ?thesis using nodes by (simp only: i) simp
qed

theorem report_spec_witness:
  "ti_Status (ct_ti (reportTask ex_tw \<lparr>sr_TaskID = ''t'', sr_IP = ''n1'', sr_FileType = 1, sr_GID = 2,
     sr_Version = 3, sr_StorageDir = [], sr_PercentComplete = 100\<rparr>
     (NewCachedTaskInfo ex_server_cfg 4 ex_create))) = ''INIT''"
proof -
  let ?ct = "NewCachedTaskInfo ex_server_cfg 4 ex_create"
  have "\<forall>ip \<in> set (cr_DestIPs ex_create). plain_host ip" "distinct (cr_DestIPs ex_create)"
    by (simp_all add: ex_create_def plain_host_def)
  from new_task_inv [OF this] have n: "nodes_inv ?ct" by (simp add: base_inv_def)
  let ?r = "\<lparr>sr_TaskID = ''t'', sr_IP = ''n1'', sr_FileType = 1, sr_GID = 2, sr_Version = 3, sr_StorageDir = [],
    sr_PercentComplete = 100 :: rat\<rparr>"
  have m: "map_of (ti_DispatchInfos (ct_ti ?ct)) ''n2'' = Some (newDispatchInfo 4 ex_create)"
    by (simp add: NewCachedTaskInfo_def newTaskInfo_def ex_create_def)
  note r = report_spec [OF n, of ?r ex_tw]
  have "map_of (ti_DispatchInfos (ct_ti (reportTask ex_tw ?r ?ct))) ''n2'' = Some (newDispatchInfo 4 ex_create)"
    using r m by simp
  then have "(''n2'', newDispatchInfo 4 ex_create) \<in> set (ti_DispatchInfos (ct_ti (reportTask ex_tw ?r ?ct)))"
    by (rule map_of_SomeD)
  moreover have "di_Status (newDispatchInfo 4 ex_create) = ''INIT''" by (simp add: newDispatchInfo_def status_String.simps)
  ultimately have "\<not> (\<forall>(ip, di) \<in> set (ti_DispatchInfos (ct_ti (reportTask ex_tw ?r ?ct))).
      di_Status di \<in> {''COMPLETED'', ''FAILED''})" by fastforce
  then have "ti_Status (ct_ti (reportTask ex_tw ?r ?ct)) = ti_Status (ct_ti ?ct)"
    by (subst r [THEN conjunct2, THEN conjunct2, THEN conjunct1]) (simp only: if_False)
  then show ?thesis by (simp add: NewCachedTaskInfo_def newTaskInfo_def status_String.simps)
qed

text \<open>C29: The comparison of two lists does not compare element by element: it demands that every
  element of the one equals every element of the other, so a list with two different elements is
  not even equal to itself, and a resubmitted task with two targets is refused; the refusal
  brings the server down when the caller has closed its channel before the second answer.\<close>

theorem equalSlice_spec:
  "equalSlice a b = (length a = length b \<and> (\<forall>i \<in> set a. \<forall>j \<in> set b. i = j)) \<and>
   (equalSlice a a \<longleftrightarrow> (\<forall>i \<in> set a. \<forall>j \<in> set a. i = j)) \<and>
   (i \<in> set (cr_DestIPs t) \<and> j \<in> set (cr_DestIPs t) \<and> i \<noteq> j \<and> ct_destIPs ct = cr_DestIPs t \<longrightarrow>
     cmpTask w t True ct = None \<and>
     (ti_Status (ct_ti ct) \<noteq> ''FAILED'' \<longrightarrow> cmpTask w t False ct = Some (emit [Reply_Cmp False, Reply_Cmp True] ct)))"
proof -
  have n: "noneDiffers i b = (\<forall>j \<in> set b. i = j)" for i b by (induction b) auto
  have l: "equalLoop a b = (\<forall>i \<in> set a. \<forall>j \<in> set b. i = j)" for a b by (induction a) (auto simp: n)
  have e: "equalSlice a b = (length a = length b \<and> (\<forall>i \<in> set a. \<forall>j \<in> set b. i = j))" for a b
    by (simp add: equalSlice_def l)
  have c: "cmpTask w t True ct = None \<and>
      (ti_Status (ct_ti ct) \<noteq> ''FAILED'' \<longrightarrow> cmpTask w t False ct = Some (emit [Reply_Cmp False, Reply_Cmp True] ct))"
    if "i \<in> set (cr_DestIPs t)" "j \<in> set (cr_DestIPs t)" "i \<noteq> j" "ct_destIPs ct = cr_DestIPs t"
  proof -
    have "\<not> equalSlice (cr_DestIPs t) (ct_destIPs ct)" using that by (auto simp: e)
    then show ?thesis by (simp add: cmpTask_def Let_def emit_def status_String.simps)
  qed
  show ?thesis using e c by blast
qed

theorem equalSlice_spec_witness:
  "\<not> equalSlice [''n1'', ''n2''] [''n1'', ''n2''] \<and>
   cmpTask ex_tw ex_create True (NewCachedTaskInfo ex_server_cfg 4 ex_create) = None"
  using equalSlice_spec [of "[''n1'', ''n2'']" "[''n1'', ''n2'']" "''n1''" ex_create "''n2''"
      "NewCachedTaskInfo ex_server_cfg 4 ex_create" ex_tw]
  by (simp add: NewCachedTaskInfo_def) (simp add: ex_create_def)



end
