(* ===== verification/Flowctrl.thy ===== *)
theory Flowctrl
  imports Float32 Config "HOL-Library.Monad_Syntax"
begin

text \<open>
  The package \<open>flowctrl\<close>: the monitor of a transfer, the limit it enforces, and the reader and
  the writer that ask it before each transfer.  Durations and clock values are nanoseconds,
  byte counts and durations stay far below \<open>2\<^sup>6\<^sup>3\<close>; \<open>float64\<close> operations round (\<open>f64\<close>).

  A \<open>ticker\<close> is the wall clock: \<open>tk_time\<close> is the time in nanoseconds, and before its \<open>k\<close>-th
  reading \<open>ce_lag e k\<close> nanoseconds pass.  \<open>ce_czero\<close> is the rounded start time of the process
  and \<open>ce_exp\<close> is \<open>math.Exp\<close>.  A monitor is used by the goroutine that owns it (the writer of
  a connection), so nothing else changes it while \<open>waitNextSample\<close> sleeps.  A panic of a slice
  expression and a loop that does not end are both \<open>None\<close>; the theorems show that neither
  happens.
\<close>

section \<open>The clock and rounding (utils.go)\<close>

record clock_env =
  ce_czero :: int
  ce_lag :: "nat \<Rightarrow> int"
  ce_exp :: "rat \<Rightarrow> rat"

record ticker =
  tk_time :: int
  tk_n :: nat

definition millisecond :: int where
  "millisecond = 1000000"

definition second :: int where
  "second = 1000000000"

definition clockRate :: int where
  "clockRate = 20 * millisecond"

definition clock_at :: "clock_env \<Rightarrow> int \<Rightarrow> int" where
  "clock_at e t = (t sdiv clockRate) * clockRate - ce_czero e"

definition clock :: "clock_env \<Rightarrow> ticker \<Rightarrow> int \<times> ticker" where
  "clock e tk = (let t = tk_time tk + ce_lag e (tk_n tk) in
     (clock_at e t, \<lparr>tk_time = t, tk_n = Suc (tk_n tk)\<rparr>))"

definition clockToTime :: "clock_env \<Rightarrow> int \<Rightarrow> int" where
  "clockToTime e c = ce_czero e + c"

definition clockRound :: "int \<Rightarrow> int" where
  "clockRound d = (d + drop_bit 1 clockRate) sdiv clockRate * clockRate"

definition go_sleep :: "int \<Rightarrow> ticker \<Rightarrow> ticker" where
  "go_sleep d tk = tk\<lparr>tk_time := tk_time tk + max 0 d\<rparr>"

text \<open>A conversion to \<open>int64\<close> out of range has the value it has on amd64.\<close>

definition int64_of :: "int \<Rightarrow> int" where
  "int64_of n = (if - (2 ^ 63) \<le> n \<and> n < 2 ^ 63 then n else - (2 ^ 63))"

definition round_f64 :: "rat \<Rightarrow> int" where
  "round_f64 x = (let frac = (if 0 \<le> x then x - of_int \<lfloor>x\<rfloor> else x - of_int \<lceil>x\<rceil>) in
     if frac \<ge> 1 / 2 then int64_of \<lceil>x\<rceil> else int64_of \<lfloor>x\<rfloor>)"

text \<open>\<open>Duration.Seconds\<close>.\<close>

definition Seconds :: "int \<Rightarrow> rat" where
  "Seconds d = f64 (f64 (of_int (d sdiv second)) + f64 (f64 (of_int (d smod second)) / of_int second))"

definition percentOf :: "rat \<Rightarrow> rat \<Rightarrow> u32" where
  "percentOf x tot =
     (if x < 0 \<or> tot \<le> 0 then 0
      else (let p = round_f64 (f64 (f64 (x / tot) * 100000)) in
        if p \<le> 2 ^ 32 - 1 then word_of_int p else word_of_int (2 ^ 32 - 1)))"

definition Percent_Float :: "u32 \<Rightarrow> rat" where
  "Percent_Float p = f64 (of_nat (unat p) * f64 (1 / 1000))"

definition Percent_String :: "u32 \<Rightarrow> string" where
  "Percent_String p =
     (let b = nat_digits (unat p div 1000); n = length b;
          b = b @ nat_digits (1000 + unat p mod 1000)
      in b[n := CHR ''.''] @ ''%'')"

section \<open>The monitor (flowctrl.go)\<close>

record monitor =
  m_active :: bool
  m_start :: int
  m_bytes :: int
  m_samples :: int
  m_rSample :: rat
  m_rEMA :: rat
  m_rPeak :: rat
  m_rWindow :: rat
  m_sBytes :: int
  m_sLast :: int
  m_sRate :: int
  m_tBytes :: int
  m_tLast :: int

definition New :: "clock_env \<Rightarrow> ticker \<Rightarrow> int \<Rightarrow> int \<Rightarrow> ticker \<times> monitor" where
  "New e tk sampleRate windowSize =
     (let sampleRate = (if clockRound sampleRate \<le> 0 then 5 * clockRate else clockRound sampleRate);
          windowSize = (if windowSize \<le> 0 then 1 * second else windowSize);
          (now, tk) = clock e tk
      in (tk, \<lparr>m_active = True, m_start = now, m_bytes = 0, m_samples = 0, m_rSample = 0,
        m_rEMA = 0, m_rPeak = 0, m_rWindow = Seconds windowSize, m_sBytes = 0, m_sLast = now,
        m_sRate = sampleRate, m_tBytes = 0, m_tLast = now\<rparr>))"

definition mon_reset :: "int \<Rightarrow> monitor \<Rightarrow> monitor" where
  "mon_reset sampleTime m = m\<lparr>m_bytes := m_bytes m + m_sBytes m, m_samples := m_samples m + 1,
     m_sBytes := 0, m_sLast := sampleTime\<rparr>"

text \<open>The rates at the end of a sample of \<open>sTime\<close> nanoseconds.\<close>

definition mon_sample :: "clock_env \<Rightarrow> int \<Rightarrow> monitor \<Rightarrow> monitor" where
  "mon_sample e sTime m =
     (let t = Seconds sTime;
          m = m\<lparr>m_rSample := f64 (f64 (of_int (m_sBytes m)) / t)\<rparr>;
          m = (if m_rSample m > m_rPeak m then m\<lparr>m_rPeak := m_rSample m\<rparr> else m)
      in if m_samples m > 0
         then (let w = ce_exp e (f64 (- t / m_rWindow m)) in
           m\<lparr>m_rEMA := f64 (m_rSample m + f64 (w * f64 (m_rEMA m - m_rSample m)))\<rparr>)
         else m\<lparr>m_rEMA := m_rSample m\<rparr>)"

definition mon_update :: "clock_env \<Rightarrow> ticker \<Rightarrow> monitor \<Rightarrow> int \<Rightarrow> int \<times> ticker \<times> monitor" where
  "mon_update e tk m n =
     (if \<not> m_active m then (0, tk, m)
      else (let (now, tk) = clock e tk;
          m = (if n > 0 then m\<lparr>m_tLast := now\<rparr> else m);
          m = m\<lparr>m_sBytes := m_sBytes m + n\<rparr>;
          sTime = now - m_sLast m
        in (now, tk, if sTime \<ge> m_sRate m then mon_reset now (mon_sample e sTime m) else m)))"

definition Update :: "clock_env \<Rightarrow> ticker \<Rightarrow> monitor \<Rightarrow> int \<Rightarrow> int \<times> ticker \<times> monitor" where
  "Update e tk m n = (n, snd (mon_update e tk m n))"

definition SetREMA :: "rat \<Rightarrow> monitor \<Rightarrow> monitor" where
  "SetREMA r m = m\<lparr>m_rEMA := r, m_samples := m_samples m + 1\<rparr>"

definition mon_IO :: "clock_env \<Rightarrow> ticker \<Rightarrow> monitor \<Rightarrow> int \<Rightarrow> 'e option \<Rightarrow> int \<times> 'e option \<times> ticker \<times> monitor" where
  "mon_IO e tk m n err = (case Update e tk m n of (n, tk, m) \<Rightarrow> (n, err, tk, m))"

definition mon_Done :: "clock_env \<Rightarrow> ticker \<Rightarrow> monitor \<Rightarrow> int \<times> ticker \<times> monitor" where
  "mon_Done e tk m =
     (let (now, tk, m) = mon_update e tk m 0;
          m = (if m_sBytes m > 0 then mon_reset now m else m);
          m = m\<lparr>m_active := False, m_tLast := 0\<rparr>
      in (m_bytes m, tk, m))"

definition SetTransferSize :: "int \<Rightarrow> monitor \<Rightarrow> monitor" where
  "SetTransferSize bytes m = m\<lparr>m_tBytes := (if bytes < 0 then 0 else bytes)\<rparr>"

record status =
  st_Active :: bool
  st_Start :: int
  st_Duration :: int
  st_Idle :: int
  st_Bytes :: int
  st_Samples :: int
  st_InstRate :: int
  st_CurRate :: int
  st_AvgRate :: int
  st_PeakRate :: int
  st_BytesRem :: int
  st_TimeRem :: int
  st_Progress :: u32

definition timeRemLimit :: int where
  "timeRemLimit = (999 * 3600 + 59 * 60 + 59) * second"

definition timeRem :: "int \<Rightarrow> rat \<Rightarrow> int" where
  "timeRem rem tRate = (let ns = f64 (f64 (f64 (of_int rem) / tRate) * 1000000000);
       ns = (if ns > f64 (of_int timeRemLimit) then f64 (of_int timeRemLimit) else ns)
     in clockRound \<lfloor>ns\<rfloor>)"

definition Status :: "clock_env \<Rightarrow> ticker \<Rightarrow> monitor \<Rightarrow> status \<times> ticker \<times> monitor" where
  "Status e tk m =
     (let (now, tk, m) = mon_update e tk m 0;
          s = \<lparr>st_Active = m_active m, st_Start = clockToTime e (m_start m),
               st_Duration = m_sLast m - m_start m, st_Idle = now - m_tLast m,
               st_Bytes = m_bytes m, st_Samples = m_samples m, st_InstRate = 0, st_CurRate = 0,
               st_AvgRate = 0, st_PeakRate = round_f64 (m_rPeak m),
               st_BytesRem = m_tBytes m - m_bytes m, st_TimeRem = 0,
               st_Progress = percentOf (f64 (of_int (m_bytes m))) (f64 (of_int (m_tBytes m)))\<rparr>;
          s = (if st_BytesRem s < 0 then s\<lparr>st_BytesRem := 0\<rparr> else s);
          s = (if st_Duration s > 0 then
            (let rAvg = f64 (f64 (of_int (st_Bytes s)) / Seconds (st_Duration s));
                 s = s\<lparr>st_AvgRate := round_f64 rAvg\<rparr>
             in if st_Active s then
               (let s = s\<lparr>st_InstRate := round_f64 (m_rSample m), st_CurRate := round_f64 (m_rEMA m)\<rparr>;
                    tRate = f64 (f64 (f64 (8 / 10) * m_rEMA m) + f64 (f64 (2 / 10) * rAvg))
                in if st_BytesRem s > 0 \<and> tRate > 0
                   then s\<lparr>st_TimeRem := timeRem (st_BytesRem s) tRate\<rparr> else s)
             else s)
           else s)
      in (s, tk, m))"

section \<open>The limit (flowctrl.go)\<close>

definition minWait :: int where
  "minWait = 5 * millisecond"

partial_function (option) waitLoop ::
  "clock_env \<Rightarrow> int \<Rightarrow> int \<Rightarrow> ticker \<Rightarrow> monitor \<Rightarrow> (int \<times> ticker \<times> monitor) option" where
  "waitLoop e current now tk m =
     (if m_sLast m = current \<and> m_active m
      then (let d = current + m_sRate m - now;
                d = (if d < minWait then minWait else d);
                r = mon_update e (go_sleep d tk) m 0
            in waitLoop e current (fst r) (fst (snd r)) (snd (snd r)))
      else Some (now, tk, m))"

definition waitNextSample :: "clock_env \<Rightarrow> int \<Rightarrow> ticker \<Rightarrow> monitor \<Rightarrow> (int \<times> ticker \<times> monitor) option" where
  "waitNextSample e now tk m = waitLoop e (m_sLast m) now tk m"

partial_function (option) limitLoop ::
  "clock_env \<Rightarrow> int \<Rightarrow> int \<Rightarrow> ticker \<Rightarrow> monitor \<Rightarrow> (ticker \<times> monitor) option" where
  "limitLoop e limit now tk m =
     (if m_sBytes m \<ge> limit \<and> m_active m
      then Option.bind (waitNextSample e now tk m) (\<lambda>r. limitLoop e limit (fst r) (fst (snd r)) (snd (snd r)))
      else Some (tk, m))"

text \<open>The number of bytes one sample may carry.\<close>

definition sampleLimit :: "int \<Rightarrow> int \<Rightarrow> int" where
  "sampleLimit rate sRate =
     (let limit = round_f64 (f64 (f64 (of_int rate) * Seconds sRate)) in if limit \<le> 0 then 1 else limit)"

definition Limit :: "clock_env \<Rightarrow> ticker \<Rightarrow> monitor \<Rightarrow> int \<Rightarrow> int \<Rightarrow> bool \<Rightarrow> (int \<times> ticker \<times> monitor) option" where
  "Limit e tk m want rate block =
     (if want < 1 \<or> rate < 1 then Some (want, tk, m)
      else do {
        let limit = sampleLimit rate (m_sRate m);
        let r = mon_update e tk m 0;
        (tk, m) \<leftarrow> (if block then limitLoop e limit (fst r) (fst (snd r)) (snd (snd r)) else Some (snd r));
        let limit = limit - m_sBytes m;
        let limit = (if limit > want \<or> \<not> m_active m then want else limit);
        Some (if limit < 0 then 0 else limit, tk, m)
      })"

section \<open>Limited readers and writers (io.go)\<close>

datatype 'e flow_error = ErrLimit | Io_Error 'e

text \<open>
  The underlying stream is a state: \<open>rd s n\<close> is a \<open>Read\<close> into \<open>n\<close> bytes, with the bytes it read,
  \<open>wr s p\<close> a \<open>Write\<close> of \<open>p\<close>, with the number of bytes it took.
\<close>

record 's reader =
  r_Reader :: 's
  r_mon :: monitor
  r_limit :: int
  r_block :: bool

record 's writer =
  w_Writer :: 's
  w_mon :: monitor
  w_limit :: int
  w_block :: bool

definition NewReader :: "clock_env \<Rightarrow> ticker \<Rightarrow> 's \<Rightarrow> int \<Rightarrow> ticker \<times> 's reader" where
  "NewReader e tk r limit = (case New e tk 0 0 of (tk, m) \<Rightarrow>
     (tk, \<lparr>r_Reader = r, r_mon = m, r_limit = limit, r_block = True\<rparr>))"

definition flow_Read ::
  "('s \<Rightarrow> nat \<Rightarrow> 's \<times> bytes \<times> 'e option) \<Rightarrow> clock_env \<Rightarrow> ticker \<Rightarrow> 's reader \<Rightarrow> bytes \<Rightarrow>
   (bytes \<times> 'e option \<times> ticker \<times> 's reader) option" where
  "flow_Read rd e tk r p = do {
     (k, tk, m) \<leftarrow> Limit e tk (r_mon r) (int (length p)) (r_limit r) (r_block r);
     p \<leftarrow> go_slice p 0 k;
     let r = r\<lparr>r_mon := m\<rparr>;
     if p \<noteq> [] then
       (let (s, got, err) = rd (r_Reader r) (length p);
            (_, err, tk, m) = mon_IO e tk (r_mon r) (int (length got)) err
        in Some (got, err, tk, r\<lparr>r_Reader := s, r_mon := m\<rparr>))
     else Some ([], None, tk, r)
   }"

definition Reader_SetLimit :: "int \<Rightarrow> 's reader \<Rightarrow> int \<times> 's reader" where
  "Reader_SetLimit new r = (r_limit r, r\<lparr>r_limit := new\<rparr>)"

definition Reader_SetBlocking :: "bool \<Rightarrow> 's reader \<Rightarrow> bool \<times> 's reader" where
  "Reader_SetBlocking new r = (r_block r, r\<lparr>r_block := new\<rparr>)"

definition Reader_Close ::
  "('s \<Rightarrow> 's \<times> 'e option) option \<Rightarrow> clock_env \<Rightarrow> ticker \<Rightarrow> 's reader \<Rightarrow> 'e option \<times> ticker \<times> 's reader" where
  "Reader_Close cl e tk r =
     (let (s, err) = (case cl of None \<Rightarrow> (r_Reader r, None) | Some c \<Rightarrow> c (r_Reader r));
          (_, tk, m) = mon_Done e tk (r_mon r)
      in (err, tk, r\<lparr>r_Reader := s, r_mon := m\<rparr>))"

definition NewWriter :: "clock_env \<Rightarrow> ticker \<Rightarrow> 's \<Rightarrow> int \<Rightarrow> ticker \<times> 's writer" where
  "NewWriter e tk w limit = (case New e tk 0 0 of (tk, m) \<Rightarrow>
     (tk, \<lparr>w_Writer = w, w_mon = m, w_limit = limit, w_block = True\<rparr>))"

text \<open>
  The loop of \<open>Write\<close>.  One round asks for a share of the limit and hands it to the underlying
  writer; \<open>writeRound\<close> is that round, with the bytes left and the error.
\<close>

definition writeRound ::
  "('s \<Rightarrow> bytes \<Rightarrow> 's \<times> int \<times> 'e option) \<Rightarrow> clock_env \<Rightarrow> ticker \<Rightarrow> 's writer \<Rightarrow> bytes \<Rightarrow>
   (bytes \<times> int \<times> 'e flow_error option \<times> ticker \<times> 's writer) option" where
  "writeRound wr e tk w p = do {
     (k, tk, m) \<leftarrow> Limit e tk (w_mon w) (int (length p)) (w_limit w) (w_block w);
     s \<leftarrow> go_slice p 0 k;
     let w = w\<lparr>w_mon := m\<rparr>;
     if s \<noteq> [] then
       (let (st, c, err) = wr (w_Writer w) s;
            (c, err, tk, m) = mon_IO e tk (w_mon w) c err
        in do {
          p \<leftarrow> go_slice p c (int (length p));
          Some (p, c, map_option Io_Error err, tk, w\<lparr>w_Writer := st, w_mon := m\<rparr>)
        })
     else Some (p, 0, Some ErrLimit, tk, w)
   }"

partial_function (option) writeLoop ::
  "('s \<Rightarrow> bytes \<Rightarrow> 's \<times> int \<times> 'e option) \<Rightarrow> clock_env \<Rightarrow> ticker \<Rightarrow> 's writer \<Rightarrow> bytes \<Rightarrow> int \<Rightarrow>
   'e flow_error option \<Rightarrow> (int \<times> 'e flow_error option \<times> ticker \<times> 's writer) option" where
  "writeLoop wr e tk w p n err =
     (if p \<noteq> [] \<and> err = None
      then Option.bind (writeRound wr e tk w p) (\<lambda>r. case r of (p', c, err', tk', w') \<Rightarrow>
        writeLoop wr e tk' w' p' (n + c) err')
      else Some (n, err, tk, w))"

definition flow_Write ::
  "('s \<Rightarrow> bytes \<Rightarrow> 's \<times> int \<times> 'e option) \<Rightarrow> clock_env \<Rightarrow> ticker \<Rightarrow> 's writer \<Rightarrow> bytes \<Rightarrow>
   (int \<times> 'e flow_error option \<times> ticker \<times> 's writer) option" where
  "flow_Write wr e tk w p = writeLoop wr e tk w p 0 None"

definition Writer_SetLimit :: "int \<Rightarrow> 's writer \<Rightarrow> int \<times> 's writer" where
  "Writer_SetLimit new w = (w_limit w, w\<lparr>w_limit := new\<rparr>)"

definition Writer_SetBlocking :: "bool \<Rightarrow> 's writer \<Rightarrow> bool \<times> 's writer" where
  "Writer_SetBlocking new w = (w_block w, w\<lparr>w_block := new\<rparr>)"

definition Writer_Close ::
  "('s \<Rightarrow> 's \<times> 'e option) option \<Rightarrow> clock_env \<Rightarrow> ticker \<Rightarrow> 's writer \<Rightarrow> 'e option \<times> ticker \<times> 's writer" where
  "Writer_Close cl e tk w =
     (let (s, err) = (case cl of None \<Rightarrow> (w_Writer w, None) | Some c \<Rightarrow> c (w_Writer w));
          (_, tk, m) = mon_Done e tk (w_mon w)
      in (err, tk, w\<lparr>w_Writer := s, w_mon := m\<rparr>))"

end
