(* ===== verification/FlowProps.thy ===== *)
theory FlowProps
  imports Flowctrl
begin

text \<open>
  What the flow control promises.  A clock reading never goes back and \<open>Sleep\<close> sleeps at least
  as long as asked (\<open>clock_ok\<close>).  \<open>mon_ok\<close> relates an active monitor to the clock, \<open>budget\<close> says
  that since some moment no sample carried more than the limit and every sample took its time.
\<close>

definition clock_ok :: "clock_env \<Rightarrow> bool" where
  "clock_ok e \<longleftrightarrow> clockRate dvd ce_czero e \<and> (\<forall>k. 0 \<le> ce_lag e k)"

definition mon_ok :: "clock_env \<Rightarrow> ticker \<Rightarrow> monitor \<Rightarrow> bool" where
  "mon_ok e tk m \<longleftrightarrow> 0 \<le> tk_time tk \<and> 0 \<le> m_sBytes m \<and> 0 < m_sRate m \<and> clockRate dvd m_sRate m \<and>
     clockRate dvd m_sLast m \<and> m_sLast m \<le> clock_at e (tk_time tk)"

definition moved :: "monitor \<Rightarrow> int" where
  "moved m = m_bytes m + m_sBytes m"

text \<open>At the moment \<open>(b, n, a)\<close> the monitor had counted \<open>b\<close> bytes in \<open>n\<close> samples; the samples that
  ended since then fit between \<open>a\<close> and the end of the last one.  A sample that is still open may have
  begun after \<open>a\<close>, or will only end a period after it.\<close>

definition budget :: "clock_env \<Rightarrow> ticker \<Rightarrow> int \<Rightarrow> int \<times> int \<times> int \<Rightarrow> monitor \<Rightarrow> bool" where
  "budget e tk L B m \<longleftrightarrow> (case B of (b, n, a) \<Rightarrow>
     0 \<le> L \<and> m_sBytes m \<le> L \<and> n \<le> m_samples m \<and> m_bytes m \<le> b + (m_samples m - n) * L \<and>
     (if m_samples m = n then a \<le> m_sLast m \<or> a + m_sRate m \<le> clock_at e (tk_time tk)
      else (m_samples m - n) * m_sRate m \<le> m_sLast m - a))"

text \<open>The monitor went on by \<open>n\<close> bytes and is still active.\<close>

definition advances :: "clock_env \<Rightarrow> ticker \<Rightarrow> monitor \<Rightarrow> ticker \<Rightarrow> monitor \<Rightarrow> int \<Rightarrow> bool" where
  "advances e tk m tk' m' n \<longleftrightarrow> mon_ok e tk' m' \<and> m_active m' \<and> m_sRate m' = m_sRate m \<and>
     m_start m' = m_start m \<and> moved m' = moved m + n \<and> tk_time tk \<le> tk_time tk'"

section \<open>The clock\<close>

lemma clockRate_pos [simp]: "0 < clockRate"
  by (simp add: clockRate_def millisecond_def)

lemma clock_at_div: "0 \<le> t \<Longrightarrow> clock_at e t = (t div clockRate) * clockRate - ce_czero e"
  by (simp add: clock_at_def sdiv_nonneg less_imp_le)

lemma clock_at_dvd: "clock_ok e \<Longrightarrow> clockRate dvd clock_at e t"
  by (simp add: clock_at_def clock_ok_def)

lemma clock_at_mono: "0 \<le> t \<Longrightarrow> t \<le> t' \<Longrightarrow> clock_at e t \<le> clock_at e t'"
  by (simp add: clock_at_div zdiv_mono1 mult_right_mono less_imp_le)

lemma budget_later:
  "budget e tk L B m \<Longrightarrow> 0 \<le> tk_time tk \<Longrightarrow> tk_time tk \<le> tk_time tk' \<Longrightarrow> budget e tk' L B m"
  using clock_at_mono [of "tk_time tk" "tk_time tk'" e] by (auto simp: budget_def split: prod.splits)

lemma budget_sBytes: "budget e tk L B m \<Longrightarrow> m_sBytes m \<le> L"
  by (auto simp: budget_def)

lemma clock_at_later:
  assumes "0 \<le> t" "0 \<le> d" "clockRate dvd d" "t + d \<le> t'"
  shows "clock_at e t + d \<le> clock_at e t'"
proof -
  obtain k where k: "d = clockRate * k" using assms(3) by (elim dvdE)
  have "(t + clockRate * k) div clockRate = t div clockRate + k"
    using clockRate_pos by (simp del: clockRate_pos)
  then have "clock_at e (t + d) = clock_at e t + d"
    using assms(1,2) by (simp add: clock_at_div k algebra_simps)
  moreover have "clock_at e (t + d) \<le> clock_at e t'"
    using assms(1,2,4) by (intro clock_at_mono) simp_all
  ultimately show ?thesis by simp
qed

section \<open>One update\<close>

lemma mon_sample_sel [simp]:
  "m_active (mon_sample e s m) = m_active m" "m_start (mon_sample e s m) = m_start m"
  "m_bytes (mon_sample e s m) = m_bytes m" "m_samples (mon_sample e s m) = m_samples m"
  "m_sBytes (mon_sample e s m) = m_sBytes m" "m_sLast (mon_sample e s m) = m_sLast m"
  "m_sRate (mon_sample e s m) = m_sRate m"
  by (simp_all add: mon_sample_def Let_def)

lemma update_spec:
  assumes c: "clock_ok e" and m: "mon_ok e tk m" "m_active m" and n: "0 \<le> n"
    and u: "mon_update e tk m n = (now, tk', m')"
  shows "advances e tk m tk' m' n" "now = clock_at e (tk_time tk')"
    "(now - m_sLast m < m_sRate m \<and> m_sBytes m' = m_sBytes m + n \<and> m_sLast m' = m_sLast m) \<or>
     (m_sRate m \<le> now - m_sLast m \<and> m_sBytes m' = 0 \<and> m_sLast m' = now)"
    "budget e tk L B m \<Longrightarrow> m_sBytes m + n \<le> L \<Longrightarrow> budget e tk' L B m'"
    "tk_time tk' = tk_time tk + ce_lag e (tk_n tk)"
proof -
  define t where "t = tk_time tk + ce_lag e (tk_n tk)"
  have t: "0 \<le> tk_time tk" "tk_time tk \<le> t" using m c by (auto simp: mon_ok_def clock_ok_def t_def)
  then have mono: "m_sLast m \<le> clock_at e t"
    using m(1) clock_at_mono [of "tk_time tk" t e] by (simp add: mon_ok_def)
  have tk: "tk' = \<lparr>tk_time = t, tk_n = Suc (tk_n tk)\<rparr>" "now = clock_at e t"
    using u m(2) by (simp_all add: mon_update_def clock_def Let_def t_def split: if_splits)
  then show "now = clock_at e (tk_time tk')" "tk_time tk' = tk_time tk + ce_lag e (tk_n tk)"
    by (simp_all add: t_def)
  define m1 where "m1 = (if n > 0 then m\<lparr>m_tLast := now\<rparr> else m)\<lparr>m_sBytes := m_sBytes m + n\<rparr>"
  have m1: "m_active m1" "m_start m1 = m_start m" "m_bytes m1 = m_bytes m" "m_samples m1 = m_samples m"
    "m_sBytes m1 = m_sBytes m + n" "m_sLast m1 = m_sLast m" "m_sRate m1 = m_sRate m"
    using m(2) by (simp_all add: m1_def)
  have m': "m' = (if now - m_sLast m \<ge> m_sRate m
      then mon_reset now (mon_sample e (now - m_sLast m) m1) else m1)"
    using u m(2) tk(2) by (simp add: mon_update_def clock_def Let_def t_def m1_def split: if_splits)
  show "(now - m_sLast m < m_sRate m \<and> m_sBytes m' = m_sBytes m + n \<and> m_sLast m' = m_sLast m) \<or>
     (m_sRate m \<le> now - m_sLast m \<and> m_sBytes m' = 0 \<and> m_sLast m' = now)"
    by (simp add: m' m1 mon_reset_def)
  show "advances e tk m tk' m' n"
    using m(1) n t mono clock_at_dvd [OF c, of t] tk
    by (simp add: advances_def mon_ok_def moved_def m' m1 mon_reset_def)
  show "budget e tk' L B m'" if b: "budget e tk L B m" "m_sBytes m + n \<le> L"
  proof -
    obtain b0 n0 a where B: "B = (b0, n0, a)" by (cases B)
    have mt: "clock_at e (tk_time tk) \<le> now" unfolding tk(2) using t by (rule clock_at_mono)
    have end_: "(m_samples m + 1 - n0) * m_sRate m \<le> now - a" if "m_sRate m \<le> now - m_sLast m"
    proof (cases "m_samples m = n0")
      case True
      then have "m_sRate m \<le> now - a" using b(1) that mt by (auto simp: budget_def B)
      then show ?thesis using True by simp
    next
      case False
      then have "(m_samples m - n0) * m_sRate m \<le> m_sLast m - a" using b(1) by (simp add: budget_def B)
      then show ?thesis using that by (simp add: algebra_simps)
    qed
    show ?thesis
    proof (cases "m_sRate m \<le> now - m_sLast m")
      case True
      then show ?thesis using b end_ [OF True] by (auto simp: budget_def B m' m1 mon_reset_def algebra_simps)
    next
      case False
      then have "m' = m1" using m' by simp
      then show ?thesis using b mt tk by (auto simp: budget_def B m1)
    qed
  qed
qed

section \<open>Waiting\<close>

text \<open>The sleep of \<open>waitNextSample\<close> is long enough: one round ends the sample.\<close>

lemma waitNextSample_spec:
  assumes c: "clock_ok e" and m: "mon_ok e tk m" "m_active m" and now: "now = clock_at e (tk_time tk)"
    "now - m_sLast m < m_sRate m"
  obtains now' tk' m' where "waitNextSample e now tk m = Some (now', tk', m')"
    "advances e tk m tk' m' 0" "m_sBytes m' = 0" "\<And>L B. budget e tk L B m \<Longrightarrow> budget e tk' L B m'"
proof -
  define d where "d = m_sLast m + m_sRate m - now"
  have "clockRate dvd d" using m(1) clock_at_dvd [OF c] by (simp add: d_def now(1) mon_ok_def)
  moreover have "0 < d" using now(2) by (simp add: d_def)
  ultimately have d: "clockRate dvd d" "clockRate \<le> d" by (simp_all add: zdvd_imp_le)
  then have w: "\<not> d < minWait" "0 \<le> d" by (simp_all add: minWait_def clockRate_def millisecond_def)
  define tk1 where "tk1 = go_sleep d tk"
  have t1: "tk_time tk1 = tk_time tk + d" using w by (simp add: tk1_def go_sleep_def)
  have t0: "0 \<le> tk_time tk" using m(1) by (simp add: mon_ok_def)
  have m1: "mon_ok e tk1 m"
    using m(1) w(2) clock_at_mono [OF t0, of "tk_time tk + d" e] by (simp add: mon_ok_def t1)
  obtain now' tk' m' where u: "mon_update e tk1 m 0 = (now', tk', m')" by (cases "mon_update e tk1 m 0")
  note s = update_spec [OF c m1 m(2) order.refl u]
  have "tk_time tk + d \<le> tk_time tk'" using s(5) t1 c by (simp add: clock_ok_def)
  then have "now + d \<le> now'" unfolding now(1) s(2) by (rule clock_at_later [OF t0 w(2) d(1)])
  then have r: "m_sRate m \<le> now' - m_sLast m" by (simp add: d_def)
  then have l: "m_sLast m' = now'" "m_sBytes m' = 0" using s(3) by auto
  have "0 < m_sRate m" using m(1) by (simp add: mon_ok_def)
  then have "m_sLast m' \<noteq> m_sLast m" using r l by linarith
  then have "waitNextSample e now tk m = Some (now', tk', m')"
    using m(2) w unfolding waitNextSample_def
    by (subst waitLoop.simps) (simp add: d_def [symmetric] tk1_def [symmetric] u waitLoop.simps)
  moreover have "advances e tk m tk' m' 0"
    using s(1) w(2) by (simp add: advances_def t1)
  moreover have "budget e tk' L B m'" if "budget e tk L B m" for L B
  proof -
    have b: "budget e tk1 L B m" using t0 t1 w(2) by (intro budget_later [OF that]) simp_all
    have "m_sBytes m + 0 \<le> L" using budget_sBytes [OF b] by simp
    with b show ?thesis by (rule s(4))
  qed
  ultimately show ?thesis using that l(2) by blast
qed

lemma limitLoop_spec:
  assumes c: "clock_ok e" and m: "mon_ok e tk m" "m_active m" and now: "now = clock_at e (tk_time tk)"
    "m_sBytes m \<ge> limit \<Longrightarrow> now - m_sLast m < m_sRate m" and l: "1 \<le> limit"
  obtains tk' m' where "limitLoop e limit now tk m = Some (tk', m')"
    "advances e tk m tk' m' 0" "m_sBytes m' < limit" "\<And>L B. budget e tk L B m \<Longrightarrow> budget e tk' L B m'"
proof (cases "m_sBytes m \<ge> limit")
  case False
  then show ?thesis using m by (intro that [of tk m]) (simp_all add: limitLoop.simps advances_def)
next
  case True
  obtain now' tk' m' where w: "waitNextSample e now tk m = Some (now', tk', m')"
    "advances e tk m tk' m' 0" "m_sBytes m' = 0" "\<And>L B. budget e tk L B m \<Longrightarrow> budget e tk' L B m'"
    by (rule waitNextSample_spec [OF c m now(1) now(2) [OF True]]) blast
  then have "limitLoop e limit now tk m = Some (tk', m')"
    using True m(2) l by (subst limitLoop.simps) (simp add: limitLoop.simps [of e limit now'])
  with w l show ?thesis by (intro that [of tk' m']) auto
qed

section \<open>The limit\<close>

lemma sampleLimit_pos: "1 \<le> sampleLimit rate sRate"
  by (simp add: sampleLimit_def Let_def)

lemma advances_trans:
  "advances e tk m tk1 m1 a \<Longrightarrow> advances e tk1 m1 tk2 m2 b \<Longrightarrow> advances e tk m tk2 m2 (a + b)"
  by (simp add: advances_def)

lemma Limit_active:
  assumes c: "clock_ok e" and m: "mon_ok e tk m" "m_active m" and w: "1 \<le> want" "1 \<le> rate"
  obtains k tk' m' where "Limit e tk m want rate block = Some (k, tk', m')" "0 \<le> k" "k \<le> want"
    "block \<Longrightarrow> 1 \<le> k" "advances e tk m tk' m' 0"
    "\<And>L B. budget e tk L B m \<Longrightarrow> budget e tk' L B m'"
    "m_sBytes m' \<le> sampleLimit rate (m_sRate m) \<Longrightarrow> m_sBytes m' + k \<le> sampleLimit rate (m_sRate m)"
proof -
  define L0 where "L0 = sampleLimit rate (m_sRate m)"
  have L0: "1 \<le> L0" by (simp add: L0_def sampleLimit_pos)
  obtain now tk1 m1 where u: "mon_update e tk m 0 = (now, tk1, m1)" by (cases "mon_update e tk m 0")
  note s = update_spec [OF c m order.refl u]
  have a1: "mon_ok e tk1 m1" "m_active m1" "m_sRate m1 = m_sRate m" using s(1) by (simp_all add: advances_def)
  have b1: "budget e tk L B m \<Longrightarrow> budget e tk1 L B m1" for L B
    using s(4) [of L B] budget_sBytes [of e tk L B m] by simp
  obtain tk2 m2 where r: "(if block then limitLoop e L0 now tk1 m1 else Some (tk1, m1)) = Some (tk2, m2)"
    "advances e tk1 m1 tk2 m2 0" "block \<Longrightarrow> m_sBytes m2 < L0" "\<And>L B. budget e tk1 L B m1 \<Longrightarrow> budget e tk2 L B m2"
  proof (cases block)
    case False
    then show ?thesis using a1 by (intro that [of tk1 m1]) (simp_all add: advances_def)
  next
    case True
    have "m_sBytes m1 \<ge> L0 \<Longrightarrow> now - m_sLast m1 < m_sRate m1" using s(3) L0 a1(3) by auto
    with limitLoop_spec [OF c a1(1,2) s(2) this L0] True that show ?thesis by metis
  qed
  have act: "m_active m2" "0 \<le> m_sBytes m2" using r(2) by (simp_all add: advances_def mon_ok_def)
  define k where "k = (if L0 - m_sBytes m2 > want then want else L0 - m_sBytes m2)"
  have L: "Limit e tk m want rate block = Some (if k < 0 then 0 else k, tk2, m2)"
    using w act(1) r(1) unfolding Limit_def L0_def [symmetric] k_def by (simp add: u not_less split: if_splits)
  show ?thesis
    by (rule that [OF L]) (use r act w L0 advances_trans [OF s(1) r(2)] b1 in
      \<open>auto simp: k_def L0_def [symmetric]\<close>)
qed

lemma Limit_total:
  assumes c: "clock_ok e" and m: "m_active m \<Longrightarrow> mon_ok e tk m" and w: "1 \<le> want"
  obtains k tk' m' where "Limit e tk m want rate block = Some (k, tk', m')" "0 \<le> k" "k \<le> want"
    "block \<longrightarrow> 1 \<le> k" "m_active m' \<longrightarrow> mon_ok e tk' m'" "m_active m' = m_active m"
proof -
  consider "rate < 1" | "1 \<le> rate" "\<not> m_active m" | "1 \<le> rate" "m_active m" by linarith
  then show ?thesis
  proof cases
    case 1
    then show ?thesis using m w by (intro that [of want tk m]) (simp_all add: Limit_def)
  next
    case 2
    then have "Limit e tk m want rate block = Some (want, tk, m)"
      using w by (simp add: Limit_def mon_update_def limitLoop.simps Let_def)
    then show ?thesis using 2 w by (intro that [of want tk m]) simp_all
  next
    case 3
    obtain k tk' m' where "Limit e tk m want rate block = Some (k, tk', m')" "0 \<le> k" "k \<le> want"
      "block \<Longrightarrow> 1 \<le> k" "advances e tk m tk' m' 0"
      by (rule Limit_active [OF c m [OF 3(2)] 3(2) w 3(1), of block]) blast
    then show ?thesis using 3 by (intro that [of k tk' m']) (auto simp: advances_def)
  qed
qed

section \<open>Writing\<close>

text \<open>
  The contract of \<open>io.Writer\<close>: a call takes a prefix of its argument and reports an error when
  that is not all of it.  \<open>out\<close> is what the destination has received.
\<close>

definition io_writer :: "('s \<Rightarrow> bytes) \<Rightarrow> ('s \<Rightarrow> bytes \<Rightarrow> 's \<times> int \<times> 'e option) \<Rightarrow> bool" where
  "io_writer out wr \<longleftrightarrow> (\<forall>s p. case wr s p of (s', c, err) \<Rightarrow> 0 \<le> c \<and> c \<le> int (length p) \<and>
     (c < int (length p) \<longrightarrow> err \<noteq> None) \<and> out s' = out s @ take (nat c) p)"

definition writer_ok :: "clock_env \<Rightarrow> ticker \<Rightarrow> 's writer \<Rightarrow> bool" where
  "writer_ok e tk w \<longleftrightarrow> (m_active (w_mon w) \<longrightarrow> mon_ok e tk (w_mon w))"

definition writer_budget :: "clock_env \<Rightarrow> ticker \<Rightarrow> int \<times> int \<times> int \<Rightarrow> 's writer \<Rightarrow> bool" where
  "writer_budget e tk B w \<longleftrightarrow> budget e tk (sampleLimit (w_limit w) (m_sRate (w_mon w))) B (w_mon w)"

text \<open>The writer has handed the bytes \<open>q\<close> on.\<close>

definition flows ::
  "('s \<Rightarrow> bytes) \<Rightarrow> clock_env \<Rightarrow> ticker \<Rightarrow> 's writer \<Rightarrow> ticker \<Rightarrow> 's writer \<Rightarrow> bytes \<Rightarrow> bool" where
  "flows out e tk w tk' w' q \<longleftrightarrow> out (w_Writer w') = out (w_Writer w) @ q \<and> writer_ok e tk' w' \<and>
     w_limit w' = w_limit w \<and> w_block w' = w_block w \<and> m_active (w_mon w') = m_active (w_mon w) \<and>
     (m_active (w_mon w) \<longrightarrow> 1 \<le> w_limit w \<longrightarrow>
       advances e tk (w_mon w) tk' (w_mon w') (int (length q)) \<and>
       (\<forall>B. writer_budget e tk B w \<longrightarrow> writer_budget e tk' B w'))"

lemma flows_refl: "writer_ok e tk w \<Longrightarrow> flows out e tk w tk w []"
  by (simp add: flows_def writer_ok_def advances_def)

lemma flows_trans:
  "flows out e tk w tk1 w1 q \<Longrightarrow> flows out e tk1 w1 tk2 w2 r \<Longrightarrow> flows out e tk w tk2 w2 (q @ r)"
  unfolding flows_def by (auto intro: advances_trans)

lemma update_total:
  assumes "clock_ok e" "m_active m \<Longrightarrow> mon_ok e tk m" "0 \<le> n" "mon_update e tk m n = (now, tk', m')"
  shows "m_active m' = m_active m" "m_active m' \<Longrightarrow> mon_ok e tk' m'"
proof -
  show "m_active m' = m_active m"
  proof (cases "m_active m")
    case True
    then show ?thesis using update_spec(1) [OF assms(1,2) _ assms(3,4)] by (simp add: advances_def)
  qed (use assms(4) in \<open>simp add: mon_update_def\<close>)
  then show "m_active m' \<Longrightarrow> mon_ok e tk' m'"
    using update_spec(1) [OF assms(1,2) _ assms(3,4)] by (simp add: advances_def)
qed

lemma go_slice_nat:
  "0 \<le> k \<Longrightarrow> k \<le> int (length p) \<Longrightarrow> go_slice p 0 k = Some (take (nat k) p)"
  "0 \<le> k \<Longrightarrow> k \<le> int (length p) \<Longrightarrow> go_slice p k (int (length p)) = Some (drop (nat k) p)"
  by (simp_all add: go_slice_def nat_diff_distrib)

lemma writeRound_spec:
  assumes c: "clock_ok e" and wr: "io_writer out wr" and w: "writer_ok e tk w" and p: "p \<noteq> []"
  obtains k err tk' w' where
    "writeRound wr e tk w p = Some (drop k p, int k, err, tk', w')" "k \<le> length p"
    "flows out e tk w tk' w' (take k p)" "err = None \<Longrightarrow> 0 < k"
    "err = Some ErrLimit \<Longrightarrow> \<not> w_block w \<and> k = 0"
    "\<forall>x. err = Some (Io_Error x) \<longrightarrow> (\<exists>s q. snd (snd (wr s q)) = Some x)"
proof -
  let ?m = "w_mon w" and ?L = "sampleLimit (w_limit w) (m_sRate (w_mon w))"
  have len: "1 \<le> int (length p)" using p by (cases p) auto
  have mo: "m_active ?m \<Longrightarrow> mon_ok e tk ?m" using w by (simp add: writer_ok_def)
  obtain k tk1 m1 where L: "Limit e tk ?m (int (length p)) (w_limit w) (w_block w) = Some (k, tk1, m1)"
    "0 \<le> k" "k \<le> int (length p)" "w_block w \<longrightarrow> 1 \<le> k" "m_active m1 \<longrightarrow> mon_ok e tk1 m1"
    "m_active m1 = m_active ?m"
    by (rule Limit_total [OF c mo len, of "w_limit w" "w_block w"]) blast
  have A: "advances e tk ?m tk1 m1 0 \<and> (\<forall>B. budget e tk ?L B ?m \<longrightarrow> budget e tk1 ?L B m1 \<and> m_sBytes m1 + k \<le> ?L)"
    if "m_active ?m" "1 \<le> w_limit w"
  proof -
    have "\<exists>k' tk' m'. Limit e tk ?m (int (length p)) (w_limit w) (w_block w) = Some (k', tk', m') \<and>
      advances e tk ?m tk' m' 0 \<and> (\<forall>B. budget e tk ?L B ?m \<longrightarrow> budget e tk' ?L B m' \<and> m_sBytes m' + k' \<le> ?L)"
      by (rule Limit_active [OF c mo [OF that(1)] that(1) len that(2), of "w_block w"])
        (use budget_sBytes in blast)
    then show ?thesis using L(1) by auto
  qed
  show ?thesis
  proof (cases "k = 0")
    case True
    then have "writeRound wr e tk w p = Some (drop 0 p, int 0, Some ErrLimit, tk1, w\<lparr>w_mon := m1\<rparr>)"
      using L(1,3) by (simp add: writeRound_def go_slice_nat)
    moreover have "flows out e tk w tk1 (w\<lparr>w_mon := m1\<rparr>) (take 0 p)"
      using L(5,6) A by (auto simp: flows_def writer_ok_def writer_budget_def advances_def)
    ultimately show ?thesis using True L(4) by (intro that [of 0]) auto
  next
    case False
    define s where "s = take (nat k) p"
    have s: "s \<noteq> []" "length s = nat k" "go_slice p 0 k = Some s"
      using False L(2,3) p by (simp_all add: s_def go_slice_nat)
    obtain st j err where r: "wr (w_Writer w) s = (st, j, err)" by (cases "wr (w_Writer w) s")
    have j: "0 \<le> j" "j \<le> int (length s)" "j < int (length s) \<longrightarrow> err \<noteq> None"
      "out st = out (w_Writer w) @ take (nat j) s"
      using wr [unfolded io_writer_def, THEN spec [of _ "w_Writer w"], THEN spec [of _ s]] by (simp_all add: r)
    obtain now tk2 m2 where u: "mon_update e tk1 m1 j = (now, tk2, m2)" by (cases "mon_update e tk1 m1 j")
    note t = update_total [OF c L(5) [rule_format] j(1) u]
    let ?w = "w\<lparr>w_mon := m2, w_Writer := st\<rparr>"
    have jp: "j \<le> int (length p)" using j(2) L(2,3) s(2) by linarith
    have "writeRound wr e tk w p = Some (drop (nat j) p, int (nat j), map_option Io_Error err, tk2, ?w)"
      using L(1) s(1,3) r u j(1) jp
      by (simp add: writeRound_def mon_IO_def Update_def go_slice_nat)
    moreover have "take (nat j) s = take (nat j) p" using j(2) L(2) unfolding s(2) s_def take_take
      by (simp add: min_absorb1 nat_mono)
    then have "flows out e tk w tk2 ?w (take (nat j) p)"
      using j(1,4) jp t L(6)
    proof -
      have "advances e tk ?m tk2 m2 j \<and> (\<forall>B. writer_budget e tk B w \<longrightarrow> writer_budget e tk2 B ?w)"
        if a: "m_active ?m" "1 \<le> w_limit w"
      proof -
        have m1: "mon_ok e tk1 m1" "m_active m1" "m_sRate m1 = m_sRate ?m"
          using A [OF a] by (simp_all add: advances_def)
        note us = update_spec [OF c m1(1,2) j(1) u]
        have "m_sRate m2 = m_sRate ?m" using us(1) m1(3) by (simp add: advances_def)
        moreover have "budget e tk ?L B ?m \<longrightarrow> budget e tk2 ?L B m2" for B
          using A [OF a, THEN conjunct2, THEN spec [of _ B]] us(4) [of ?L B] j(2) s(2) L(2) by auto
        ultimately show ?thesis
          using advances_trans [of e tk ?m tk1 m1 0 tk2 m2 j] A [OF a] us(1)
          by (simp add: writer_budget_def)
      qed
      with \<open>take (nat j) s = take (nat j) p\<close> show ?thesis
        using j(1,4) jp t L(6) by (simp add: flows_def writer_ok_def)
    qed
    moreover have "map_option Io_Error err = None \<Longrightarrow> 0 < nat j" using j(2,3) s(1) by (cases s) auto
    ultimately show ?thesis using jp j(1)
      by (intro that [of "nat j"])
        (use r in \<open>auto simp: map_option_case intro!: exI [of _ "w_Writer w"] exI [of _ s] split: option.splits\<close>)
  qed
qed

text \<open>A writer at work: a round of a call of \<open>Write\<close>, or time that passes between two.\<close>

inductive flow_next ::
  "('s \<Rightarrow> bytes \<Rightarrow> 's \<times> int \<times> 'e option) \<Rightarrow> clock_env \<Rightarrow> ticker \<times> 's writer \<Rightarrow> ticker \<times> 's writer \<Rightarrow> bool"
  for wr e where
  Round: "p \<noteq> [] \<Longrightarrow> writeRound wr e tk w p = Some (p', c, err, tk', w') \<Longrightarrow> flow_next wr e (tk, w) (tk', w')"
| Idle: "tk_time tk \<le> t \<Longrightarrow> flow_next wr e (tk, w) (tk\<lparr>tk_time := t\<rparr>, w)"

abbreviation flow_runs where
  "flow_runs wr e \<equiv> (flow_next wr e)\<^sup>*\<^sup>*"

lemma idle_flows:
  assumes "writer_ok e tk w" "tk_time tk \<le> t"
  shows "flows out e tk w (tk\<lparr>tk_time := t\<rparr>) w []"
proof -
  let ?tk = "tk\<lparr>tk_time := t\<rparr>"
  have m: "mon_ok e ?tk (w_mon w)" if "m_active (w_mon w)"
    using that assms clock_at_mono [of "tk_time tk" t e] by (simp add: writer_ok_def mon_ok_def)
  have b: "writer_budget e ?tk B w" if "m_active (w_mon w)" "writer_budget e tk B w" for B
    using that assms budget_later [of e tk _ B "w_mon w" ?tk] by (simp add: writer_budget_def writer_ok_def mon_ok_def)
  show ?thesis using m b assms(2) by (simp add: flows_def writer_ok_def advances_def)
qed

lemma next_flows:
  assumes "clock_ok e" "io_writer out wr" "writer_ok e (fst x) (snd x)" "flow_next wr e x y"
  shows "\<exists>q. flows out e (fst x) (snd x) (fst y) (snd y) q"
  using assms(4)
proof (cases rule: flow_next.cases)
  case (Round p tk w p' c err tk' w')
  obtain k where "flows out e tk w tk' w' (take k p)"
    by (rule writeRound_spec [OF assms(1,2) _ Round(3), of tk w]) (use assms(3) Round in auto)
  then show ?thesis using Round by auto
next
  case (Idle tk t w)
  then show ?thesis using idle_flows [of e tk w t out] assms(3) by auto
qed

lemma writeLoop_spec:
  assumes c: "clock_ok e" and wr: "io_writer out wr"
  shows "writer_ok e tk w \<Longrightarrow> \<exists>k err tk' w'. writeLoop wr e tk w p n None = Some (n + int k, err, tk', w') \<and>
    k \<le> length p \<and> flows out e tk w tk' w' (take k p) \<and> flow_runs wr e (tk, w) (tk', w') \<and> (err = None \<longrightarrow> k = length p) \<and>
    (err = Some ErrLimit \<longrightarrow> \<not> w_block w \<and> k < length p) \<and>
    (\<forall>x. err = Some (Io_Error x) \<longrightarrow> (\<exists>s q. snd (snd (wr s q)) = Some x))"
proof (induction "length p" arbitrary: p n tk w rule: less_induct)
  case less
  show ?case
  proof (cases "p = []")
    case True
    then show ?thesis using flows_refl [OF less.prems]
      by (intro exI [of _ 0] exI [of _ None] exI [of _ tk] exI [of _ w]) (simp add: writeLoop.simps)
  next
    case False
    obtain k err tk1 w1 where r: "writeRound wr e tk w p = Some (drop k p, int k, err, tk1, w1)"
      "k \<le> length p" "flows out e tk w tk1 w1 (take k p)" "err = None \<Longrightarrow> 0 < k"
      "err = Some ErrLimit \<Longrightarrow> \<not> w_block w \<and> k = 0"
      "\<forall>x. err = Some (Io_Error x) \<longrightarrow> (\<exists>s q. snd (snd (wr s q)) = Some x)"
      by (rule writeRound_spec [OF c wr less.prems False]) blast
    have nx: "flow_next wr e (tk, w) (tk1, w1)" using False r(1) by (rule flow_next.Round)
    have l: "writeLoop wr e tk w p n None = writeLoop wr e tk1 w1 (drop k p) (n + int k) err"
      using False r(1) by (subst writeLoop.simps) simp
    show ?thesis
    proof (cases err)
      case (Some x)
      then have "writeLoop wr e tk w p n None = Some (n + int k, err, tk1, w1)"
        unfolding l by (subst writeLoop.simps) simp
      then show ?thesis using r False Some r_into_rtranclp [of "flow_next wr e", OF nx] by auto
    next
      case None
      have "length (drop k p) < length p" using r(4) [OF None] False by simp
      moreover have "writer_ok e tk1 w1" "w_block w1 = w_block w" using r(3) by (simp_all add: flows_def)
      ultimately obtain j err' tk2 w2 where
        j: "writeLoop wr e tk1 w1 (drop k p) (n + int k) None = Some (n + int k + int j, err', tk2, w2)"
        "j \<le> length p - k" "flows out e tk1 w1 tk2 w2 (take j (drop k p))" "flow_runs wr e (tk1, w1) (tk2, w2)"
        "err' = None \<longrightarrow> j = length p - k" "err' = Some ErrLimit \<longrightarrow> \<not> w_block w \<and> j < length p - k"
        "\<forall>x. err' = Some (Io_Error x) \<longrightarrow> (\<exists>s q. snd (snd (wr s q)) = Some x)"
        using less.hyps [of "drop k p" tk1 w1 "n + int k"] by auto
      have "take k p @ take j (drop k p) = take (k + j) p" by (simp add: take_add)
      then have "flows out e tk w tk2 w2 (take (k + j) p)" using flows_trans [OF r(3) j(3)] by simp
      moreover have "flow_runs wr e (tk, w) (tk2, w2)" using nx j(4) by (rule converse_rtranclp_into_rtranclp)
      ultimately show ?thesis using l j None r(2)
        by (intro exI [of _ "k + j"] exI [of _ err'] exI [of _ tk2] exI [of _ w2]) auto
    qed
  qed
qed

section \<open>Runs of a writer\<close>

interpretation flow: machine "flow_next wr e" "\<lambda>x. clock_ok e \<and> io_writer out wr \<and> writer_ok e (fst x) (snd x)"
  "\<lambda>x y. x = y \<or> (\<exists>q. flows out e (fst x) (snd x) (fst y) (snd y) q)" for out wr e
proof unfold_locales
  fix x y z
  show "clock_ok e \<and> io_writer out wr \<and> writer_ok e (fst x) (snd x) \<Longrightarrow> flow_next wr e x y \<Longrightarrow>
      (clock_ok e \<and> io_writer out wr \<and> writer_ok e (fst y) (snd y)) \<and>
      (x = y \<or> (\<exists>q. flows out e (fst x) (snd x) (fst y) (snd y) q))"
    using next_flows [of e out wr x y] by (auto simp: flows_def)
qed (use flows_trans in blast)+

lemma runs_flows:
  assumes "clock_ok e" "io_writer out wr" "writer_ok e tk w" "flow_runs wr e (tk, w) (tk', w')"
  shows "\<exists>q. flows out e tk w tk' w' q"
  using flow.runs_inv [OF assms(4), of out] assms(1-3) flows_refl [of e tk w out] by (auto intro: exI [of _ "[]"])

text \<open>What has been moved since a moment is bounded by the time since then.\<close>

lemma budget_bound:
  assumes "budget e tk L (b, n, a) m" "mon_ok e tk m" "a \<le> clock_at e (tk_time tk)"
  shows "moved m - b \<le> ((clock_at e (tk_time tk) - a) div m_sRate m + 1) * L"
proof -
  let ?j = "m_samples m - n" and ?E = "clock_at e (tk_time tk) - a"
  have r: "0 < m_sRate m" and l: "m_sLast m \<le> clock_at e (tk_time tk)" using assms(2) by (simp_all add: mon_ok_def)
  have "?j \<le> ?E div m_sRate m"
  proof (cases "m_samples m = n")
    case True
    then show ?thesis using r assms(3) by (simp add: pos_imp_zdiv_nonneg_iff)
  next
    case False
    then have "?j * m_sRate m \<le> ?E" using assms(1) l by (simp add: budget_def)
    then show ?thesis using r zdiv_mono1 [of "?j * m_sRate m" ?E "m_sRate m"] by simp
  qed
  then have "(?j + 1) * L \<le> (?E div m_sRate m + 1) * L"
    using assms(1) by (intro mult_right_mono) (simp_all add: budget_def)
  moreover have "moved m - b \<le> (?j + 1) * L" using assms(1) by (simp add: budget_def moved_def algebra_simps)
  ultimately show ?thesis by linarith
qed

lemma New_spec:
  assumes c: "clock_ok e" and t: "0 \<le> tk_time tk" and n: "NewWriter e tk s limit = (tk', w)"
  shows "writer_ok e tk' w" "m_active (w_mon w)" "w_limit w = limit" "w_block w" "w_Writer w = s"
    "m_sRate (w_mon w) = 100 * millisecond" "moved (w_mon w) = 0" "m_start (w_mon w) = clock_at e (tk_time tk')"
    "writer_budget e tk' (0, 0, clock_at e (tk_time tk')) w" "tk_time tk \<le> tk_time tk'"
proof -
  have l: "0 \<le> ce_lag e (tk_n tk)" using c by (simp add: clock_ok_def)
  have r: "5 * clockRate = 100 * millisecond" "clockRate dvd 100 * millisecond" "clockRound 0 = 0" "0 < millisecond"
    by (simp_all add: clockRate_def millisecond_def clockRound_def drop_bit_eq_div sdiv_nonneg)
  have p: "0 \<le> sampleLimit limit (100 * millisecond)"
    using sampleLimit_pos [of limit "100 * millisecond"] by linarith
  show "writer_ok e tk' w" "m_active (w_mon w)" "w_limit w = limit" "w_block w" "w_Writer w = s"
    "m_sRate (w_mon w) = 100 * millisecond" "moved (w_mon w) = 0" "m_start (w_mon w) = clock_at e (tk_time tk')"
    "writer_budget e tk' (0, 0, clock_at e (tk_time tk')) w" "tk_time tk \<le> tk_time tk'"
    using n t l r p clock_at_dvd [OF c]
    by (auto simp: NewWriter_def New_def clock_def Let_def writer_ok_def mon_ok_def moved_def writer_budget_def
      budget_def)
qed

section \<open>The size of a sample\<close>

lemma f64_le: "0 \<le> x \<Longrightarrow> x \<le> y * (1 + 1 / 2 ^ 53) ^ k \<Longrightarrow> f64 x \<le> y * (1 + 1 / 2 ^ 53) ^ Suc k"
proof -
  assume a: "0 \<le> x" "x \<le> y * (1 + 1 / 2 ^ 53) ^ k"
  have "f64 x \<le> x * (1 + 1 / 2 ^ 53)" using f64_upper [OF a(1)] .
  also have "\<dots> \<le> (y * (1 + 1 / 2 ^ 53) ^ k) * (1 + 1 / 2 ^ 53)" using a(2) by (intro mult_right_mono) simp_all
  finally show ?thesis by (simp only: power_Suc2 mult.assoc)
qed

lemma Seconds_100ms: "0 \<le> Seconds (100 * millisecond)" "Seconds (100 * millisecond) \<le> 1 / 10 * (1 + 1 / 2 ^ 53) ^ 3"
proof -
  have d: "100 * millisecond sdiv second = 0" "100 * millisecond smod second = 100000000"
    by (simp_all add: millisecond_def second_def sdiv_nonneg smod_nonneg)
  have s: "Seconds (100 * millisecond) = f64 (f64 (f64 100000000 / 1000000000))"
    by (simp only: Seconds_def d) (simp add: second_def)
  show "0 \<le> Seconds (100 * millisecond)" by (simp add: s)
  have "f64 100000000 \<le> 100000000 * (1 + 1 / 2 ^ 53) ^ Suc 0" by (rule f64_le) simp_all
  then have "f64 100000000 / 1000000000 \<le> 1 / 10 * (1 + 1 / 2 ^ 53) ^ Suc 0" by (simp add: field_simps)
  then have "f64 (f64 (f64 100000000 / 1000000000)) \<le> 1 / 10 * (1 + 1 / 2 ^ 53) ^ Suc (Suc (Suc 0))"
    by (intro f64_le) simp_all
  then show "Seconds (100 * millisecond) \<le> 1 / 10 * (1 + 1 / 2 ^ 53) ^ 3" by (simp add: s eval_nat_numeral)
qed

lemma round_f64_le:
  assumes "0 \<le> x" "x < 2 ^ 60"
  shows "of_int (round_f64 x) \<le> x + 1 / 2"
proof -
  have i: "int64_of n = n" if "0 \<le> n" "n \<le> 2 ^ 60" for n using that by (simp add: int64_of_def)
  have "\<lceil>x\<rceil> \<le> 2 ^ 60" using assms(2) by (simp add: ceiling_le_iff)
  then have c: "int64_of \<lceil>x\<rceil> = \<lceil>x\<rceil>" "int64_of \<lfloor>x\<rfloor> = \<lfloor>x\<rfloor>"
    using assms(1) floor_le_ceiling [of x] by (intro i; linarith)+
  have f: "of_int \<lfloor>x\<rfloor> \<le> x" "of_int \<lceil>x\<rceil> \<le> of_int \<lfloor>x\<rfloor> + (1 :: rat)"
    by (simp, metis ceiling_diff_floor_le_1 diff_le_eq add.commute of_int_le_iff of_int_add of_int_1)
  show ?thesis
  proof (cases "x - of_int \<lfloor>x\<rfloor> \<ge> 1 / 2")
    case True
    then have "round_f64 x = \<lceil>x\<rceil>" using assms(1) c by (simp add: round_f64_def)
    then show ?thesis using True f by linarith
  next
    case False
    then have "round_f64 x = \<lfloor>x\<rfloor>" using assms(1) c by (simp add: round_f64_def)
    then show ?thesis using f by linarith
  qed
qed

lemma sampleLimit_100ms:
  assumes "1 \<le> rate" "rate \<le> 2 ^ 48"
  shows "10 * sampleLimit rate (100 * millisecond) \<le> rate + 10"
proof -
  define u :: rat where "u = 1 + 1 / 2 ^ 53"
  define r where "r = (of_int rate :: rat)"
  have r: "0 \<le> r" "r \<le> 2 ^ 48" using assms of_int_le_iff [of rate "2 ^ 48", where 'a = rat] by (simp_all add: r_def)
  have u: "0 \<le> u" "u ^ 5 \<le> 1 + 1 / 2 ^ 50" by (simp_all add: u_def power_numeral_reduce)
  have m: "f64 r * Seconds (100 * millisecond) \<le> (r * u) * (1 / 10 * u ^ 3)"
    using Seconds_100ms f64_upper [OF r(1)] r u(1) unfolding u_def [symmetric]
    by (intro mult_mono) simp_all
  then have "f64 r * Seconds (100 * millisecond) \<le> r / 10 * u ^ 4" by (simp add: power_numeral_reduce mult_ac)
  then have "f64 (f64 r * Seconds (100 * millisecond)) \<le> r / 10 * u ^ Suc 4"
    unfolding u_def using r(1) Seconds_100ms(1) by (intro f64_le) simp_all
  also have "\<dots> \<le> r / 10 * (1 + 1 / 2 ^ 50)" using u r(1) by (intro mult_left_mono) simp_all
  also have "\<dots> \<le> r / 10 + 1 / 10" using r by (simp add: field_simps)
  finally have x: "f64 (f64 r * Seconds (100 * millisecond)) \<le> r / 10 + 1 / 10" .
  have "of_int (round_f64 (f64 (f64 r * Seconds (100 * millisecond)))) \<le> r / 10 + 1 / 10 + 1 / 2"
    using round_f64_le [of "f64 (f64 r * Seconds (100 * millisecond))"] x r Seconds_100ms(1) by simp
  then have "of_int (10 * round_f64 (f64 (f64 r * Seconds (100 * millisecond)))) \<le> (of_int (rate + 10) :: rat)"
    by (simp add: r_def)
  then have "10 * round_f64 (f64 (f64 r * Seconds (100 * millisecond))) \<le> rate + 10"
    by (simp only: of_int_le_iff)
  then show ?thesis using assms(1) by (simp add: sampleLimit_def Let_def r_def)
qed

section \<open>What is shown\<close>

text \<open>C34: a call of Write on a limited writer returns, whatever the clock and the destination
  do within their contracts.  It hands a prefix of its argument to the destination and reports its
  length; without an error that is all of it; ErrLimit comes only from a non-blocking writer that
  stopped early, any other error is the destination's: a blocking writer over a destination that
  does not fail hands everything on.  The writer stays usable.\<close>

theorem Write_spec:
  assumes "clock_ok e" "io_writer out wr" "writer_ok e tk w"
  shows "\<exists>k err tk' w'. flow_Write wr e tk w p = Some (int k, err, tk', w') \<and> k \<le> length p \<and>
    out (w_Writer w') = out (w_Writer w) @ take k p \<and> (err = None \<longrightarrow> k = length p) \<and>
    (err = Some ErrLimit \<longrightarrow> \<not> w_block w \<and> k < length p) \<and> writer_ok e tk' w' \<and>
    (\<forall>x. err = Some (Io_Error x) \<longrightarrow> (\<exists>s q. snd (snd (wr s q)) = Some x))"
  using writeLoop_spec [OF assms, of p 0] unfolding flow_Write_def flows_def by fastforce

text \<open>C33: the rate limit.  Take a writer that NewWriter made with a limit of rate bytes per second,
  up to 2 ^ 48 (beyond that the rounding of floating point numbers may add more than a byte), at any
  two moments of its life, a moment being between two rounds of any calls of Write, with pauses of any
  length between them.  Between the two it hands on at most a tenth of rate, and one byte, for every full
  sampling period of 100 milliseconds that has passed, and for two more; when both moments lie in the
  same sample, at most once that amount: what was not used before is not saved up.  Since it was
  made, one more period suffices.  Every call of Write is such a sequence of rounds and returns.\<close>

theorem rate_limited:
  assumes "clock_ok e" "io_writer out wr" "0 \<le> tk_time tk" "1 \<le> rate" "rate \<le> 2 ^ 48"
    "NewWriter e tk s rate = (tk0, w0)" "flow_runs wr e (tk0, w0) (tk1, w1)" "flow_runs wr e (tk1, w1) (tk2, w2)"
  shows "10 * (int (length (out (w_Writer w2))) - int (length (out (w_Writer w1)))) \<le>
      ((clock_at e (tk_time tk2) - clock_at e (tk_time tk1)) div (100 * millisecond) + 2) * (rate + 10) \<and>
    (m_samples (w_mon w2) = m_samples (w_mon w1) \<longrightarrow>
      10 * (int (length (out (w_Writer w2))) - int (length (out (w_Writer w1)))) \<le> rate + 10) \<and>
    10 * (int (length (out (w_Writer w2))) - int (length (out s))) \<le>
      ((clock_at e (tk_time tk2) - clock_at e (tk_time tk0)) div (100 * millisecond) + 1) * (rate + 10) \<and>
    (\<forall>p. \<exists>k err tk3 w3. flow_Write wr e tk2 w2 p = Some (k, err, tk3, w3) \<and> flow_runs wr e (tk2, w2) (tk3, w3))"
proof -
  note n = New_spec [OF assms(1,3,6)]
  let ?r = "100 * millisecond"
  let ?L = "sampleLimit rate ?r" and ?c = "\<lambda>tk. clock_at e (tk_time tk)"
  have r: "0 < ?r" and t0: "0 \<le> tk_time tk0" using n(10) assms(3) by (simp_all add: millisecond_def)
  obtain q1 where q1: "flows out e tk0 w0 tk1 w1 q1" using runs_flows [OF assms(1,2) n(1) assms(7)] by blast
  then have ok1: "writer_ok e tk1 w1" by (simp add: flows_def)
  obtain q2 where q2: "flows out e tk1 w1 tk2 w2 q2" using runs_flows [OF assms(1,2) ok1 assms(8)] by blast
  have f: "w_limit w1 = rate" "w_limit w2 = rate" "m_active (w_mon w1)" "m_active (w_mon w2)"
    "advances e tk0 (w_mon w0) tk1 (w_mon w1) (int (length q1))" "advances e tk1 (w_mon w1) tk2 (w_mon w2) (int (length q2))"
    "out (w_Writer w1) = out s @ q1" "out (w_Writer w2) = out s @ q1 @ q2"
    using q1 q2 n(2,3,5) assms(4) by (simp_all add: flows_def)
  have mo: "mon_ok e tk1 (w_mon w1)" "mon_ok e tk2 (w_mon w2)" using f(5,6) by (simp_all only: advances_def)
  have m: "m_sRate (w_mon w1) = ?r" "m_sRate (w_mon w2) = ?r"
    "moved (w_mon w1) = int (length q1)" "moved (w_mon w2) = int (length q1) + int (length q2)"
    "tk_time tk0 \<le> tk_time tk1" "tk_time tk1 \<le> tk_time tk2" "0 \<le> tk_time tk1" "0 \<le> m_sBytes (w_mon w1)"
    using f(5,6) n(6,7) mo by (simp_all add: advances_def) (simp_all add: mon_ok_def)
  have c: "?c tk0 \<le> ?c tk2" "?c tk1 \<le> ?c tk2"
    using m(5-7) t0 clock_at_mono [of "tk_time tk0" "tk_time tk2" e] clock_at_mono [of "tk_time tk1" "tk_time tk2" e]
    by simp_all
  have b1: "budget e tk1 ?L (0, 0, ?c tk0) (w_mon w1)" and b2: "budget e tk2 ?L (0, 0, ?c tk0) (w_mon w2)"
    using q1 q2 n(2,3,9) f(1-3) m(1,2) assms(4) by (simp_all add: flows_def writer_budget_def)
  have "budget e tk1 ?L (m_bytes (w_mon w1), m_samples (w_mon w1), ?c tk1 - ?r) (w_mon w1)"
    using b1 m(1) by (simp add: budget_def)
  then have w: "budget e tk2 ?L (m_bytes (w_mon w1), m_samples (w_mon w1), ?c tk1 - ?r) (w_mon w2)"
    using q2 f(1-3) m(1,2) assms(4) by (simp add: flows_def writer_budget_def)
  have moved1: "m_bytes (w_mon w1) \<le> moved (w_mon w1)" using m(8) by (simp add: moved_def)
  have s10: "k * (10 * ?L) \<le> k * (rate + 10)" if "0 \<le> k" for k
    using sampleLimit_100ms [OF assms(4,5)] that by (intro mult_left_mono)
  have "(?c tk2 - (?c tk1 - ?r)) div ?r = (?c tk2 - ?c tk1) div ?r + 1"
    using r div_add_self2 [of ?r "?c tk2 - ?c tk1"] by (simp add: diff_diff_eq2 diff_add_eq del: div_add_self2)
  moreover have "moved (w_mon w2) - m_bytes (w_mon w1) \<le> ((?c tk2 - (?c tk1 - ?r)) div ?r + 1) * ?L"
    using budget_bound [OF w mo(2)] c(2) r m(2) by simp
  ultimately have "int (length q2) \<le> ((?c tk2 - ?c tk1) div ?r + 2) * ?L"
    using m(3,4) moved1 by (simp add: add.assoc)
  moreover have "0 \<le> (?c tk2 - ?c tk1) div ?r + 2" using c(2) r by (simp add: pos_imp_zdiv_nonneg_iff add_nonneg_nonneg)
  ultimately have A: "10 * int (length q2) \<le> ((?c tk2 - ?c tk1) div ?r + 2) * (rate + 10)"
    using s10 by fastforce
  have "int (length q2) \<le> ?L" if "m_samples (w_mon w2) = m_samples (w_mon w1)"
    using w that m(3,4) moved1 by (simp add: budget_def moved_def)
  then have B: "m_samples (w_mon w2) = m_samples (w_mon w1) \<longrightarrow> 10 * int (length q2) \<le> rate + 10"
    using s10 [of 1] by auto
  have "moved (w_mon w2) \<le> ((?c tk2 - ?c tk0) div ?r + 1) * ?L" using budget_bound [OF b2 mo(2) c(1)] m(2) by simp
  moreover have "0 \<le> (?c tk2 - ?c tk0) div ?r + 1" using c(1) r by (simp add: pos_imp_zdiv_nonneg_iff add_nonneg_nonneg)
  ultimately have C: "10 * (int (length q1) + int (length q2)) \<le> ((?c tk2 - ?c tk0) div ?r + 1) * (rate + 10)"
    using s10 m(4) by fastforce
  have ok2: "writer_ok e tk2 w2" using q2 by (simp add: flows_def)
  have D: "\<forall>p. \<exists>k err tk3 w3. flow_Write wr e tk2 w2 p = Some (k, err, tk3, w3) \<and> flow_runs wr e (tk2, w2) (tk3, w3)"
    using writeLoop_spec [OF assms(1,2) ok2] unfolding flow_Write_def by metis
  show ?thesis using A B C D by (simp add: f(7,8))
qed

section \<open>Instances\<close>

text \<open>A clock that advances by a millisecond between two readings, and a destination that takes at
  most seven bytes at a time.\<close>

definition demo_clock :: clock_env where
  "demo_clock = \<lparr>ce_czero = 0, ce_lag = (\<lambda>_. millisecond), ce_exp = (\<lambda>_. 1 / 2)\<rparr>"

definition demo_dest :: "bytes \<Rightarrow> bytes \<Rightarrow> bytes \<times> int \<times> string option" where
  "demo_dest s p = (s @ take 7 p, int (length (take 7 p)),
     if length p > 7 then Some ''short write'' else None)"

lemma demo_ok: "clock_ok demo_clock" "io_writer (\<lambda>s. s) demo_dest"
  by (auto simp: clock_ok_def demo_clock_def millisecond_def io_writer_def demo_dest_def)

lemma demo_writer:
  "NewWriter demo_clock \<lparr>tk_time = 0, tk_n = 0\<rparr> [] 50 = (tk, w) \<Longrightarrow> writer_ok demo_clock tk w"
  by (rule New_spec(1) [OF demo_ok(1)]) simp_all

lemma Write_spec_witness:
  "case NewWriter demo_clock \<lparr>tk_time = 0, tk_n = 0\<rparr> [] 50 of (tk, w) \<Rightarrow>
     \<exists>k err tk' w'. flow_Write demo_dest demo_clock tk w [1, 2, 3] = Some (int k, err, tk', w') \<and>
       w_Writer w' = w_Writer w @ take k [1, 2, 3]"
proof (cases "NewWriter demo_clock \<lparr>tk_time = 0, tk_n = 0\<rparr> ([] :: bytes) 50")
  case (Pair tk w)
  show ?thesis
    using Write_spec [OF demo_ok demo_writer [OF Pair], of "[1, 2, 3]"] unfolding Pair by auto
qed

lemma rate_limited_witness:
  "case NewWriter demo_clock \<lparr>tk_time = 0, tk_n = 0\<rparr> [] 50 of (tk0, w0) \<Rightarrow>
     \<exists>k err tk1 w1. flow_Write demo_dest demo_clock tk0 w0 [1, 2, 3, 4, 5, 6, 7] = Some (k, err, tk1, w1) \<and>
       10 * int (length (w_Writer w1)) \<le>
         ((clock_at demo_clock (tk_time tk1) - clock_at demo_clock (tk_time tk0)) div (100 * millisecond) + 1) * 60 \<and>
       (m_samples (w_mon w1) = m_samples (w_mon w0) \<longrightarrow> 10 * int (length (w_Writer w1)) \<le> 60)"
proof (cases "NewWriter demo_clock \<lparr>tk_time = 0, tk_n = 0\<rparr> ([] :: bytes) 50")
  case (Pair tk0 w0)
  have e: "w_Writer w0 = []" using New_spec(5) [OF demo_ok(1) _ Pair] by simp
  obtain k err tk1 w1 where w: "flow_Write demo_dest demo_clock tk0 w0 [1, 2, 3, 4, 5, 6, 7] = Some (k, err, tk1, w1)"
    "flow_runs demo_dest demo_clock (tk0, w0) (tk1, w1)"
    using writeLoop_spec [OF demo_ok demo_writer [OF Pair], of "[1, 2, 3, 4, 5, 6, 7]" 0] unfolding flow_Write_def by blast
  have "10 * (int (length (w_Writer w1)) - int (length (w_Writer w0))) \<le>
      ((clock_at demo_clock (tk_time tk1) - clock_at demo_clock (tk_time tk0)) div (100 * millisecond) + 2) * (50 + 10) \<and>
    (m_samples (w_mon w1) = m_samples (w_mon w0) \<longrightarrow>
      10 * (int (length (w_Writer w1)) - int (length (w_Writer w0))) \<le> 50 + 10) \<and>
    10 * (int (length (w_Writer w1)) - int (length ([] :: bytes))) \<le>
      ((clock_at demo_clock (tk_time tk1) - clock_at demo_clock (tk_time tk0)) div (100 * millisecond) + 1) * (50 + 10) \<and>
    (\<forall>p. \<exists>k err tk3 w3. flow_Write demo_dest demo_clock tk1 w1 p = Some (k, err, tk3, w3) \<and>
      flow_runs demo_dest demo_clock (tk1, w1) (tk3, w3))"
    by (rule rate_limited [OF demo_ok _ _ _ Pair rtranclp.rtrancl_refl w(2)]) simp_all
  then show ?thesis using w(1) e unfolding Pair prod.case by (intro exI [of _ k] exI [of _ err] exI [of _ tk1] exI [of _ w1]) simp
qed

end
