(* ===== verification/Service.thy ===== *)
theory Service
  imports TaskMgnt
begin

text \<open>
  What server and agent share: \<open>common/base.go\<close>, the life cycle of a service, \<open>common/http.go\<close>, the
  HTTP client, and \<open>p2p/report.go\<close>, the goroutine that posts the progress reports of a session.
  The HTTP server (echo), the transport and the JSON encoder are arguments.
\<close>

section \<open>Channels\<close>

text \<open>A send on a channel with room for \<open>cap\<close> values.\<close>

definition chan_send :: "nat \<Rightarrow> bool \<Rightarrow> 'a list \<Rightarrow> 'a \<Rightarrow> 'a list run" where
  "chan_send cap shut q x = (if shut then Panics else if length q \<ge> cap then Blocks else Ret (q @ [x]))"

section \<open>The life cycle (base.go)\<close>

datatype svc_call = On_Start | Echo_Start string bool | On_Stop | Echo_Shutdown | Load_Log string

record base_service =
  bs_name :: string
  bs_running :: bool
  bs_Cfg :: config
  bs_calls :: "svc_call list"

datatype 'e start_error = Started_Already | Start_Error 'e

definition NewBaseService :: "config \<Rightarrow> string \<Rightarrow> base_service" where
  "NewBaseService cfg name = \<lparr>bs_name = name, bs_running = False, bs_Cfg = cfg, bs_calls = []\<rparr>"

definition svc_call :: "svc_call list \<Rightarrow> base_service \<Rightarrow> base_service" where
  "svc_call cs s = s\<lparr>bs_calls := bs_calls s @ cs\<rparr>"

definition initlog :: "base_service \<Rightarrow> base_service" where
  "initlog s = (if c_Log (bs_Cfg s) \<noteq> [] then svc_call [Load_Log (c_Log (bs_Cfg s))] s else s)"

definition runEcho :: "base_service \<Rightarrow> base_service" where
  "runEcho s = (let net = c_Net (bs_Cfg s) in
     svc_call [Echo_Start (host_port (IP net) (MgntPort net)) (TLS net \<noteq> None)] s)"

text \<open>
  \<open>onStart\<close> is what the service's \<open>OnStart\<close> returns; \<open>early\<close> is what the HTTP server returned in
  the first half second, \<open>None\<close> when it was still running then.
\<close>

definition svc_Start :: "'e option \<Rightarrow> 'e option option \<Rightarrow> base_service \<Rightarrow> base_service \<times> 'e start_error option" where
  "svc_Start onStart early s =
     (if bs_running s then (s, Some Started_Already)
      else (let s = svc_call [On_Start] (initlog (s\<lparr>bs_running := True\<rparr>)) in
        case onStart of
          Some err \<Rightarrow> (s, Some (Start_Error err))
        | None \<Rightarrow> (runEcho s, (case early of None \<Rightarrow> None | Some r \<Rightarrow> map_option Start_Error r))))"

definition svc_Stop :: "base_service \<Rightarrow> base_service \<times> bool" where
  "svc_Stop s =
     (if bs_running s then (svc_call [On_Stop, Echo_Shutdown] (s\<lparr>bs_running := False\<rparr>), True) else (s, False))"

definition IsRunning :: "base_service \<Rightarrow> bool" where
  "IsRunning s = bs_running s"

definition svc_Auth :: "base_service \<Rightarrow> string \<Rightarrow> string \<Rightarrow> bool" where
  "svc_Auth s u p \<longleftrightarrow> u = Username (c_Auth (bs_Cfg s)) \<and> p = Password (c_Auth (bs_Cfg s))"

section \<open>The HTTP client (http.go)\<close>

record http_client =
  hc_insecure :: bool
  hc_Timeout :: int

record http_request =
  rq_Method :: string
  rq_URL :: string
  rq_Username :: string
  rq_Password :: string
  rq_ContentType :: string
  rq_Body :: string

text \<open>\<open>rs_Body\<close> is \<open>None\<close> when reading the body fails.\<close>

record http_response =
  rs_StatusCode :: int
  rs_ContentLength :: int
  rs_Body :: "string option"

datatype http_error = Bad_URL | Transport_Failed | Http_Status int | Body_Failed

definition CreateHTTPClient :: "config \<Rightarrow> http_client" where
  "CreateHTTPClient cfg = \<lparr>hc_insecure = (TLS (c_Net cfg) \<noteq> None), hc_Timeout = 0\<rparr>"

definition http_request :: "config \<Rightarrow> string \<Rightarrow> string \<Rightarrow> string \<Rightarrow> string \<Rightarrow> http_request" where
  "http_request cfg mth addr urlpath reqBody = \<lparr>rq_Method = mth, rq_URL = request_url cfg addr urlpath,
     rq_Username = Username (c_Auth cfg), rq_Password = Password (c_Auth cfg),
     rq_ContentType = ''application/json'', rq_Body = reqBody\<rparr>"

text \<open>\<open>doit\<close> is the transport, \<open>valid\<close> says whether \<open>http.NewRequest\<close> accepts a URL.\<close>

definition SendHTTPReqWithClient ::
  "(http_client \<Rightarrow> http_request \<Rightarrow> http_response option) \<Rightarrow> (string \<Rightarrow> bool) \<Rightarrow> http_client \<Rightarrow> config \<Rightarrow>
   string \<Rightarrow> string \<Rightarrow> string \<Rightarrow> string \<Rightarrow> http_error + string" where
  "SendHTTPReqWithClient doit valid client cfg mth addr urlpath reqBody =
     (let req = http_request cfg mth addr urlpath reqBody in
      if \<not> valid (rq_URL req) then Inl Bad_URL
      else case doit (client\<lparr>hc_Timeout := 2 * 1000000000\<rparr>) req of
        None \<Rightarrow> Inl Transport_Failed
      | Some resp \<Rightarrow>
          if rs_StatusCode resp > 300 then Inl (Http_Status (rs_StatusCode resp))
          else if rs_ContentLength resp > 0
          then (case rs_Body resp of None \<Rightarrow> Inl Body_Failed | Some b \<Rightarrow> Inr b)
          else Inr [])"

definition SendHTTPReq ::
  "(http_client \<Rightarrow> http_request \<Rightarrow> http_response option) \<Rightarrow> (string \<Rightarrow> bool) \<Rightarrow> config \<Rightarrow>
   string \<Rightarrow> string \<Rightarrow> string \<Rightarrow> string \<Rightarrow> http_error + string" where
  "SendHTTPReq doit valid cfg mth addr urlpath reqBody =
     SendHTTPReqWithClient doit valid (CreateHTTPClient cfg) cfg mth addr urlpath reqBody"

definition HTTPGet where
  "HTTPGet doit valid s addr urlpath = SendHTTPReq doit valid (bs_Cfg s) ''GET'' addr urlpath []"

definition HTTPPost where
  "HTTPPost doit valid s addr urlpath reqBody = SendHTTPReq doit valid (bs_Cfg s) ''POST'' addr urlpath reqBody"

definition HTTPDelete where
  "HTTPDelete doit valid s addr urlpath =
     (case SendHTTPReq doit valid (bs_Cfg s) ''DELETE'' addr urlpath [] of Inl err \<Rightarrow> Some err | Inr _ \<Rightarrow> None)"

section \<open>Reports (report.go)\<close>

record report_info =
  ri_serverAddr :: string
  ri_fileType :: int
  ri_gid :: int
  ri_version :: int
  ri_storageDir :: string
  ri_percentComplete :: rat

record reporter =
  rp_taskID :: string
  rp_cfg :: config
  rp_client :: http_client
  rp_chan :: "report_info list"
  rp_closed :: bool

definition newReporter :: "string \<Rightarrow> config \<Rightarrow> reporter" where
  "newReporter taskID cfg = \<lparr>rp_taskID = taskID, rp_cfg = cfg, rp_client = CreateHTTPClient cfg, rp_chan = [],
     rp_closed = False\<rparr>"

definition DoReport :: "reporter \<Rightarrow> string \<Rightarrow> int \<Rightarrow> int \<Rightarrow> int \<Rightarrow> string \<Rightarrow> rat \<Rightarrow> reporter run" where
  "DoReport r serverAddr fileType gid version storageDir pecent =
     run_bind (chan_send 20 (rp_closed r) (rp_chan r) \<lparr>ri_serverAddr = serverAddr, ri_fileType = fileType, ri_gid = gid,
         ri_version = version, ri_storageDir = storageDir, ri_percentComplete = pecent\<rparr>)
       (\<lambda>q. Ret (r\<lparr>rp_chan := q\<rparr>))"

definition reporter_Close :: "reporter \<Rightarrow> reporter run" where
  "reporter_Close r = (if rp_closed r then Panics else Ret (r\<lparr>rp_closed := True\<rparr>))"

text \<open>The report that is sent; its file type is never set.\<close>

definition reportOf :: "reporter \<Rightarrow> report_info \<Rightarrow> status_report" where
  "reportOf r ri = \<lparr>sr_TaskID = rp_taskID r, sr_IP = Host (c_Net (rp_cfg r)), sr_FileType = 0, sr_GID = ri_gid ri,
     sr_Version = ri_version ri, sr_StorageDir = ri_storageDir ri, sr_PercentComplete = ri_percentComplete ri\<rparr>"

text \<open>The request \<open>reportImp\<close> makes, if the report can be encoded; its answer is only logged.\<close>

definition reportImp :: "(status_report \<Rightarrow> string option) \<Rightarrow> reporter \<Rightarrow> report_info \<Rightarrow> http_request option" where
  "reportImp json r ri =
     (case json (reportOf r ri) of
        None \<Rightarrow> None
      | Some bs \<Rightarrow> Some (http_request (rp_cfg r) ''POST'' (ri_serverAddr ri) ''/api/v1/server/tasks/status'' bs))"

text \<open>What the goroutine sends for the reports it takes from the channel.\<close>

fun reporter_run :: "(status_report \<Rightarrow> string option) \<Rightarrow> reporter \<Rightarrow> report_info list \<Rightarrow> http_request list" where
  "reporter_run json r [] = []"
| "reporter_run json r (rc # rcs) =
     (case reportImp json r rc of None \<Rightarrow> [] | Some rq \<Rightarrow> [rq]) @ reporter_run json r rcs"

section \<open>Lemmas\<close>

text \<open>Start and stop alternate: a second start is refused and a second stop has no effect.\<close>

lemma svc_Start_twice: "fst (svc_Start a b (fst (svc_Start c d s))) = fst (svc_Start c d s)"
  by (auto simp: svc_Start_def svc_call_def initlog_def runEcho_def Let_def split: option.splits)

lemma svc_Stop_twice: "svc_Stop (fst (svc_Stop s)) = (fst (svc_Stop s), False)"
  by (simp add: svc_Stop_def svc_call_def)

text \<open>A service whose HTTP server could not start still counts as running.\<close>

lemma failed_start_running:
  "\<not> bs_running s \<Longrightarrow> svc_Start None (Some (Some err)) s = (s', x) \<Longrightarrow>
   x = Some (Start_Error err) \<and> IsRunning s' \<and> svc_Start None None s' = (s', Some Started_Already)"
  by (auto simp: svc_Start_def svc_call_def initlog_def runEcho_def Let_def IsRunning_def split: if_splits)

end
