(* ===== verification/Archive.thy ===== *)
theory Archive
  imports Cache Paths
begin

text \<open>
  \<open>common/archive.go\<close>: packing a file or a directory into a \<open>tar.gz\<close> file and unpacking it.

  A \<open>node\<close> is what the operating system shows of a path that is read: the file information, a
  flag that says whether it can be opened, and the content, or the entries in the order of
  \<open>Readdir\<close>.  Symbolic links are not modelled, and the archive is not written inside the packed
  directory.  A \<open>file_system\<close> maps the place of a file, the names from the root down to it, to what is
  there.  A path is looked up the way the operating system does it: name after name, each in a
  directory that exists, so that \<open>x/..\<close> leads nowhere when there is no directory \<open>x\<close>.

  Of \<open>archive/tar\<close> and \<open>compress/gzip\<close> the model has what the code uses: a tar writer is the
  entries written so far, and refuses a header while bytes of the last entry are missing; \<open>enc\<close>
  and \<open>dec\<close> are the byte formats, where the flag says that the archive has its end marker.
\<close>

section \<open>Files\<close>

datatype node = Node_File u32 bool bytes | Node_Dir u32 bool "(string \<times> node) list"

datatype fs_entry = FS_File u32 int int bytes | FS_Dir u32 int int

type_synonym file_system = "string list \<Rightarrow> fs_entry option"

record os_env =
  oe_cwd :: string
  oe_umask :: u32
  oe_uid :: int
  oe_gid :: int
  oe_denied :: "string list \<Rightarrow> bool"

definition ModePerm :: u32 where
  "ModePerm = 511"

definition Perm :: "u32 \<Rightarrow> u32" where
  "Perm m = m AND ModePerm"

definition fs_isDir :: "file_system \<Rightarrow> string list \<Rightarrow> bool" where
  "fs_isDir fs q \<longleftrightarrow> q = [] \<or> (case fs q of Some (FS_Dir _ _ _) \<Rightarrow> True | _ \<Rightarrow> False)"

definition fs_exists :: "file_system \<Rightarrow> string list \<Rightarrow> bool" where
  "fs_exists fs q \<longleftrightarrow> q = [] \<or> fs q \<noteq> None"

text \<open>The elements of a path, and the place they lead to.\<close>

definition os_path :: "os_env \<Rightarrow> string \<Rightarrow> string list" where
  "os_path e p = pieces (if path_IsAbs p then p else oe_cwd e @ slash # p)"

definition step_to :: "string list \<Rightarrow> string \<Rightarrow> string list" where
  "step_to q c = (if c = [] \<or> c = dot then q else if c = dotdot then butlast q else q @ [c])"

fun walk :: "file_system \<Rightarrow> string list \<Rightarrow> string list \<Rightarrow> string list option" where
  "walk fs q [] = Some q"
| "walk fs q (c # cs) = (if fs_isDir fs q then walk fs (step_to q c) cs else None)"

definition locate :: "os_env \<Rightarrow> file_system \<Rightarrow> string \<Rightarrow> string list option" where
  "locate e fs p = (if p = [] then None else walk fs [] (os_path e p))"

text \<open>Whether \<open>Stat\<close> fails because something is missing (and not because a file is in the way).\<close>

fun walk_missing :: "file_system \<Rightarrow> string list \<Rightarrow> string list \<Rightarrow> bool" where
  "walk_missing fs q [] = (\<not> fs_exists fs q)"
| "walk_missing fs q (c # cs) =
     (if fs_isDir fs q then walk_missing fs (step_to q c) cs else \<not> fs_exists fs q)"

definition os_NotExist :: "os_env \<Rightarrow> file_system \<Rightarrow> string \<Rightarrow> bool" where
  "os_NotExist e fs p \<longleftrightarrow> p = [] \<or> walk_missing fs [] (os_path e p)"

text \<open>The system calls at a place, and then for a path; the flag is whether the call succeeds.\<close>

definition mkdir_at :: "os_env \<Rightarrow> file_system \<Rightarrow> string list \<Rightarrow> u32 \<Rightarrow> file_system \<times> bool" where
  "mkdir_at e fs q perm =
     (if fs_exists fs q \<or> \<not> fs_isDir fs (butlast q) \<or> oe_denied e q then (fs, False)
      else (fs(q \<mapsto> FS_Dir (perm AND NOT (oe_umask e)) (oe_uid e) (oe_gid e)), True))"

definition chmod_at :: "os_env \<Rightarrow> file_system \<Rightarrow> string list \<Rightarrow> u32 \<Rightarrow> file_system" where
  "chmod_at e fs q perm =
     (if oe_denied e q then fs
      else case fs q of
        None \<Rightarrow> fs
      | Some (FS_File _ u g c) \<Rightarrow> fs(q \<mapsto> FS_File perm u g c)
      | Some (FS_Dir _ u g) \<Rightarrow> fs(q \<mapsto> FS_Dir perm u g))"

definition chown_at :: "os_env \<Rightarrow> file_system \<Rightarrow> string list \<Rightarrow> int \<Rightarrow> int \<Rightarrow> file_system" where
  "chown_at e fs q uid gid =
     (if oe_denied e q then fs
      else case fs q of
        None \<Rightarrow> fs
      | Some (FS_File p _ _ c) \<Rightarrow> fs(q \<mapsto> FS_File p uid gid c)
      | Some (FS_Dir p _ _) \<Rightarrow> fs(q \<mapsto> FS_Dir p uid gid))"

text \<open>Create or truncate a file, and then write \<open>c\<close> to it.\<close>

definition create_at :: "os_env \<Rightarrow> file_system \<Rightarrow> string list \<Rightarrow> bytes \<Rightarrow> file_system \<times> bool" where
  "create_at e fs q c =
     (if fs_isDir fs q \<or> \<not> fs_isDir fs (butlast q) \<or> oe_denied e q then (fs, False)
      else case fs q of
        Some (FS_File p u g _) \<Rightarrow> (fs(q \<mapsto> FS_File p u g c), True)
      | _ \<Rightarrow> (fs(q \<mapsto> FS_File (438 AND NOT (oe_umask e)) (oe_uid e) (oe_gid e) c), True))"

definition os_Mkdir :: "os_env \<Rightarrow> file_system \<Rightarrow> string \<Rightarrow> u32 \<Rightarrow> file_system \<times> bool" where
  "os_Mkdir e fs p perm = (case locate e fs p of None \<Rightarrow> (fs, False) | Some q \<Rightarrow> mkdir_at e fs q perm)"

definition os_Chmod :: "os_env \<Rightarrow> file_system \<Rightarrow> string \<Rightarrow> u32 \<Rightarrow> file_system" where
  "os_Chmod e fs p perm = (case locate e fs p of None \<Rightarrow> fs | Some q \<Rightarrow> chmod_at e fs q perm)"

definition os_Chown :: "os_env \<Rightarrow> file_system \<Rightarrow> string \<Rightarrow> int \<Rightarrow> int \<Rightarrow> file_system" where
  "os_Chown e fs p uid gid = (case locate e fs p of None \<Rightarrow> fs | Some q \<Rightarrow> chown_at e fs q uid gid)"

definition os_Create :: "os_env \<Rightarrow> file_system \<Rightarrow> string \<Rightarrow> bytes \<Rightarrow> file_system \<times> bool" where
  "os_Create e fs p c = (case locate e fs p of None \<Rightarrow> (fs, False) | Some q \<Rightarrow> create_at e fs q c)"

text \<open>\<open>MkdirAll\<close> makes the parent of a path, as it is written, before the path itself, and goes on
  where \<open>Mkdir\<close> fails on a directory that is there, such as the one \<open>x/..\<close> leads to.\<close>

fun mkdirs :: "os_env \<Rightarrow> file_system \<Rightarrow> string list \<Rightarrow> string list \<Rightarrow> u32 \<Rightarrow> file_system \<times> bool" where
  "mkdirs e fs q [] perm = (fs, True)"
| "mkdirs e fs q (c # cs) perm =
     (if fs_isDir fs (step_to q c) then mkdirs e fs (step_to q c) cs perm
      else case mkdir_at e fs (step_to q c) perm of
        (fs, True) \<Rightarrow> mkdirs e fs (step_to q c) cs perm
      | (fs, False) \<Rightarrow> (fs, False))"

definition os_MkdirAll :: "os_env \<Rightarrow> file_system \<Rightarrow> string \<Rightarrow> u32 \<Rightarrow> file_system \<times> bool" where
  "os_MkdirAll e fs p perm = (if p = [] then (fs, False) else mkdirs e fs [] (os_path e p) perm)"

section \<open>Packing\<close>

record tar_header =
  hd_Name :: string
  hd_dir :: bool
  hd_Size :: int
  hd_Mode :: int

type_synonym tar_entry = "tar_header \<times> bytes"

definition tw_missing :: "tar_entry list \<Rightarrow> int" where
  "tw_missing tw = (if tw = [] then 0 else hd_Size (fst (last tw)) - int (length (snd (last tw))))"

definition WriteHeader :: "tar_header \<Rightarrow> tar_entry list \<Rightarrow> tar_entry list" where
  "WriteHeader h tw = (if tw_missing tw > 0 then tw else tw @ [(h, [])])"

definition tw_Write :: "bytes \<Rightarrow> tar_entry list \<Rightarrow> tar_entry list" where
  "tw_Write b tw = (if tw = [] then tw
     else butlast tw @ [(fst (last tw), snd (last tw) @ take (nat (tw_missing tw)) b)])"

fun tarGzFile :: "string \<Rightarrow> node \<Rightarrow> tar_entry list \<Rightarrow> tar_entry list" where
  "tarGzFile recPath (Node_Dir mode _ _) tw =
     WriteHeader \<lparr>hd_Name = recPath @ [slash], hd_dir = True, hd_Size = 0, hd_Mode = uint mode\<rparr> tw"
| "tarGzFile recPath (Node_File mode opens content) tw =
     (let tw = WriteHeader \<lparr>hd_Name = recPath, hd_dir = False, hd_Size = int (length content),
        hd_Mode = uint mode\<rparr> tw
      in if opens then tw_Write content tw else tw)"

function tarGzDir :: "string \<Rightarrow> (string \<times> node) list \<Rightarrow> tar_entry list \<Rightarrow> tar_entry list" where
  "tarGzDir recPath [] tw = tw"
| "tarGzDir recPath ((name, Node_Dir mode opens fis) # rest) tw =
     tarGzDir recPath rest (tarGzFile (recPath @ slash # name) (Node_Dir mode opens fis)
       (tarGzDir (recPath @ slash # name) (if opens then fis else []) tw))"
| "tarGzDir recPath ((name, Node_File mode opens content) # rest) tw =
     tarGzDir recPath rest (tarGzFile (recPath @ slash # name) (Node_File mode opens content) tw)"
  by pat_completeness auto
termination by (relation "measure (\<lambda>(_, fis, _). size_list (size_prod (\<lambda>_. 0) size) fis)") auto

text \<open>The entries \<open>TarGz\<close> writes for the node at the source path.\<close>

definition tar_of :: "string \<Rightarrow> node \<Rightarrow> tar_entry list" where
  "tar_of srcDirPath n = (case n of
     Node_Dir _ opens fis \<Rightarrow> tarGzDir (path_Base srcDirPath) (if opens then fis else []) []
   | Node_File _ _ _ \<Rightarrow> tarGzFile (path_Base srcDirPath) n [])"

text \<open>
  \<open>src\<close> is what is at the source path.  When it cannot be opened, the code logs the error and
  uses the nil file.  A destination that cannot be created is only logged.
\<close>

definition TarGz ::
  "(tar_entry list \<times> bool \<Rightarrow> bytes) \<Rightarrow> os_env \<Rightarrow> node option \<Rightarrow> file_system \<Rightarrow> string \<Rightarrow> string \<Rightarrow> file_system run" where
  "TarGz enc e src fs srcDirPath destFilePath =
     (let (fs, _) = os_Create e fs destFilePath [] in
      case src of
        None \<Rightarrow> Panics
      | Some n \<Rightarrow>
          if \<not> (case n of Node_Dir _ opens _ \<Rightarrow> opens | Node_File _ opens _ \<Rightarrow> opens) then Panics
          else (let tw = tar_of srcDirPath n in
            Ret (fst (os_Create e fs destFilePath (enc (tw, tw_missing tw = 0))))))"

section \<open>Unpacking\<close>

datatype ar_error = Create_Error | Unexpected_EOF

definition unTarFile :: "os_env \<Rightarrow> file_system \<Rightarrow> string \<Rightarrow> tar_entry \<Rightarrow> file_system \<times> ar_error option" where
  "unTarFile e fs dstFile ent =
     (case os_Create e fs dstFile (snd ent) of
        (fs, False) \<Rightarrow> (fs, Some Create_Error)
      | (fs, True) \<Rightarrow> (fs, if int (length (snd ent)) < hd_Size (fst ent) then Some Unexpected_EOF else None))"

definition hdr_perm :: "tar_header \<Rightarrow> u32" where
  "hdr_perm h = Perm (word_of_int (hd_Mode h))"

text \<open>What happens to the path of an entry after its directory or file was made.\<close>

definition set_owner :: "os_env \<Rightarrow> int \<Rightarrow> int \<Rightarrow> tar_header \<Rightarrow> string \<Rightarrow> file_system \<Rightarrow> file_system" where
  "set_owner e uid gid h dst fs =
     os_Chown e (os_Chmod e fs dst (hdr_perm h)) dst uid gid"

text \<open>The loop over the entries; the flag says whether the reader ends with \<open>io.EOF\<close>.  After any
  other error the code goes on with the nil header.\<close>

fun unTarLoop ::
  "os_env \<Rightarrow> string \<Rightarrow> int \<Rightarrow> int \<Rightarrow> file_system \<Rightarrow> tar_entry list \<Rightarrow> bool \<Rightarrow> (file_system \<times> ar_error option) run" where
  "unTarLoop e destDirPath uid gid fs [] ended = (if ended then Ret (fs, None) else Panics)"
| "unTarLoop e destDirPath uid gid fs (ent # ents) ended =
     (let h = fst ent; dst = destDirPath @ slash # hd_Name h in
      if hd_dir h
      then unTarLoop e destDirPath uid gid
        (set_owner e uid gid h dst (fst (os_MkdirAll e fs dst (hdr_perm h)))) ents ended
      else case unTarFile e (fst (os_MkdirAll e fs (path_Dir dst) ModePerm)) dst ent of
        (fs, Some er) \<Rightarrow> Ret (fs, Some er)
      | (fs, None) \<Rightarrow> unTarLoop e destDirPath uid gid (set_owner e uid gid h dst fs) ents ended)"

definition UnTarGz ::
  "(bytes \<Rightarrow> (tar_entry list \<times> bool) option) \<Rightarrow> os_env \<Rightarrow> file_system \<Rightarrow> string \<Rightarrow> string \<Rightarrow> int \<Rightarrow> int \<Rightarrow>
   (file_system \<times> ar_error option) run" where
  "UnTarGz dec e fs srcFilePath destDirPath uid gid =
     (let fs = (if \<not> os_NotExist e fs destDirPath then fst (os_Mkdir e fs destDirPath ModePerm) else fs)
      in case locate e fs srcFilePath of
        None \<Rightarrow> Panics
      | Some q \<Rightarrow>
          (case fs q of
             Some (FS_File _ _ _ c) \<Rightarrow>
               (if oe_denied e q then Panics
                else case dec c of
                  None \<Rightarrow> Panics
                | Some (ents, ended) \<Rightarrow> unTarLoop e destDirPath uid gid fs ents ended)
           | _ \<Rightarrow> Panics))"

end
