(* ===== verification/ArchiveProps.thy ===== *)
theory ArchiveProps
  imports Archive Meta "HOL-Library.Sublist"
begin

text \<open>
  What packing and unpacking promise: the unpacked tree is the packed one.  \<open>fis_at\<close> looks a path
  up in the entries of a directory, \<open>rows\<close> lists its files and directories in the order they are
  archived, \<open>ext_row\<close> is what the extraction of one of them does to the file system.
\<close>

section \<open>Directory trees\<close>

definition plain :: "string \<Rightarrow> bool" where
  "plain c \<longleftrightarrow> clean_elem c \<and> c \<noteq> dotdot"

text \<open>Every entry can be opened, names are plain and occur once per directory.\<close>

function good_fis :: "(string \<times> node) list \<Rightarrow> bool" where
  "good_fis [] = True"
| "good_fis ((c, Node_Dir m opens fis) # rest) =
     (plain c \<and> c \<notin> fst ` set rest \<and> opens \<and> good_fis fis \<and> good_fis rest)"
| "good_fis ((c, Node_File m opens b) # rest) = (plain c \<and> c \<notin> fst ` set rest \<and> opens \<and> good_fis rest)"
  by pat_completeness auto
termination by (relation "measure (size_list (size_prod (\<lambda>_. 0) size))") auto

fun fis_at :: "(string \<times> node) list \<Rightarrow> string list \<Rightarrow> node option" where
  "fis_at fis [] = None"
| "fis_at fis (c # q) = (case map_of fis c of
     None \<Rightarrow> None
   | Some n \<Rightarrow> if q = [] then Some n
     else (case n of Node_Dir _ _ fis' \<Rightarrow> fis_at fis' q | Node_File _ _ _ \<Rightarrow> None))"

function rows :: "(string \<times> node) list \<Rightarrow> (string list \<times> node) list" where
  "rows [] = []"
| "rows ((c, Node_Dir m opens fis) # rest) =
     map (\<lambda>r. (c # fst r, snd r)) (rows fis) @ ([c], Node_Dir m opens fis) # rows rest"
| "rows ((c, Node_File m opens b) # rest) = ([c], Node_File m opens b) # rows rest"
  by pat_completeness auto
termination by (relation "measure (size_list (size_prod (\<lambda>_. 0) size))") auto

definition row_name :: "string \<Rightarrow> string list \<Rightarrow> string" where
  "row_name b q = b @ concat (map ((#) slash) q)"

fun row_entry :: "string \<Rightarrow> string list \<times> node \<Rightarrow> tar_entry" where
  "row_entry b (q, Node_Dir m _ _) =
     (\<lparr>hd_Name = row_name b q @ [slash], hd_dir = True, hd_Size = 0, hd_Mode = uint m\<rparr>, [])"
| "row_entry b (q, Node_File m _ c) =
     (\<lparr>hd_Name = row_name b q, hd_dir = False, hd_Size = int (length c), hd_Mode = uint m\<rparr>, c)"

lemma under_iff [simp]: "(q, n) \<in> (\<lambda>r. (c # fst r, snd r)) ` S \<longleftrightarrow> (\<exists>p. q = c # p \<and> (p, n) \<in> S)"
  by force

lemma row_name_Cons: "row_name b (c # q) = row_name (b @ slash # c) q"
  by (simp add: row_name_def)

lemma row_entry_Cons: "row_entry b (c # q, n) = row_entry (b @ slash # c) (q, n)"
  by (cases n) (simp_all add: row_name_Cons)

lemma row_name_Nil [simp]: "row_name b [] = b"
  by (simp add: row_name_def)

lemma row_complete: "tw_missing (tw @ [row_entry b r]) = 0"
  by (cases r; cases "snd r") (auto simp: tw_missing_def)

lemma tarGzFile_row:
  assumes "tw_missing tw = 0" "case n of Node_File _ opens _ \<Rightarrow> opens | _ \<Rightarrow> True"
  shows "tarGzFile b n tw = tw @ [row_entry b ([], n)]"
  using assms by (cases n) (simp_all add: WriteHeader_def tw_Write_def tw_missing_def)

lemma tarGzDir_rows:
  "good_fis fis \<Longrightarrow> tw_missing tw = 0 \<Longrightarrow> tarGzDir b fis tw = tw @ map (row_entry b) (rows fis)"
proof (induction b fis tw rule: tarGzDir.induct)
  case (2 b c m opens fis rest tw)
  let ?tw = "tw @ map (row_entry (b @ slash # c)) (rows fis)"
  have z: "tw_missing ?tw = 0"
    by (cases "rows fis" rule: rev_cases) (use 2(4) in \<open>simp_all add: row_complete flip: append_assoc\<close>)
  have i: "tarGzDir (b @ slash # c) (if opens then fis else []) tw = ?tw"
    using 2 by simp
  have f: "tarGzFile (b @ slash # c) (Node_Dir m opens fis) ?tw
    = ?tw @ [row_entry (b @ slash # c) ([], Node_Dir m opens fis)]"
    using z by (intro tarGzFile_row) simp_all
  have "tarGzDir b ((c, Node_Dir m opens fis) # rest) tw =
    (?tw @ [row_entry (b @ slash # c) ([], Node_Dir m opens fis)]) @ map (row_entry b) (rows rest)"
    unfolding tarGzDir.simps i f
    by (rule 2(2) [unfolded i f]) (use 2(3) in simp, rule row_complete)
  moreover have "row_entry b (c # fst r, snd r) = row_entry (b @ slash # c) r" for r
    by (cases r) (simp only: row_entry_Cons fst_conv snd_conv)
  ultimately show ?case by (simp add: row_entry_Cons comp_def del: row_entry.simps)
next
  case (3 b c m opens x rest tw)
  have f: "tarGzFile (b @ slash # c) (Node_File m opens x) tw
    = tw @ [row_entry (b @ slash # c) ([], Node_File m opens x)]"
    using 3 by (intro tarGzFile_row) simp_all
  have "tarGzDir b ((c, Node_File m opens x) # rest) tw =
    (tw @ [row_entry (b @ slash # c) ([], Node_File m opens x)]) @ map (row_entry b) (rows rest)"
    unfolding tarGzDir.simps f by (rule 3(1) [unfolded f]) (use 3(2) in simp, rule row_complete)
  then show ?case by (simp add: row_entry_Cons del: row_entry.simps)
qed simp

lemma rows_ne: "(q, n) \<in> set (rows fis) \<Longrightarrow> q \<noteq> []"
  by (induction fis rule: rows.induct) auto

lemma rows_hd: "(c # q, n) \<in> set (rows fis) \<Longrightarrow> c \<in> fst ` set fis"
  by (induction fis rule: rows.induct) (auto dest: rows_ne)

lemma rows_at: "good_fis fis \<Longrightarrow> (q, n) \<in> set (rows fis) \<longleftrightarrow> fis_at fis q = Some n"
proof (induction fis arbitrary: q rule: rows.induct)
  case 1
  then show ?case by (cases q) simp_all
next
  case (2 c m opens fis rest)
  show ?case
  proof (cases q)
    case (Cons d p)
    show ?thesis
    proof (cases "d = c")
      case True
      have "(c # p, n) \<notin> set (rows rest)" using 2(3) rows_hd by fastforce
      then show ?thesis using 2 True Cons rows_ne [of "[]" _ fis] by (cases "p = []") (auto)
    next
      case False
      then show ?thesis using 2 Cons by auto
    qed
  qed (auto dest: rows_ne)
next
  case (3 c m opens b rest)
  show ?case
  proof (cases q)
    case (Cons d p)
    have "d = c \<Longrightarrow> (d # p, n) \<notin> set (rows rest)" using 3(2) rows_hd by fastforce
    then show ?thesis using 3 Cons by (cases "d = c"; cases "p = []") (auto simp: image_iff)
  qed (auto dest: rows_ne)
qed

lemma rows_distinct: "good_fis fis \<Longrightarrow> distinct (map fst (rows fis))"
proof (induction fis rule: rows.induct)
  case (2 c m opens fis rest)
  have "(c # q, n) \<notin> set (rows rest)" for q n using 2(3) rows_hd by fastforce
  moreover have m: "map fst (map (\<lambda>r. (c # fst r, snd r)) (rows fis)) = map ((#) c) (map fst (rows fis))"
    by (simp add: comp_def)
  moreover have "distinct (map ((#) c) (map fst (rows fis)))"
    using 2 by (simp only: distinct_map [of "(#) c"]) simp
  ultimately show ?case using 2(3) 2(2) rows_ne [of "[]" _ fis]
    unfolding rows.simps map_append m distinct_append by auto
next
  case (3 c m opens b rest)
  have "([c], n) \<notin> set (rows rest)" for n using 3(2) rows_hd by fastforce
  then show ?case using 3 by auto
qed simp

lemma fis_at_prefix:
  "fis_at fis q = Some n \<Longrightarrow> fis_at fis (q @ r) = Some n' \<Longrightarrow> r \<noteq> [] \<Longrightarrow> \<exists>m opens fs. n = Node_Dir m opens fs"
proof (induction fis q rule: fis_at.induct)
  case (2 fis c q)
  then show ?case by (cases "q = []") (auto split: option.splits node.splits)
qed simp

lemma fis_at_plain: "good_fis fis \<Longrightarrow> fis_at fis q = Some n \<Longrightarrow> \<forall>c \<in> set q. plain c"
proof -
  have "(q, n) \<in> set (rows fis) \<Longrightarrow> good_fis fis \<Longrightarrow> \<forall>c \<in> set q. plain c" for q n
    by (induction fis arbitrary: q rule: rows.induct) auto
  then show "good_fis fis \<Longrightarrow> fis_at fis q = Some n \<Longrightarrow> \<forall>c \<in> set q. plain c" using rows_at by blast
qed

section \<open>Paths\<close>

lemma pieces_row: "slash \<notin> set b \<Longrightarrow> \<forall>c \<in> set q. slash \<notin> set c \<Longrightarrow> pieces (row_name b q) = b # q"
proof (induction q arbitrary: b)
  case (Cons c q)
  have "row_name b (c # q) = b @ slash # row_name c q" by (simp add: row_name_def)
  then show ?case using Cons by (simp add: pieces_append)
qed (simp add: pieces_no_slash)

lemma clean_stack_plain: "\<forall>c \<in> set q. plain c \<Longrightarrow> clean_stack r out q = rev q @ out"
  by (induction q arbitrary: out) (auto simp: plain_def clean_elem_def)

lemma clean_stack_blank: "clean_stack r out (q @ [[]]) = clean_stack r out q"
  by (simp add: clean_stack_append)

lemma plain_no_slash: "\<forall>c \<in> set q. plain c \<Longrightarrow> \<forall>c \<in> set q. slash \<notin> set c"
  by (auto simp: plain_def clean_elem_def)

text \<open>The lexical reading of a path, and the elements that stay when there is no \<open>..\<close> in it.\<close>

definition resolve :: "os_env \<Rightarrow> string \<Rightarrow> string list" where
  "resolve e p = rev (clean_stack True [] (os_path e p))"

definition kept :: "string list \<Rightarrow> string list" where
  "kept cs = filter (\<lambda>c. c \<noteq> [] \<and> c \<noteq> dot) cs"

lemma kept_simps [simp]:
  "kept [] = []" "kept (c # cs) = (if c = [] \<or> c = dot then kept cs else c # kept cs)"
  "kept (xs @ ys) = kept xs @ kept ys"
  by (simp_all add: kept_def)

lemma plain_elem: "plain c \<Longrightarrow> c \<noteq> [] \<and> c \<noteq> dot \<and> c \<noteq> dotdot \<and> slash \<notin> set c"
  by (simp add: plain_def clean_elem_def)

lemma kept_plain: "\<forall>c \<in> set q. plain c \<Longrightarrow> kept q = q \<and> dotdot \<notin> set q"
  by (induction q) (auto simp: plain_def clean_elem_def)

lemma clean_stack_kept: "dotdot \<notin> set cs \<Longrightarrow> clean_stack r out cs = rev (kept cs) @ out"
  by (induction cs arbitrary: out) auto

lemma resolve_kept: "dotdot \<notin> set (os_path e p) \<Longrightarrow> resolve e p = kept (os_path e p)"
  by (simp add: resolve_def clean_stack_kept)

lemma os_path_abs: "path_IsAbs p \<Longrightarrow> os_path e p = pieces p"
  by (simp add: os_path_def)

lemma os_path_below:
  assumes "path_IsAbs dest"
  shows "os_path e (dest @ slash # x) = pieces dest @ pieces x"
proof -
  have "path_IsAbs (dest @ slash # x)" using assms by (cases dest) simp_all
  then show ?thesis by (simp add: os_path_abs pieces_join)
qed

text \<open>Looking up: what is walked over are directories, and without symbolic links the place found is
  the one the lexical reading gives.\<close>

lemma walk_append: "walk fs q (a @ b) = Option.bind (walk fs q a) (\<lambda>r. walk fs r b)"
  by (induction a arbitrary: q) auto

lemma walk_mono:
  "\<forall>x. fs_isDir fs x \<longrightarrow> fs_isDir fs' x \<Longrightarrow> walk fs q cs = Some r \<Longrightarrow> walk fs' q cs = Some r"
  by (induction cs arbitrary: q) (auto split: if_splits)

lemma walk_snoc: "walk fs q cs = Some r \<Longrightarrow> fs_isDir fs r \<Longrightarrow> walk fs q (cs @ [c]) = Some (step_to r c)"
  by (simp add: walk_append)

lemma step_kept: "dotdot \<noteq> c \<Longrightarrow> step_to q c @ kept cs = q @ kept (c # cs)"
  by (auto simp: step_to_def)

lemma walk_cong_prefix:
  "dotdot \<notin> set cs \<Longrightarrow> \<forall>x. prefix x (q @ kept cs) \<longrightarrow> fs_isDir fs x = fs_isDir fs' x \<Longrightarrow> walk fs q cs = walk fs' q cs"
proof (induction cs arbitrary: q)
  case (Cons c cs)
  have "fs_isDir fs q = fs_isDir fs' q" using Cons.prems(2) by simp
  moreover have "step_to q c @ kept cs = q @ kept (c # cs)" using Cons.prems(1) by (intro step_kept) auto
  ultimately show ?case using Cons.IH [of "step_to q c"] Cons.prems by simp
qed simp

lemma walk_kept: "dotdot \<notin> set cs \<Longrightarrow> walk fs q cs = Some r \<Longrightarrow> r = q @ kept cs"
proof (induction cs arbitrary: q)
  case (Cons c cs)
  have "step_to q c @ kept cs = q @ kept (c # cs)" using Cons.prems(1) by (intro step_kept) auto
  moreover have "walk fs (step_to q c) cs = Some r" using Cons.prems(2) by (simp split: if_splits)
  then have "r = step_to q c @ kept cs" using Cons.IH Cons.prems(1) by simp
  ultimately show ?case by (simp only:)
qed simp

lemma walk_dirs:
  "dotdot \<notin> set cs \<Longrightarrow> \<forall>x. prefix x (q @ kept cs) \<longrightarrow> fs_isDir fs x \<Longrightarrow> walk fs q cs = Some (q @ kept cs)"
proof (induction cs arbitrary: q)
  case (Cons c cs)
  have "fs_isDir fs q" using Cons.prems(2) by simp
  moreover have "step_to q c @ kept cs = q @ kept (c # cs)" using Cons.prems(1) by (intro step_kept) auto
  ultimately show ?case using Cons.IH [of "step_to q c"] Cons.prems by simp
qed simp

lemma walk_clean:
  "dotdot \<notin> set q \<Longrightarrow> walk fs q cs = Some r \<Longrightarrow> clean_stack True (rev q) cs = rev r"
proof (induction cs arbitrary: q)
  case (Cons c cs)
  have w: "walk fs (step_to q c) cs = Some r" using Cons.prems(2) by (simp split: if_splits)
  have "dotdot \<notin> set (step_to q c)" using Cons.prems(1) by (auto simp: step_to_def dest: in_set_butlastD)
  then have "clean_stack True (rev (step_to q c)) cs = rev r" using Cons.IH w by blast
  moreover have "clean_stack True (rev q) (c # cs) = clean_stack True (rev (step_to q c)) cs"
    using Cons.prems(1) by (cases q rule: rev_cases) (auto simp: step_to_def)
  ultimately show ?case by simp
qed simp

lemma walk_prefixes:
  "\<forall>x. strict_prefix x q \<longrightarrow> fs_isDir fs x \<Longrightarrow> walk fs q cs = Some r \<Longrightarrow> strict_prefix x r \<Longrightarrow> fs_isDir fs x"
proof (induction cs arbitrary: q)
  case (Cons c cs)
  have d: "fs_isDir fs q" "walk fs (step_to q c) cs = Some r" using Cons.prems(2) by (simp_all split: if_splits)
  have "strict_prefix x q \<or> x = q" if "strict_prefix x (step_to q c)" for x
    using that by (auto simp: step_to_def strict_prefix_def prefix_snoc dest: prefix_order.trans [OF _ prefixeq_butlast]
        split: if_splits)
  then show ?case using Cons.IH [OF _ d(2) Cons.prems(3)] Cons.prems(1) d(1) by blast
qed simp

lemma locate_resolve: "locate e fs p = Some q \<Longrightarrow> q = resolve e p"
  using walk_clean [of "[]" fs "os_path e p" q] by (simp add: locate_def resolve_def split: if_splits)

lemma locate_prefixes: "locate e fs p = Some q \<Longrightarrow> strict_prefix x q \<Longrightarrow> fs_isDir fs x"
  using walk_prefixes [of "[]" fs "os_path e p" q x] by (simp add: locate_def split: if_splits)

lemma locate_mono:
  "\<forall>x. fs_isDir fs x \<longrightarrow> fs_isDir fs' x \<Longrightarrow> locate e fs p = Some q \<Longrightarrow> locate e fs' p = Some q"
  using walk_mono by (auto simp: locate_def split: if_splits)

lemma pieces_row_slash:
  assumes "plain b" "\<forall>c \<in> set q. plain c"
  shows "pieces (row_name b q) = b # q" "pieces (row_name b q @ [slash]) = b # q @ [[]]"
proof -
  have s: "slash \<notin> set b" "\<forall>c \<in> set q. slash \<notin> set c" using assms plain_no_slash by (auto simp: plain_def clean_elem_def)
  show "pieces (row_name b q) = b # q" by (rule pieces_row [OF s])
  then show "pieces (row_name b q @ [slash]) = b # q @ [[]]" using pieces_join [of "row_name b q" "[]"] by simp
qed

lemma clean_out_up: "clean_out True out \<Longrightarrow> d \<in> set out \<Longrightarrow> d \<noteq> dotdot"
  by (induction out) auto

lemma os_path_Clean:
  assumes "path_IsAbs p"
  shows "path_Clean p \<noteq> []" "dotdot \<notin> set (os_path e (path_Clean p))"
    "kept (os_path e (path_Clean p)) = resolve e p"
proof -
  define ks where "ks = rev (clean_stack True [] (pieces p))"
  have co: "clean_out True (rev ks @ [])" using clean_kept by (simp add: ks_def)
  then have el: "\<forall>k \<in> set ks. clean_elem k \<and> k \<noteq> dotdot" using clean_out_elem clean_out_up by fastforce
  then have "pieces (unpieces ks) = (if ks = [] then [[]] else ks)"
    by (cases "ks = []") (auto simp: pieces_unpieces clean_elem_def)
  moreover have "path_Clean p = slash # unpieces ks" using assms by (simp add: path_Clean_def Let_def ks_def)
  ultimately have o: "path_Clean p \<noteq> []" "os_path e (path_Clean p) = [] # (if ks = [] then [[]] else ks)"
    by (simp_all add: os_path_def)
  have "kept ks = ks" "resolve e p = ks"
    using el kept_plain [of ks] assms by (simp_all add: plain_def resolve_def os_path_abs ks_def)
  then show "path_Clean p \<noteq> []" "dotdot \<notin> set (os_path e (path_Clean p))"
    "kept (os_path e (path_Clean p)) = resolve e p" using o el by auto
qed

lemma path_Split_last: "slash \<notin> set f \<Longrightarrow> path_Split (x @ slash # f) = (x @ [slash], f)"
proof -
  assume "slash \<notin> set f"
  then have "\<And>c. c \<in> set (rev f) \<Longrightarrow> c \<noteq> slash" by auto
  then have "takeWhile (\<lambda>c. c \<noteq> slash) (rev f @ slash # rev x) = rev f"
    by (subst takeWhile_append2) simp_all
  then show ?thesis by (simp add: path_Split_def Let_def)
qed

lemma Dir_below:
  assumes "path_IsAbs dest" "plain b" "\<forall>c \<in> set q. plain c" "q \<noteq> []" "dotdot \<notin> set (pieces dest)"
  shows "path_Dir (dest @ slash # row_name b q) \<noteq> []"
    "dotdot \<notin> set (os_path e (path_Dir (dest @ slash # row_name b q)))"
    "kept (os_path e (path_Dir (dest @ slash # row_name b q))) = resolve e dest @ b # butlast q"
proof -
  obtain q' f where q: "q = q' @ [f]" using assms(4) by (cases q rule: rev_cases) auto
  have f: "slash \<notin> set f" using assms(3) q by (simp add: plain_def clean_elem_def)
  have "dest @ slash # row_name b q = (dest @ slash # row_name b q') @ slash # f" by (simp add: row_name_def q)
  then have d: "path_Dir (dest @ slash # row_name b q) = path_Clean (dest @ slash # row_name b q' @ [slash])"
    using path_Split_last [OF f, of "dest @ slash # row_name b q'"] by (simp add: path_Dir_def)
  have a: "path_IsAbs (dest @ slash # row_name b q' @ [slash])" using assms(1) by (cases dest) simp_all
  have pl: "\<forall>c \<in> set (b # q'). plain c" using assms(2,3) q by simp
  have o: "os_path e (dest @ slash # row_name b q' @ [slash]) = pieces dest @ (b # q') @ [[]]"
    using pieces_row_slash(2) [of b q'] pl by (simp add: os_path_below [OF assms(1)])
  then have "resolve e (dest @ slash # row_name b q' @ [slash]) = kept (pieces dest) @ b # q'"
    using kept_plain [of q'] plain_elem [OF assms(2)] pl assms(5) by (auto simp: resolve_kept)
  moreover have "resolve e dest = kept (pieces dest)" using assms(1,5) by (simp add: resolve_kept os_path_abs)
  ultimately show "path_Dir (dest @ slash # row_name b q) \<noteq> []"
    "dotdot \<notin> set (os_path e (path_Dir (dest @ slash # row_name b q)))"
    "kept (os_path e (path_Dir (dest @ slash # row_name b q))) = resolve e dest @ b # butlast q"
    unfolding d using os_path_Clean(1) [OF a] os_path_Clean(2,3) [OF a, of e] by (simp_all add: q)
qed

section \<open>Making directories\<close>

definition fs_isFile :: "file_system \<Rightarrow> string list \<Rightarrow> bool" where
  "fs_isFile fs q \<longleftrightarrow> q \<noteq> [] \<and> (\<exists>p u g c. fs q = Some (FS_File p u g c))"

definition new_dir :: "os_env \<Rightarrow> u32 \<Rightarrow> fs_entry" where
  "new_dir e perm = FS_Dir (perm AND NOT (oe_umask e)) (oe_uid e) (oe_gid e)"

text \<open>The file system with all directories on the way to \<open>q\<close>.\<close>

definition with_dirs :: "fs_entry \<Rightarrow> file_system \<Rightarrow> string list \<Rightarrow> file_system" where
  "with_dirs d fs q = (\<lambda>p. if p \<noteq> [] \<and> prefix p q \<and> fs p = None then Some d else fs p)"

lemma mkdirs_spec:
  assumes "\<forall>q. \<not> oe_denied e q"
  shows "dotdot \<notin> set cs \<Longrightarrow> fs_isDir fs q \<Longrightarrow> \<forall>p. prefix p q \<longrightarrow> p = [] \<or> fs p \<noteq> None \<Longrightarrow>
    \<forall>p. prefix p (q @ kept cs) \<longrightarrow> \<not> fs_isFile fs p \<Longrightarrow>
    mkdirs e fs q cs perm = (with_dirs (new_dir e perm) fs (q @ kept cs), True)"
proof (induction cs arbitrary: fs q)
  case Nil
  then show ?case by (auto simp: with_dirs_def fun_eq_iff)
next
  case (Cons c cs)
  let ?q = "q @ [c]" and ?d = "new_dir e perm"
  show ?case
  proof (cases "c = [] \<or> c = dot")
    case True
    then show ?thesis using Cons.IH [of fs q] Cons.prems by (simp add: step_to_def)
  next
    case c: False
    have s: "step_to q c = ?q" "kept (c # cs) = c # kept cs" using c Cons.prems(1) by (auto simp: step_to_def)
    have nd: "dotdot \<notin> set cs" using Cons.prems(1) by simp
    have nf: "\<not> fs_isFile fs ?q" using Cons.prems(4) unfolding s by (simp add: prefix_def)
    show ?thesis
    proof (cases "fs_isDir fs ?q")
      case True
      then have "\<forall>p. prefix p ?q \<longrightarrow> p = [] \<or> fs p \<noteq> None"
        using Cons.prems(3) by (auto simp: fs_isDir_def prefix_append prefix_Cons split: option.splits)
      then show ?thesis using Cons.IH [OF nd True] Cons.prems(4) True unfolding s(2) by (simp add: s(1))
    next
      case False
      then have none: "fs ?q = None"
        using nf by (auto simp: fs_isDir_def fs_isFile_def split: option.splits fs_entry.splits)
      define fs1 where "fs1 = fs(?q \<mapsto> ?d)"
      have m: "mkdir_at e fs ?q perm = (fs1, True)"
        using none Cons.prems(2) assms by (simp add: mkdir_at_def fs_exists_def fs1_def new_dir_def)
      have "fs_isDir fs1 ?q" by (simp add: fs1_def fs_isDir_def new_dir_def)
      moreover have "\<forall>p. prefix p ?q \<longrightarrow> p = [] \<or> fs1 p \<noteq> None"
        using Cons.prems(3) by (auto simp: fs1_def prefix_append prefix_Cons)
      moreover have "\<forall>p. prefix p (?q @ kept cs) \<longrightarrow> \<not> fs_isFile fs1 p"
        using Cons.prems(4) unfolding s by (auto simp: fs1_def fs_isFile_def new_dir_def)
      ultimately have "mkdirs e fs1 ?q cs perm = (with_dirs ?d fs1 (?q @ kept cs), True)" by (rule Cons.IH [OF nd])
      moreover have "with_dirs ?d fs1 (?q @ kept cs) = with_dirs ?d fs (q @ c # kept cs)"
        using none by (auto simp: with_dirs_def fs1_def fun_eq_iff)
      ultimately show ?thesis using False m unfolding s(2) by (simp add: s(1))
    qed
  qed
qed

lemma MkdirAll_spec:
  assumes "\<forall>q. \<not> oe_denied e q" "p \<noteq> []" "dotdot \<notin> set (os_path e p)"
    "\<forall>x. prefix x (kept (os_path e p)) \<longrightarrow> \<not> fs_isFile fs x"
  shows "os_MkdirAll e fs p perm = (with_dirs (new_dir e perm) fs (kept (os_path e p)), True)"
  unfolding os_MkdirAll_def using mkdirs_spec [OF assms(1,3), of fs "[]" perm] assms(2,4) by (simp add: fs_isDir_def)

section \<open>Extracting one entry\<close>

text \<open>What stands at the path of an entry afterwards.\<close>

fun want :: "int \<Rightarrow> int \<Rightarrow> node \<Rightarrow> fs_entry" where
  "want uid gid (Node_Dir m _ _) = FS_Dir (Perm m) uid gid"
| "want uid gid (Node_File m _ c) = FS_File (Perm m) uid gid c"

definition row_dir :: "os_env \<Rightarrow> node \<Rightarrow> fs_entry" where
  "row_dir e n = new_dir e (case n of Node_Dir m _ _ \<Rightarrow> Perm m | Node_File _ _ _ \<Rightarrow> ModePerm)"

definition ext_row :: "os_env \<Rightarrow> int \<Rightarrow> int \<Rightarrow> string list \<Rightarrow> file_system \<Rightarrow> string list \<times> node \<Rightarrow> file_system" where
  "ext_row e uid gid B fs r =
     (with_dirs (row_dir e (snd r)) fs (butlast (B @ fst r)))(B @ fst r \<mapsto> want uid gid (snd r))"

text \<open>An entry that has room: its parents are not files, and what may be there is of its kind.\<close>

definition room :: "string list \<Rightarrow> file_system \<Rightarrow> string list \<times> node \<Rightarrow> bool" where
  "room B fs r \<longleftrightarrow> (\<forall>p. prefix p (butlast (B @ fst r)) \<longrightarrow> \<not> fs_isFile fs p) \<and>
     (case snd r of Node_Dir _ _ _ \<Rightarrow> \<not> fs_isFile fs (B @ fst r)
      | Node_File _ _ _ \<Rightarrow> \<not> fs_isDir fs (B @ fst r))"

lemma hdr_perm_mode: "hdr_perm \<lparr>hd_Name = x, hd_dir = y, hd_Size = z, hd_Mode = uint m\<rparr> = Perm m"
  by (simp add: hdr_perm_def)

lemma set_owner_spec:
  assumes "\<forall>q. \<not> oe_denied e q" "locate e fs dst = Some q"
  shows "fs q = Some (FS_Dir p u g) \<Longrightarrow> set_owner e uid gid h dst fs = fs(q \<mapsto> FS_Dir (hdr_perm h) uid gid)"
    "fs q = Some (FS_File p u g c) \<Longrightarrow> set_owner e uid gid h dst fs = fs(q \<mapsto> FS_File (hdr_perm h) uid gid c)"
proof -
  assume f: "fs q = Some (FS_Dir p u g)"
  have "locate e (fs(q \<mapsto> FS_Dir (hdr_perm h) u g)) dst = Some q"
    by (rule locate_mono [OF _ assms(2)]) (simp add: fs_isDir_def)
  then show "set_owner e uid gid h dst fs = fs(q \<mapsto> FS_Dir (hdr_perm h) uid gid)"
    using f assms by (simp add: set_owner_def os_Chown_def os_Chmod_def chmod_at_def chown_at_def)
next
  assume f: "fs q = Some (FS_File p u g c)"
  have "locate e (fs(q \<mapsto> FS_File (hdr_perm h) u g c)) dst = Some q"
    by (rule locate_mono [OF _ assms(2)]) (auto simp: fs_isDir_def f)
  then show "set_owner e uid gid h dst fs = fs(q \<mapsto> FS_File (hdr_perm h) uid gid c)"
    using f assms by (simp add: set_owner_def os_Chown_def os_Chmod_def chmod_at_def chown_at_def)
qed

lemma prefix_butlast: "q \<noteq> [] \<Longrightarrow> prefix p q \<longleftrightarrow> p = q \<or> prefix p (butlast q)"
  by (metis append_butlast_last_id prefix_snoc)

lemma with_dirs_butlast:
  "q \<noteq> [] \<Longrightarrow> (with_dirs d fs q)(q \<mapsto> x) = (with_dirs d fs (butlast q))(q \<mapsto> x)"
  by (simp add: with_dirs_def fun_eq_iff prefix_butlast)

lemma with_dirs_isDir:
  "\<forall>p. prefix p q \<longrightarrow> \<not> fs_isFile fs p \<Longrightarrow> d = FS_Dir p u g \<Longrightarrow> prefix x q \<Longrightarrow> fs_isDir (with_dirs d fs q) x"
  by (fastforce simp: fs_isDir_def with_dirs_def fs_isFile_def split: option.splits fs_entry.splits)

lemma Create_spec:
  "\<forall>q. \<not> oe_denied e q \<Longrightarrow> fs_isDir fs (butlast q) \<Longrightarrow> \<not> fs_isDir fs q \<Longrightarrow>
   \<exists>p u g. create_at e fs q c = (fs(q \<mapsto> FS_File p u g c), True)"
  unfolding create_at_def by (auto split: option.splits fs_entry.splits)

lemma unTar_row:
  assumes d: "path_IsAbs dest" "plain b" "\<forall>c \<in> set q. plain c" "q \<noteq> []" and dd: "dotdot \<notin> set (pieces dest)"
    and nd: "\<forall>q. \<not> oe_denied e q" and B: "B = resolve e dest @ [b]"
    and r: "room B fs (q, n)"
  shows "unTarLoop e dest uid gid fs (row_entry b (q, n) # ents) ended =
     unTarLoop e dest uid gid (ext_row e uid gid B fs (q, n)) ents ended"
proof -
  define t where "t = B @ q"
  have D: "resolve e dest = kept (pieces dest)" using d(1) dd by (simp add: resolve_kept os_path_abs)
  have pl: "\<forall>c \<in> set (b # q). plain c" using d(2,3) by simp
  have kp: "kept q = q" "dotdot \<notin> set q" "b \<noteq> []" "b \<noteq> dot" "b \<noteq> dotdot"
    using kept_plain [OF d(3)] plain_elem [OF d(2)] by simp_all
  have t: "t \<noteq> []" "t = kept (pieces dest @ b # q)" using kp by (simp_all add: t_def B D)
  show ?thesis
  proof (cases n)
    case (Node_Dir m opens fis)
    let ?dst = "dest @ slash # row_name b q @ [slash]"
    define fs1 where "fs1 = with_dirs (new_dir e (Perm m)) fs t"
    have o: "os_path e ?dst = (pieces dest @ b # q) @ [[]]"
      using pieces_row_slash(2) [OF d(2,3)] by (simp add: os_path_below [OF d(1)])
    have k: "kept (os_path e ?dst) = t" "dotdot \<notin> set (os_path e ?dst)"
      unfolding o t(2) using kp dd by auto
    have nf: "\<forall>p. prefix p t \<longrightarrow> \<not> fs_isFile fs p"
      unfolding prefix_butlast [OF t(1)] using r Node_Dir by (simp add: room_def t_def)
    have m: "os_MkdirAll e fs ?dst (Perm m) = (fs1, True)"
      using MkdirAll_spec [OF nd _ k(2), of fs "Perm m"] nf unfolding k(1) fs1_def by simp
    have dirs: "\<forall>x. prefix x t \<longrightarrow> fs_isDir fs1 x"
      using with_dirs_isDir [OF nf, of "new_dir e (Perm m)"] by (auto simp: fs1_def new_dir_def)
    then have l: "locate e fs1 ?dst = Some t"
      using walk_dirs [OF k(2), of "[]" fs1] k(1) by (simp add: locate_def)
    have "fs_isDir fs1 t" using dirs by simp
    then obtain p u g where "fs1 t = Some (FS_Dir p u g)"
      using t(1) by (auto simp: fs_isDir_def split: option.splits fs_entry.splits)
    note so = set_owner_spec(1) [OF nd l this, of uid gid]
    have "fs1(t \<mapsto> FS_Dir (Perm m) uid gid) = ext_row e uid gid B fs (q, n)"
      using with_dirs_butlast [OF t(1)] by (simp add: ext_row_def Node_Dir row_dir_def t_def fs1_def)
    then show ?thesis using m so by (simp add: Node_Dir Let_def hdr_perm_mode)
  next
    case (Node_File m opens c)
    let ?dst = "dest @ slash # row_name b q"
    define fs1 where "fs1 = with_dirs (new_dir e ModePerm) fs (butlast t)"
    have bt: "butlast t = resolve e dest @ b # butlast q" using d(4) by (simp add: t_def B butlast_append)
    have nf: "\<forall>p. prefix p (butlast t) \<longrightarrow> \<not> fs_isFile fs p" using r by (simp add: room_def t_def)
    note D1 = Dir_below(1) [OF d dd] Dir_below(2,3) [OF d dd, of e, folded bt]
    have m: "os_MkdirAll e fs (path_Dir ?dst) ModePerm = (fs1, True)"
      using MkdirAll_spec [OF nd D1(1,2), of fs ModePerm] nf unfolding D1(3) fs1_def by simp
    have "\<not> prefix t (butlast t)" using t(1) prefix_length_le [of t "butlast t"] by (cases t) auto
    then have same: "fs1 t = fs t" by (simp add: fs1_def with_dirs_def)
    have dirs: "\<forall>x. prefix x (butlast t) \<longrightarrow> fs_isDir fs1 x"
      using with_dirs_isDir [OF nf, of "new_dir e ModePerm"] by (auto simp: fs1_def new_dir_def)
    have nt: "\<not> fs_isDir fs1 t" using r same by (simp add: room_def Node_File t_def fs_isDir_def)
    have bd: "fs_isDir fs1 (butlast t)" using dirs by simp
    from Create_spec [OF nd this nt, of c]
    obtain p u g where c: "create_at e fs1 t c = (fs1(t \<mapsto> FS_File p u g c), True)" by blast
    have kb: "kept (butlast (b # q)) = butlast (b # q) \<and> dotdot \<notin> set (butlast (b # q))"
      using pl by (intro kept_plain) (auto dest: in_set_butlastD)
    have bt': "butlast t = kept (pieces dest @ butlast (b # q))" using kb by (simp add: bt D d(4))
    have w: "walk fs1 [] (pieces dest @ butlast (b # q)) = Some (butlast t)"
      unfolding bt' using dirs kb dd by (intro walk_dirs [of _ "[]", simplified]) (auto simp: bt')
    have st: "step_to (butlast t) (last (b # q)) = t"
      using kp d(4) pl last_in_set [of "b # q"] append_butlast_last_id [of t] t(1)
      by (auto simp: step_to_def t_def plain_def clean_elem_def)
    have "walk fs1 [] ((pieces dest @ butlast (b # q)) @ [last (b # q)]) = Some t"
      using walk_snoc [OF w bd, of "last (b # q)"] unfolding st .
    moreover have "os_path e ?dst = (pieces dest @ butlast (b # q)) @ [last (b # q)]"
      using pieces_row_slash(1) [OF d(2,3)] append_butlast_last_id [of "b # q"] by (simp add: os_path_below [OF d(1)])
    ultimately have l: "locate e fs1 ?dst = Some t" by (simp add: locate_def)
    have u: "unTarFile e fs1 ?dst (row_entry b (q, n)) = (fs1(t \<mapsto> FS_File p u g c), None)"
      using c l by (simp add: unTarFile_def Node_File os_Create_def)
    have "locate e (fs1(t \<mapsto> FS_File p u g c)) ?dst = Some t"
      using nt by (intro locate_mono [OF _ l]) (auto simp: fs_isDir_def)
    note so = set_owner_spec(2) [OF nd this, of p u g c uid gid]
    have "fs1(t \<mapsto> FS_File (Perm m) uid gid c) = ext_row e uid gid B fs (q, n)"
      by (simp add: ext_row_def Node_File fs1_def row_dir_def t_def)
    then show ?thesis using m u so by (simp add: Node_File Let_def hdr_perm_mode)
  qed
qed

section \<open>Extracting all entries\<close>

lemma ext_row_other:
  "p \<noteq> B @ fst r \<Longrightarrow> fs p \<noteq> None \<Longrightarrow> ext_row e uid gid B fs r p = fs p"
  "p \<noteq> [] \<Longrightarrow> \<not> prefix p (B @ fst r) \<Longrightarrow> ext_row e uid gid B fs r p = fs p"
  by (auto simp: ext_row_def with_dirs_def dest: prefix_order.trans [OF _ prefixeq_butlast])

lemma ext_row_isFile:
  "fs_isFile (ext_row e uid gid B fs r) p \<Longrightarrow>
   fs_isFile fs p \<or> (p = B @ fst r \<and> (\<exists>m opens c. snd r = Node_File m opens c))"
  by (cases "snd r") (auto simp: fs_isFile_def ext_row_def with_dirs_def row_dir_def new_dir_def split: if_splits)

lemma ext_row_isDir:
  "fs_isDir (ext_row e uid gid B fs r) p \<Longrightarrow> fs_isDir fs p \<or> (p = B @ fst r \<and> (\<exists>m opens c. snd r = Node_Dir m opens c)) \<or>
     strict_prefix p (B @ fst r)"
proof -
  assume d: "fs_isDir (ext_row e uid gid B fs r) p"
  consider "p = []" | "p = B @ fst r" | "p \<noteq> []" "p \<noteq> B @ fst r" "prefix p (butlast (B @ fst r))"
    | "p \<noteq> []" "p \<noteq> B @ fst r" "\<not> prefix p (butlast (B @ fst r))" by blast
  then show ?thesis
  proof cases
    case 2
    then show ?thesis using d by (cases "snd r") (auto simp: ext_row_def fs_isDir_def)
  next
    case 3
    then have "prefix p (B @ fst r)" using prefix_order.trans prefixeq_butlast by blast
    then show ?thesis using 3(2) by (simp add: strict_prefix_def)
  next
    case 4
    then show ?thesis using d by (simp add: ext_row_def fs_isDir_def with_dirs_def)
  qed (simp add: fs_isDir_def)
qed

text \<open>In a tree, what lies under an entry lies under a directory, and no path occurs twice.\<close>

definition tree_rows :: "(string list \<times> node) list \<Rightarrow> bool" where
  "tree_rows rs \<longleftrightarrow> distinct (map fst rs) \<and> (\<forall>r \<in> set rs. fst r \<noteq> [] \<and> (\<forall>c \<in> set (fst r). plain c)) \<and>
     (\<forall>r \<in> set rs. \<forall>r' \<in> set rs. strict_prefix (fst r) (fst r') \<longrightarrow> (\<exists>m opens fs. snd r = Node_Dir m opens fs))"

lemma room_ext_row:
  assumes t: "tree_rows (r # rs)" and r': "r' \<in> set rs" and room: "room B fs r'"
  shows "room B (ext_row e uid gid B fs r) r'"
proof -
  let ?fs = "ext_row e uid gid B fs r"
  have ne: "fst r \<noteq> fst r'" using t r' by (auto simp: tree_rows_def)
  have sp: "strict_prefix (fst r) (fst r') \<Longrightarrow> \<exists>m opens fs. snd r = Node_Dir m opens fs"
    "strict_prefix (fst r') (fst r) \<Longrightarrow> \<exists>m opens fs. snd r' = Node_Dir m opens fs"
    using t r' by (auto simp: tree_rows_def)
  have "\<not> fs_isFile ?fs p" if p: "prefix p (butlast (B @ fst r'))" for p
  proof
    assume "fs_isFile ?fs p"
    moreover have "\<not> fs_isFile fs p" using room p by (simp add: room_def)
    ultimately have f: "p = B @ fst r" "\<exists>m opens c. snd r = Node_File m opens c"
      using ext_row_isFile by blast+
    then have "prefix (B @ fst r) (B @ fst r')" using p prefix_order.trans prefixeq_butlast by blast
    then have "strict_prefix (fst r) (fst r')" using ne by (simp add: strict_prefix_def)
    then show False using sp(1) f(2) by auto
  qed
  moreover have "\<not> fs_isFile ?fs (B @ fst r')" if "snd r' = Node_Dir m opens c" for m opens c
    using room that ne ext_row_isFile [of e uid gid B fs r "B @ fst r'"] by (auto simp: room_def)
  moreover have "\<not> fs_isDir ?fs (B @ fst r')" if "snd r' = Node_File m opens c" for m opens c
    using room that ne sp(2) ext_row_isDir [of e uid gid B fs r "B @ fst r'"]
    by (auto simp: room_def strict_prefix_def)
  ultimately show ?thesis by (auto simp: room_def split: node.splits)
qed

lemma tree_rows_Cons: "tree_rows (r # rs) \<Longrightarrow> tree_rows rs"
  by (simp add: tree_rows_def)

lemma unTarLoop_rows:
  assumes "path_IsAbs dest" "plain b" "\<forall>q. \<not> oe_denied e q" and dd: "dotdot \<notin> set (pieces dest)"
    and B: "B = resolve e dest @ [b]"
  shows "tree_rows rs \<Longrightarrow> \<forall>r \<in> set rs. room B fs r \<Longrightarrow>
    unTarLoop e dest uid gid fs (map (row_entry b) rs) True = Ret (foldl (ext_row e uid gid B) fs rs, None)"
proof (induction rs arbitrary: fs)
  case (Cons r rs)
  obtain q n where r: "r = (q, n)" by (cases r)
  have q: "\<forall>c \<in> set q. plain c" "q \<noteq> []" using Cons.prems(1) by (simp_all add: tree_rows_def r)
  have "room B fs (q, n)" using Cons.prems(2) r by simp
  note step = unTar_row [OF assms(1,2) q dd assms(3) B this]
  have "\<forall>r' \<in> set rs. room B (ext_row e uid gid B fs r) r'"
    using room_ext_row [OF Cons.prems(1)] Cons.prems(2) by simp
  then show ?case
    using Cons.IH [OF tree_rows_Cons [OF Cons.prems(1)], of "ext_row e uid gid B fs r"] step
    by (simp add: r del: row_entry.simps unTarLoop.simps)
qed simp

lemma foldl_ext_keep:
  "\<forall>r \<in> set rs. p \<noteq> B @ fst r \<Longrightarrow> fs p \<noteq> None \<Longrightarrow> foldl (ext_row e uid gid B) fs rs p = fs p"
proof (induction rs arbitrary: fs)
  case (Cons r rs)
  have "ext_row e uid gid B fs r p = fs p" using Cons.prems by (intro ext_row_other(1)) auto
  then show ?case using Cons.IH [of "ext_row e uid gid B fs r"] Cons.prems by simp
qed simp

lemma foldl_ext_new:
  "\<forall>r \<in> set rs. \<not> prefix p (B @ fst r) \<Longrightarrow> p \<noteq> [] \<Longrightarrow> foldl (ext_row e uid gid B) fs rs p = fs p"
proof (induction rs arbitrary: fs)
  case (Cons r rs)
  have "ext_row e uid gid B fs r p = fs p" using Cons.prems by (intro ext_row_other(2)) auto
  then show ?case using Cons.IH [of "ext_row e uid gid B fs r"] Cons.prems by simp
qed simp

lemma foldl_ext_want:
  "distinct (map fst rs) \<Longrightarrow> (q, n) \<in> set rs \<Longrightarrow> foldl (ext_row e uid gid B) fs rs (B @ q) = Some (want uid gid n)"
proof (induction rs arbitrary: fs)
  case (Cons r rs)
  show ?case
  proof (cases "r = (q, n)")
    case True
    have "ext_row e uid gid B fs r (B @ q) = Some (want uid gid n)" by (simp add: True ext_row_def)
    moreover have "\<forall>r' \<in> set rs. B @ q \<noteq> B @ fst r'" using Cons.prems(1) True by (auto simp: image_iff)
    ultimately show ?thesis using foldl_ext_keep [of rs "B @ q" B "ext_row e uid gid B fs r"] by simp
  next
    case False
    then show ?thesis using Cons by simp
  qed
qed simp

lemma fis_at_parent: "fis_at fis (q @ s) = Some n \<Longrightarrow> q \<noteq> [] \<Longrightarrow> fis_at fis q \<noteq> None"
proof (induction fis q rule: fis_at.induct)
  case (2 fis c q)
  then show ?case by (cases "q = []") (auto split: option.splits node.splits)
qed simp

lemma rows_tree: "good_fis fis \<Longrightarrow> tree_rows (rows fis)"
  unfolding tree_rows_def
  using rows_distinct rows_ne rows_at fis_at_plain
  by (auto simp: strict_prefix_def prefix_def dest: fis_at_prefix)

section \<open>What is shown\<close>

text \<open>The target directory is fresh: nothing lies in it, and no file stands on the way to it.\<close>

definition fresh_dir :: "file_system \<Rightarrow> string list \<Rightarrow> bool" where
  "fresh_dir fs B \<longleftrightarrow> (\<forall>p. prefix p B \<longrightarrow> \<not> fs_isFile fs p) \<and> (\<forall>q. q \<noteq> [] \<longrightarrow> fs (B @ q) = None)"

lemma fresh_room: "fresh_dir fs B \<Longrightarrow> fst r \<noteq> [] \<Longrightarrow> room B fs r"
proof -
  assume f: "fresh_dir fs B" and ne: "fst r \<noteq> []"
  have "\<not> fs_isFile fs p" if "prefix p (B @ butlast (fst r))" for p
  proof (cases "prefix p B")
    case False
    then obtain q where "p = B @ q" "q \<noteq> []" using \<open>prefix p (B @ butlast (fst r))\<close> by (auto simp: prefix_append)
    then show ?thesis using f by (simp add: fresh_dir_def fs_isFile_def)
  qed (use f in \<open>simp add: fresh_dir_def\<close>)
  moreover have "fs (B @ fst r) = None" using f ne by (simp add: fresh_dir_def)
  ultimately show ?thesis using ne
    by (auto simp: room_def butlast_append fs_isFile_def fs_isDir_def split: node.splits)
qed

lemma unTarLoop_tree:
  assumes "good_fis fis" "plain b" "path_IsAbs dest" "\<forall>q. \<not> oe_denied e q" "fresh_dir fs (resolve e dest @ [b])"
    and dd: "dotdot \<notin> set (pieces dest)"
  shows "\<exists>fs'. unTarLoop e dest uid gid fs (map (row_entry b) (rows fis)) True = Ret (fs', None) \<and>
    (\<forall>q. q \<noteq> [] \<longrightarrow> fs' (resolve e dest @ b # q) = map_option (want uid gid) (fis_at fis q)) \<and>
    (\<forall>p. fs p \<noteq> None \<or> \<not> prefix p (resolve e dest @ [b]) \<and> \<not> prefix (resolve e dest @ [b]) p \<longrightarrow> fs' p = fs p)"
proof -
  define B where "B = resolve e dest @ [b]"
  define fs' where "fs' = foldl (ext_row e uid gid B) fs (rows fis)"
  have rm: "\<forall>r \<in> set (rows fis). room B fs r" using assms(5) rows_ne B_def
    by (auto intro!: fresh_room)
  have d: "distinct (map fst (rows fis))" using rows_distinct [OF assms(1)] .
  have "fs' (B @ q) = map_option (want uid gid) (fis_at fis q)" if qne: "q \<noteq> []" for q
  proof (cases "fis_at fis q")
    case (Some n)
    then have "(q, n) \<in> set (rows fis)" using rows_at [OF assms(1)] by blast
    then show ?thesis using foldl_ext_want [OF d] Some by (simp add: fs'_def)
  next
    case None
    have "\<not> prefix (B @ q) (B @ fst r)" if r: "r \<in> set (rows fis)" for r
    proof
      assume "prefix (B @ q) (B @ fst r)"
      then obtain s where s: "fst r = q @ s" by (auto simp: prefix_def)
      have "fis_at fis (q @ s) = Some (snd r)" using r s rows_at [OF assms(1)] by (metis prod.collapse)
      then have "fis_at fis q \<noteq> None" using fis_at_parent qne by metis
      then show False using None by simp
    qed
    then have "fs' (B @ q) = fs (B @ q)" unfolding fs'_def using qne by (intro foldl_ext_new) auto
    then show ?thesis using None qne assms(5) by (simp add: fresh_dir_def B_def)
  qed
  moreover have "fs' p = fs p" if "fs p \<noteq> None \<or> \<not> prefix p B \<and> \<not> prefix B p" for p
  proof (cases "fs p = None")
    case False
    have "\<forall>r \<in> set (rows fis). p \<noteq> B @ fst r"
      using False assms(5) rows_ne by (auto simp: fresh_dir_def B_def)
    then show ?thesis unfolding fs'_def using False by (intro foldl_ext_keep) auto
  next
    case True
    then have "\<forall>r \<in> set (rows fis). \<not> prefix p (B @ fst r)" using that by (auto simp: prefix_append)
    then show ?thesis unfolding fs'_def using True that by (intro foldl_ext_new) auto
  qed
  ultimately show ?thesis
    using unTarLoop_rows [OF assms(3,2,4) dd B_def rows_tree [OF assms(1)] rm]
    by (intro exI [of _ fs']) (simp add: fs'_def B_def)
qed

lemma Create_twice:
  assumes "snd (os_Create e fs f a)"
  shows "\<exists>q p u g. locate e fs f = Some q \<and>
    fst (os_Create e (fst (os_Create e fs f a)) f c) q = Some (FS_File p u g c)"
proof -
  obtain q where q: "locate e fs f = Some q" "snd (create_at e fs q a)"
    using assms by (auto simp: os_Create_def split: option.splits)
  then obtain p u g where c: "create_at e fs q a = (fs(q \<mapsto> FS_File p u g a), True)" "\<not> fs_isDir fs q"
    "fs_isDir fs (butlast q)" "\<not> oe_denied e q"
    by (auto simp: create_at_def split: if_splits option.splits fs_entry.splits)
  have "locate e (fs(q \<mapsto> FS_File p u g a)) f = Some q"
    using c(2) by (intro locate_mono [OF _ q(1)]) (auto simp: fs_isDir_def)
  moreover have "butlast q \<noteq> q" using c(2) by (cases q rule: rev_cases) (auto simp: fs_isDir_def)
  ultimately show ?thesis
    using q(1) c by (simp add: os_Create_def) (auto simp: create_at_def fs_isDir_def)
qed

lemma TarGz_dir:
  assumes "good_fis fis" "snd (os_Create e fs file [])"
  shows "\<exists>out q p u g. TarGz enc e (Some (Node_Dir m True fis)) fs src file = Ret out \<and> locate e fs file = Some q \<and>
    out q = Some (FS_File p u g (enc (tar_of src (Node_Dir m True fis), True)))"
proof -
  let ?b = "path_Base src"
  have tar: "tar_of src (Node_Dir m True fis) = map (row_entry ?b) (rows fis)"
    using tarGzDir_rows [OF assms(1), of "[]" ?b] by (simp add: tar_of_def tw_missing_def)
  have "tw_missing (map (row_entry ?b) (rows fis)) = 0"
    using row_complete [of "map (row_entry ?b) (butlast (rows fis))" ?b "last (rows fis)"]
    by (cases "rows fis" rule: rev_cases) (simp_all add: tw_missing_def)
  then show ?thesis
    using Create_twice [OF assms(2)] by (auto simp: TarGz_def split_beta tar)
qed

text \<open>The directory that \<open>UnTarGz\<close> means to make is never made.\<close>

lemma walk_missing_found: "walk fs q cs = Some r \<Longrightarrow> walk_missing fs q cs \<longleftrightarrow> \<not> fs_exists fs r"
  by (induction cs arbitrary: q) (auto split: if_splits)

lemma Mkdir_there: "(if \<not> os_NotExist e fs p then fst (os_Mkdir e fs p perm) else fs) = fs"
proof (cases "locate e fs p")
  case (Some q)
  then have "p \<noteq> []" "walk fs [] (os_path e p) = Some q" by (auto simp: locate_def split: if_splits)
  then show ?thesis using Some walk_missing_found [of fs "[]" "os_path e p" q]
    by (auto simp: os_Mkdir_def os_NotExist_def mkdir_at_def)
qed (simp add: os_Mkdir_def)

lemma UnTarGz_eq:
  "UnTarGz dec e fs src dest uid gid =
     (case locate e fs src of
        None \<Rightarrow> Panics
      | Some q \<Rightarrow>
          (case fs q of
             Some (FS_File _ _ _ c) \<Rightarrow>
               (if oe_denied e q then Panics
                else case dec c of
                  None \<Rightarrow> Panics
                | Some (ents, ended) \<Rightarrow> unTarLoop e dest uid gid fs ents ended)
           | _ \<Rightarrow> Panics))"
  unfolding UnTarGz_def Mkdir_there Let_def ..

text \<open>C35: unpacking gives back what was packed.  Packing a directory of readable files with plain
  names produces an archive; unpacked on any machine below an absolute directory path without
  dot-dot elements in which nothing of that name lies yet, it puts there exactly the files and directories of the
  source, with their permissions, their bytes and the given owner, reports no error, and changes
  nothing that existed elsewhere.  The archive format only has to decode what was encoded.\<close>

theorem targz_roundtrip:
  assumes "good_fis fis" "plain (path_Base src)" "snd (os_Create e1 fs1 file [])"
    "c = enc (tar_of src (Node_Dir m True fis), True)" "dec c = Some (tar_of src (Node_Dir m True fis), True)"
    "path_IsAbs dest" "dotdot \<notin> set (pieces dest)" "\<forall>q. \<not> oe_denied e q"
    "fresh_dir fs (resolve e dest @ [path_Base src])"
    "locate e fs file' = Some f" "fs f = Some (FS_File p' u' g' c)"
  shows "(\<exists>out q p u g. TarGz enc e1 (Some (Node_Dir m True fis)) fs1 src file = Ret out \<and>
      locate e1 fs1 file = Some q \<and> out q = Some (FS_File p u g c)) \<and>
    (\<exists>fs'. UnTarGz dec e fs file' dest uid gid = Ret (fs', None) \<and>
      (\<forall>q. q \<noteq> [] \<longrightarrow> fs' (resolve e dest @ path_Base src # q) = map_option (want uid gid) (fis_at fis q)) \<and>
      (\<forall>x. fs x \<noteq> None \<or> \<not> prefix x (resolve e dest @ [path_Base src]) \<and>
        \<not> prefix (resolve e dest @ [path_Base src]) x \<longrightarrow> fs' x = fs x))"
proof -
  let ?b = "path_Base src"
  have tar: "tar_of src (Node_Dir m True fis) = map (row_entry ?b) (rows fis)"
    using tarGzDir_rows [OF assms(1), of "[]" ?b] by (simp add: tar_of_def tw_missing_def)
  have "\<exists>out q p u g. TarGz enc e1 (Some (Node_Dir m True fis)) fs1 src file = Ret out \<and>
      locate e1 fs1 file = Some q \<and> out q = Some (FS_File p u g c)"
    unfolding assms(4) by (rule TarGz_dir [OF assms(1,3)])
  moreover have "UnTarGz dec e fs file' dest uid gid = unTarLoop e dest uid gid fs (map (row_entry ?b) (rows fis)) True"
    using assms(5,8,10,11) by (simp add: UnTarGz_eq tar)
  ultimately show ?thesis using unTarLoop_tree [OF assms(1,2,6,8,9,7)] by metis
qed

lemma unpieces_snoc: "xs \<noteq> [] \<Longrightarrow> unpieces (xs @ [f]) = unpieces xs @ slash # f"
  by (induction xs rule: unpieces.induct) auto

lemma clean_stack_ups:
  "\<forall>d \<in> set D. d \<noteq> dotdot \<Longrightarrow> clean_stack True D (replicate (length D) dotdot) = []"
  by (induction D) auto

text \<open>The name of an entry that leads from the directory \<open>D\<close> to the root and from there to \<open>q\<close>.\<close>

definition escape :: "string list \<Rightarrow> string list \<Rightarrow> string" where
  "escape D q = unpieces (replicate (length D) dotdot @ q)"

lemma escape_path:
  assumes "path_IsAbs dest" "\<forall>c \<in> set q. plain c" "q \<noteq> []"
  shows "os_path e (dest @ slash # escape D q) = pieces dest @ replicate (length D) dotdot @ q"
proof -
  have "\<forall>c \<in> set (replicate (length D) dotdot @ q). slash \<notin> set c" using plain_no_slash [OF assms(2)] by auto
  then show ?thesis using assms(3) by (simp add: os_path_below [OF assms(1)] escape_def pieces_unpieces)
qed

lemma escape_Dir:
  assumes "path_IsAbs dest" "\<forall>c \<in> set q. plain c" "q \<noteq> []"
  shows "path_Dir (dest @ slash # escape (resolve e dest) q) \<noteq> [] \<and>
    dotdot \<notin> set (os_path e (path_Dir (dest @ slash # escape (resolve e dest) q))) \<and>
    kept (os_path e (path_Dir (dest @ slash # escape (resolve e dest) q))) = butlast q"
proof -
  define D where "D = resolve e dest"
  define ups where "ups = replicate (length D) dotdot"
  obtain q' f where q: "q = q' @ [f]" using assms(3) by (cases q rule: rev_cases) auto
  have f: "slash \<notin> set f" using assms(2) q by (simp add: plain_def clean_elem_def)
  have sl: "\<forall>c \<in> set (ups @ r). slash \<notin> set c" if "\<forall>c \<in> set r. plain c" for r
    using plain_no_slash [OF that] by (auto simp: ups_def)
  have D: "clean_stack True [] (pieces dest) = rev D" using assms(1) by (simp add: D_def resolve_def os_path_abs)
  have "clean_out True (rev D)" using clean_kept [of True dest] D by simp
  then have "\<forall>d \<in> set (rev D). d \<noteq> dotdot" using clean_out_up by blast
  then have u: "clean_stack True (rev D) ups = []" using clean_stack_ups [of "rev D"] by (simp add: ups_def)
  have c: "clean_stack True [] (pieces dest @ ups @ r) = rev r" if "\<forall>c \<in> set r. plain c" for r
    using clean_stack_plain [OF that] by (simp add: clean_stack_append D u)
  have abs: "path_IsAbs (dest @ slash # x)" for x using assms(1) by (cases dest) simp_all
  obtain Y where Y: "dest @ slash # escape D q = Y @ slash # f" "pieces Y = pieces dest @ ups @ q'" "path_IsAbs Y"
  proof (cases "ups @ q' = []")
    case True
    then show ?thesis using that [of dest] assms(1) by (simp add: escape_def ups_def q)
  next
    case False
    have "escape D q = unpieces (ups @ q') @ slash # f"
      using unpieces_snoc [OF False, of f] by (simp add: escape_def ups_def q)
    moreover have "pieces (unpieces (ups @ q')) = ups @ q'"
      using False assms(2) q by (intro pieces_unpieces sl) simp_all
    ultimately show ?thesis
      using that [of "dest @ slash # unpieces (ups @ q')"] abs by (simp add: pieces_join)
  qed
  have a: "path_IsAbs (Y @ [slash])" using Y(3) by (cases Y) simp_all
  have "clean_stack True [] (pieces (Y @ [slash])) = rev q'"
    using pieces_join [of Y "[]"] c [of q'] assms(2) q clean_stack_blank [of True "[]" "pieces dest @ ups @ q'"]
    by (simp add: Y(2))
  then have "resolve e (Y @ [slash]) = q'" using a by (simp add: resolve_def os_path_abs)
  moreover have "path_Dir (dest @ slash # escape D q) = path_Clean (Y @ [slash])"
    unfolding Y(1) using path_Split_last [OF f, of Y] by (simp add: path_Dir_def)
  ultimately show ?thesis
    using os_path_Clean(1) [OF a] os_path_Clean(2,3) [OF a, of e] by (simp add: D_def q)
qed

lemma walk_ups:
  "\<forall>x. prefix x D \<longrightarrow> fs_isDir fs x \<Longrightarrow> walk fs D (replicate (length D) dotdot @ q) = walk fs [] q"
  by (induction D rule: rev_induct) (auto simp: step_to_def)

lemma walk_plain:
  assumes "\<forall>c \<in> set q. plain c" "\<forall>x. prefix x (butlast q) \<longrightarrow> fs_isDir fs x" "q \<noteq> []"
  shows "walk fs [] q = Some q"
proof -
  obtain q' f where q: "q = q' @ [f]" using assms(3) by (cases q rule: rev_cases) auto
  have k: "kept q' = q'" "dotdot \<notin> set q'" using kept_plain [of q'] assms(1) q by simp_all
  then have w: "walk fs [] q' = Some q'" using walk_dirs [of q' "[]" fs] assms(2) q by simp
  have "fs_isDir fs q'" using assms(2) q by simp
  moreover have "step_to q' f = q" using plain_elem [of f] assms(1) by (simp add: step_to_def q)
  ultimately show ?thesis using walk_snoc [OF w, of f] by (simp add: q)
qed

text \<open>C39: unpacking trusts the names in the archive.  For every directory an archive is unpacked into
  and every path of the machine whose parents exist, there is a name with which an archive of one
  entry creates the file at that path, or replaces it, with the content, permissions and owner of
  the attacker's choice; nothing else changes and no error is reported.  Only when the directory
  to unpack into does not exist does the name lead nowhere: the file cannot be created, and the
  call returns that error.\<close>

theorem untar_escapes:
  assumes "path_IsAbs dest" "\<forall>c \<in> set q. plain c" "q \<noteq> []" "\<forall>q. \<not> oe_denied e q"
    "\<forall>p. prefix p (butlast q) \<longrightarrow> fs_isDir fs p" "\<not> fs_isDir fs q"
    "locate e fs src = Some s" "fs s = Some (FS_File p u g c)"
    "dec c = Some ([(\<lparr>hd_Name = escape (resolve e dest) q, hd_dir = False, hd_Size = int (length x),
      hd_Mode = uint perm\<rparr>, x)], True)"
  shows "((\<exists>D. locate e fs dest = Some D \<and> fs_isDir fs D) \<longrightarrow>
      UnTarGz dec e fs src dest uid gid = Ret (fs(q \<mapsto> FS_File (Perm perm) uid gid x), None)) \<and>
    (\<not> (\<exists>D. locate e fs dest = Some D \<and> fs_isDir fs D) \<longrightarrow>
      UnTarGz dec e fs src dest uid gid = Ret (fs, Some Create_Error))"
proof -
  let ?dst = "dest @ slash # escape (resolve e dest) q"
  have o: "os_path e ?dst = pieces dest @ replicate (length (resolve e dest)) dotdot @ q"
    by (rule escape_path [OF assms(1-3)])
  have ne: "dest \<noteq> []" using assms(1) by auto
  have "\<forall>x. prefix x (butlast q) \<longrightarrow> \<not> fs_isFile fs x" "with_dirs d fs (butlast q) = fs" for d
    using assms(5) by (auto simp: fs_isDir_def fs_isFile_def with_dirs_def fun_eq_iff split: option.splits)
  then have m: "os_MkdirAll e fs (path_Dir ?dst) ModePerm = (fs, True)"
    using MkdirAll_spec [OF assms(4), of "path_Dir ?dst" fs ModePerm] escape_Dir [OF assms(1-3), of e] by simp
  have "UnTarGz dec e fs src dest uid gid = Ret (fs(q \<mapsto> FS_File (Perm perm) uid gid x), None)"
    if D: "locate e fs dest = Some D" "fs_isDir fs D" for D
  proof -
    have "\<forall>x. prefix x D \<longrightarrow> fs_isDir fs x" using locate_prefixes [OF D(1)] D(2) by (auto simp: strict_prefix_def)
    moreover have "walk fs [] (pieces dest) = Some D" using D(1) ne by (simp add: locate_def os_path_abs assms(1))
    ultimately have l: "locate e fs ?dst = Some q"
      using walk_plain [OF assms(2,5,3)] walk_ups [of D fs q] locate_resolve [OF D(1)]
      by (simp add: locate_def o walk_append)
    have "fs_isDir fs (butlast q)" using assms(5) by simp
    from Create_spec [OF assms(4) this assms(6), of x]
    obtain a b d where c: "create_at e fs q x = (fs(q \<mapsto> FS_File a b d x), True)" by blast
    have "locate e (fs(q \<mapsto> FS_File a b d x)) ?dst = Some q"
      using assms(6) by (intro locate_mono [OF _ l]) (auto simp: fs_isDir_def)
    note so = set_owner_spec(2) [OF assms(4) this, of a b d x uid gid]
    show ?thesis
      using assms(4,7,8,9) by (simp add: UnTarGz_eq Let_def m c l so unTarFile_def os_Create_def hdr_perm_mode)
  qed
  moreover have "UnTarGz dec e fs src dest uid gid = Ret (fs, Some Create_Error)"
    if D: "\<not> (\<exists>D. locate e fs dest = Some D \<and> fs_isDir fs D)"
  proof -
    have "walk fs [] (os_path e ?dst) = None"
    proof (cases "walk fs [] (pieces dest)")
      case (Some D)
      then have l: "locate e fs dest = Some D" using ne by (simp add: locate_def os_path_abs assms(1))
      then have "\<not> fs_isDir fs D" using that by blast
      moreover from this have "D \<noteq> []" by (auto simp: fs_isDir_def)
      then obtain k where "length (resolve e dest) = Suc k"
        using locate_resolve [OF l] by (cases "length (resolve e dest)") simp_all
      ultimately show ?thesis using Some by (simp add: o walk_append)
    qed (simp add: o walk_append)
    then have "locate e fs ?dst = None" by (simp add: locate_def)
    then show ?thesis
      using assms(4,7,8,9) by (simp add: UnTarGz_eq Let_def m unTarFile_def os_Create_def)
  qed
  ultimately show ?thesis by blast
qed

section \<open>Instances\<close>

definition demo_fis :: "(string \<times> node) list" where
  "demo_fis = [(''a'', Node_File 420 True [1, 2]), (''d'', Node_Dir 493 True [(''b'', Node_File 384 True [3])])]"

definition demo_os :: os_env where
  "demo_os = \<lparr>oe_cwd = ''/'', oe_umask = 18, oe_uid = 0, oe_gid = 0, oe_denied = (\<lambda>_. False)\<rparr>"

definition demo_fs :: file_system where
  "demo_fs = [[''t''] \<mapsto> FS_File 420 0 0 [1], [''etc''] \<mapsto> FS_Dir 493 0 0, [''o''] \<mapsto> FS_Dir 493 0 0]"

lemma demo_paths:
  "path_Base ''/s'' = ''s''" "resolve demo_os ''/o'' = [''o'']" "path_IsAbs ''/o''" "dotdot \<notin> set (pieces ''/o'')"
  "\<not> oe_denied demo_os q" "locate demo_os fs ''/t'' = Some [''t'']" "locate demo_os fs ''/o'' = Some [''o'']"
  "locate demo_os fs ''/n'' = Some [''n'']"
  by (simp_all add: path_Base_def path_Split_def resolve_def locate_def os_path_def step_to_def fs_isDir_def demo_os_def
      dot_def dotdot_def)

lemma demo_good: "good_fis demo_fis" "plain ''s''"
  by (simp_all add: demo_fis_def plain_def clean_elem_def dot_def dotdot_def)

lemma demo_fresh: "fresh_dir demo_fs [''o'', ''s'']"
  by (auto simp: fresh_dir_def demo_fs_def fs_isFile_def prefix_Cons)

lemma demo_Create: "snd (os_Create demo_os demo_fs ''/t'' [])" "snd (os_Create demo_os demo_fs ''/n'' [])"
  by (simp_all add: os_Create_def create_at_def demo_fs_def fs_isDir_def demo_paths)

lemma targz_roundtrip_witness:
  "\<exists>out fs'. TarGz (\<lambda>_. [1]) demo_os (Some (Node_Dir 493 True demo_fis)) demo_fs ''/s'' ''/t'' = Ret out \<and>
    UnTarGz (\<lambda>_. Some (tar_of ''/s'' (Node_Dir 493 True demo_fis), True)) demo_os demo_fs ''/t'' ''/o'' 7 8 =
      Ret (fs', None) \<and>
    fs' [''o'', ''s'', ''d'', ''b''] = Some (FS_File (Perm 384) 7 8 [3])"
proof -
  have "demo_fs [''t''] = Some (FS_File 420 0 0 [1])" by (simp add: demo_fs_def)
  moreover have "fis_at demo_fis [''d'', ''b''] = Some (Node_File 384 True [3])" by (simp add: demo_fis_def)
  ultimately show ?thesis
    using targz_roundtrip [where dec = "\<lambda>_. Some (tar_of ''/s'' (Node_Dir 493 True demo_fis), True)" and
        enc = "\<lambda>_. [1]" and dest = "''/o''" and e = demo_os and fs = demo_fs and uid = 7 and gid = 8 and m = 493 and
        file' = "''/t''" and f = "[''t'']" and c = "[1]" and p' = 420 and u' = 0 and g' = 0,
        OF demo_good(1), of "''/s''" demo_os demo_fs "''/t''"]
      demo_paths demo_good(2) demo_fresh demo_Create
    by fastforce
qed

text \<open>The directory \<open>/o\<close> exists: the archive writes \<open>/etc/p\<close>.\<close>

lemma untar_escapes_witness:
  "UnTarGz (\<lambda>_. Some ([(\<lparr>hd_Name = escape (resolve demo_os ''/o'') [''etc'', ''p''], hd_dir = False,
      hd_Size = int (length [9 :: byte]), hd_Mode = uint (511 :: u32)\<rparr>, [9])], True)) demo_os demo_fs ''/t'' ''/o'' 7 8 =
    Ret (demo_fs([''etc'', ''p''] \<mapsto> FS_File (Perm 511) 7 8 [9]), None)"
  by (rule untar_escapes [THEN conjunct1, THEN mp])
    (auto simp: demo_paths plain_def clean_elem_def dot_def dotdot_def demo_fs_def fs_isDir_def prefix_Cons)

end
