(* ===== verification/Deploy.thy ===== *)
theory Deploy
  imports Service ArchiveProps
begin

text \<open>
  \<open>p2p/deploy.go\<close>: the goroutine that unpacks the archive of a finished distribution on an agent.
  The external commands \<open>btrfs\<close> and \<open>chown\<close> are the argument \<open>cmd\<close>: what a command line does to
  the file system and whether it succeeds.
\<close>

section \<open>Data\<close>

definition DeployGameData :: int where "DeployGameData = 1"
definition DeployUserData :: int where "DeployUserData = 2"
definition DeployOtherData :: int where "DeployOtherData = 3"
definition DeployDataEnd :: int where "DeployDataEnd = 4"

lemmas deploy_kinds = DeployGameData_def DeployUserData_def DeployOtherData_def DeployDataEnd_def

record deploy_info =
  dp_serverAddr :: string
  dp_fileType :: int
  dp_gid :: int
  dp_version :: int
  dp_storageDir :: string
  dp_Files :: "file_dict list"

record deployer =
  dl_taskID :: string
  dl_cfg :: config
  dl_chan :: "deploy_info list"
  dl_closed :: bool

definition newDeployer :: "string \<Rightarrow> config \<Rightarrow> deployer" where
  "newDeployer taskID cfg = \<lparr>dl_taskID = taskID, dl_cfg = cfg, dl_chan = [], dl_closed = False\<rparr>"

definition DoDeploy :: "deployer \<Rightarrow> string \<Rightarrow> int \<Rightarrow> int \<Rightarrow> int \<Rightarrow> string \<Rightarrow> file_dict list \<Rightarrow> deployer run" where
  "DoDeploy r serverAddr gid version fileType storageDir files =
     run_bind (chan_send 20 (dl_closed r) (dl_chan r) \<lparr>dp_serverAddr = serverAddr, dp_fileType = fileType, dp_gid = gid,
         dp_version = version, dp_storageDir = storageDir, dp_Files = files\<rparr>)
       (\<lambda>q. Ret (r\<lparr>dl_chan := q\<rparr>))"

definition deployer_Close :: "deployer \<Rightarrow> deployer run" where
  "deployer_Close r = (if dl_closed r then Panics else Ret (r\<lparr>dl_closed := True\<rparr>))"

section \<open>Unpacking\<close>

type_synonym command = "string list \<Rightarrow> file_system \<Rightarrow> file_system \<times> bool"
type_synonym untar = "bytes \<Rightarrow> (tar_entry list \<times> bool) option"

definition createBtrfsSubvolum :: "command \<Rightarrow> string \<Rightarrow> file_system \<Rightarrow> file_system \<times> bool" where
  "createBtrfsSubvolum cmd path fs = cmd [''btrfs'', ''subvolume'', ''create'', path] fs"

definition ChownUserGroupDir :: "command \<Rightarrow> string \<Rightarrow> int \<Rightarrow> int \<Rightarrow> file_system \<Rightarrow> file_system \<times> bool" where
  "ChownUserGroupDir cmd path user grp fs =
     cmd [''chown'', ''-R'', show_int user @ '':'' @ show_int grp, path] fs"

text \<open>Errors of the commands and of the extraction are only logged.\<close>

definition decompression ::
  "command \<Rightarrow> untar \<Rightarrow> os_env \<Rightarrow> deployer \<Rightarrow> file_system \<Rightarrow> string \<Rightarrow> string \<Rightarrow> file_system run" where
  "decompression cmd dec e r fs target path =
     (let u = c_UserID (dl_cfg r); g = c_GroupID (dl_cfg r);
          fs = (if os_NotExist e fs path
            then fst (ChownUserGroupDir cmd path u g (fst (createBtrfsSubvolum cmd path fs))) else fs)
      in run_bind (UnTarGz dec e fs target path u g) (\<lambda>(fs, _). Ret fs))"

text \<open>The archive a deployment reads and the directory it fills.\<close>

definition deploy_paths :: "config \<Rightarrow> deploy_info \<Rightarrow> (string \<times> string) option" where
  "deploy_paths cfg ri =
     (let nv = show_int (dp_gid ri) @ ''_'' @ show_int (dp_version ri) in
      if dp_fileType ri = DeployGameData
      then Some (c_DownDir cfg @ ''/'' @ nv @ ''.tar.gz'', c_GameDir cfg @ ''/'' @ nv)
      else if dp_fileType ri = DeployUserData
      then Some (c_DownDir cfg @ ''/'' @ nv @ ''_user.tar.gz'', c_UserDateDir cfg @ ''/'' @ dp_storageDir ri)
      else None)"

definition deployImp ::
  "command \<Rightarrow> untar \<Rightarrow> os_env \<Rightarrow> deployer \<Rightarrow> file_system \<Rightarrow> deploy_info \<Rightarrow> file_system run" where
  "deployImp cmd dec e r fs ri =
     (if dp_fileType ri > DeployDataEnd then Ret fs
      else case deploy_paths (dl_cfg r) ri of
        Some (target, path) \<Rightarrow> decompression cmd dec e r fs target path
      | None \<Rightarrow> Ret fs)"

text \<open>The goroutine on the deployments it takes from the channel.\<close>

fun deployer_run ::
  "command \<Rightarrow> untar \<Rightarrow> os_env \<Rightarrow> deployer \<Rightarrow> file_system \<Rightarrow> deploy_info list \<Rightarrow> file_system run" where
  "deployer_run cmd dec e r fs [] = Ret fs"
| "deployer_run cmd dec e r fs (rc # rcs) =
     run_bind (deployImp cmd dec e r fs rc) (\<lambda>fs. deployer_run cmd dec e r fs rcs)"

section \<open>What is shown\<close>

text \<open>What is asked of a command line: outside the directory \<open>P\<close> it changes nothing, in it it creates
  nothing, and it makes no file of it.\<close>

definition command_ok :: "command \<Rightarrow> string list \<Rightarrow> string list \<Rightarrow> bool" where
  "command_ok cmd args P \<longleftrightarrow> (\<forall>fs. (\<forall>x. \<not> prefix P x \<longrightarrow> fst (cmd args fs) x = fs x) \<and>
     (\<forall>x. strict_prefix P x \<and> fs x = None \<longrightarrow> fst (cmd args fs) x = None) \<and>
     (fs_isFile (fst (cmd args fs)) P \<longrightarrow> fs_isFile fs P))"

text \<open>There is room for \<open>b\<close> in the directory \<open>P\<close>, which may have to be made first.\<close>

definition free_below :: "file_system \<Rightarrow> string list \<Rightarrow> string \<Rightarrow> bool" where
  "free_below fs P b \<longleftrightarrow> (\<forall>p. prefix p P \<longrightarrow> \<not> fs_isFile fs p) \<and> (\<forall>q. fs (P @ b # q) = None)"

lemma free_fresh: "free_below fs P b \<Longrightarrow> fresh_dir fs (P @ [b])"
  by (auto simp: free_below_def fresh_dir_def fs_isFile_def)

lemma command_keeps:
  assumes c: "command_ok cmd args P" and f: "free_below fs P b"
  shows "free_below (fst (cmd args fs)) P b" "\<not> prefix P x \<Longrightarrow> fst (cmd args fs) x = fs x"
proof -
  let ?fs = "fst (cmd args fs)"
  have k: "\<And>x. \<not> prefix P x \<Longrightarrow> ?fs x = fs x" "\<And>x. strict_prefix P x \<Longrightarrow> fs x = None \<Longrightarrow> ?fs x = None"
    "fs_isFile ?fs P \<Longrightarrow> fs_isFile fs P"
    using c by (auto simp: command_ok_def)
  show "\<not> prefix P x \<Longrightarrow> ?fs x = fs x" using k(1) by blast
  have "?fs (P @ b # q) = None" for q
    using f k(2) [of "P @ b # q"] by (simp add: free_below_def strict_prefix_def)
  moreover have "\<not> fs_isFile ?fs p" if "prefix p P" for p
  proof (cases "p = P")
    case False
    then have "\<not> prefix P p" using that prefix_order.antisym by blast
    then show ?thesis using f that k(1) by (simp add: free_below_def fs_isFile_def)
  qed (use f k(3) in \<open>auto simp: free_below_def\<close>)
  ultimately show "free_below ?fs P b" by (simp add: free_below_def)
qed

text \<open>A path without \<open>..\<close> that does not lead into \<open>P\<close> is found where it was.\<close>

lemma locate_outside:
  assumes "dotdot \<notin> set (os_path e p)" "\<not> prefix P (resolve e p)" "\<And>x. \<not> prefix P x \<Longrightarrow> fs' x = fs x"
  shows "locate e fs' p = locate e fs p" "fs' (resolve e p) = fs (resolve e p)"
proof -
  have "fs_isDir fs' x = fs_isDir fs x" if "prefix x (kept (os_path e p))" for x
  proof -
    have "\<not> prefix P x" using that assms(2) prefix_order.trans unfolding resolve_kept [OF assms(1)] by blast
    then show ?thesis using assms(3) by (simp add: fs_isDir_def)
  qed
  then show "locate e fs' p = locate e fs p"
    using walk_cong_prefix [OF assms(1), of "[]" fs' fs] by (simp add: locate_def)
  show "fs' (resolve e p) = fs (resolve e p)" using assms(2,3) by blast
qed

text \<open>C36: a deployment of game data.  When the archive of a directory tree lies in the download
  directory under the name of the version, the tree stands afterwards in the game directory of the version, every file with
  its bytes and permissions and owned by the configured user and group, whatever the two command
  lines, which make the directory and give it its owner, did to the directory itself.  When there is
  no file of that name, the agent goes down.  The two paths have no dot-dot elements.\<close>

theorem deploy_game_data:
  assumes "dp_fileType ri = DeployGameData"
    "target = c_DownDir (dl_cfg r) @ ''/'' @ show_int (dp_gid ri) @ ''_'' @ show_int (dp_version ri) @ ''.tar.gz'' \<and>
     path = c_GameDir (dl_cfg r) @ ''/'' @ show_int (dp_gid ri) @ ''_'' @ show_int (dp_version ri)"
    "path_IsAbs path" "dotdot \<notin> set (pieces path)" "dotdot \<notin> set (os_path e target)" "\<forall>q. \<not> oe_denied e q"
    "command_ok cmd [''btrfs'', ''subvolume'', ''create'', path] (resolve e path)"
    "command_ok cmd [''chown'', ''-R'', show_int (c_UserID (dl_cfg r)) @ '':'' @ show_int (c_GroupID (dl_cfg r)), path]
       (resolve e path)"
    "\<not> prefix (resolve e path) (resolve e target)"
    "good_fis fis" "plain (path_Base src)" "free_below fs (resolve e path) (path_Base src)"
    "dec c = Some (tar_of src (Node_Dir m True fis), True)"
  shows "(\<forall>f p u g. locate e fs target = Some f \<and> fs f = Some (FS_File p u g c) \<longrightarrow>
      (\<exists>fs'. deployImp cmd dec e r fs ri = Ret fs' \<and>
        (\<forall>q. q \<noteq> [] \<longrightarrow> fs' (resolve e path @ path_Base src # q) =
          map_option (want (c_UserID (dl_cfg r)) (c_GroupID (dl_cfg r))) (fis_at fis q)))) \<and>
    ((\<forall>f. locate e fs target = Some f \<longrightarrow> fs f = None) \<longrightarrow> deployImp cmd dec e r fs ri = Panics)"
proof -
  let ?P = "resolve e path" and ?b = "path_Base src" and ?u = "c_UserID (dl_cfg r)" and ?g = "c_GroupID (dl_cfg r)"
  let ?made = "fst (createBtrfsSubvolum cmd path fs)"
  define fs1 where "fs1 = (if os_NotExist e fs path then fst (ChownUserGroupDir cmd path ?u ?g ?made) else fs)"
  have c1: "free_below ?made ?P ?b" "\<And>x. \<not> prefix ?P x \<Longrightarrow> ?made x = fs x"
    unfolding createBtrfsSubvolum_def using command_keeps [OF assms(7,12)] by blast+
  have "free_below (fst (ChownUserGroupDir cmd path ?u ?g ?made)) ?P ?b"
    "\<And>x. \<not> prefix ?P x \<Longrightarrow> fst (ChownUserGroupDir cmd path ?u ?g ?made) x = ?made x"
    unfolding ChownUserGroupDir_def using command_keeps [OF assms(8) c1(1)] by blast+
  then have k: "free_below fs1 ?P ?b" "\<And>x. \<not> prefix ?P x \<Longrightarrow> fs1 x = fs x"
    using assms(12) c1(2) by (simp_all add: fs1_def)
  have l: "locate e fs1 target = locate e fs target" "fs1 (resolve e target) = fs (resolve e target)"
    using locate_outside [OF assms(5,9), where fs = fs and fs' = fs1] k(2) by blast+
  have d: "deployImp cmd dec e r fs ri = run_bind (UnTarGz dec e fs1 target path ?u ?g) (\<lambda>(fs, _). Ret fs)"
    using assms(1,2) by (simp add: deployImp_def deploy_paths_def deploy_kinds decompression_def fs1_def Let_def)
  have tar: "tar_of src (Node_Dir m True fis) = map (row_entry ?b) (rows fis)"
    using tarGzDir_rows [OF assms(10), of "[]" ?b] by (simp add: tar_of_def tw_missing_def)
  obtain fs' where fs': "unTarLoop e path ?u ?g fs1 (map (row_entry ?b) (rows fis)) True = Ret (fs', None)"
    "\<forall>q. q \<noteq> [] \<longrightarrow> fs' (?P @ ?b # q) = map_option (want ?u ?g) (fis_at fis q)"
    using unTarLoop_tree [OF assms(10,11,3,6) free_fresh [OF k(1)] assms(4)] by blast
  have "deployImp cmd dec e r fs ri = Ret fs'" if "locate e fs target = Some f" "fs f = Some (FS_File p u g c)" for f p u g
    using that assms(6,13) fs'(1) l locate_resolve [OF that(1)] by (simp add: d UnTarGz_eq tar)
  moreover have "deployImp cmd dec e r fs ri = Panics" if "\<forall>f. locate e fs target = Some f \<longrightarrow> fs f = None"
  proof (cases "locate e fs target")
    case (Some f)
    then show ?thesis using that l locate_resolve [OF Some] by (simp add: d UnTarGz_eq)
  qed (simp add: d UnTarGz_eq l)
  ultimately show ?thesis using fs'(2) by blast
qed

definition demo_cfg :: config where
  "demo_cfg = zero_config\<lparr>c_DownDir := ''/n'', c_GameDir := ''/o'', c_UserID := 7, c_GroupID := 8\<rparr>"

definition demo_deploy :: deploy_info where
  "demo_deploy = \<lparr>dp_serverAddr = [], dp_fileType = 1, dp_gid = 1, dp_version = 2, dp_storageDir = [], dp_Files = []\<rparr>"

definition demo_deploy_fs :: file_system where
  "demo_deploy_fs = [[''n''] \<mapsto> FS_Dir 493 0 0, [''n'', ''1_2.tar.gz''] \<mapsto> FS_File 420 0 0 [1]]"

lemma deploy_game_data_witness:
  "\<exists>fs'. deployImp (\<lambda>args fs. (fs, True)) (\<lambda>_. Some (tar_of ''/s'' (Node_Dir 493 True demo_fis), True)) demo_os
      (newDeployer ''t'' demo_cfg) demo_deploy_fs demo_deploy = Ret fs' \<and>
    fs' [''o'', ''1_2'', ''s'', ''d'', ''b''] = Some (FS_File (Perm 384) 7 8 [3])"
proof -
  let ?dec = "\<lambda>_. Some (tar_of ''/s'' (Node_Dir 493 True demo_fis), True)"
  have i: "show_int 1 = ''1''" "show_int 2 = ''2''"
    by code_simp+
  have g: "dl_cfg (newDeployer ''t'' demo_cfg) = demo_cfg" by (simp add: newDeployer_def)
  have p: "''/n/1_2.tar.gz'' = c_DownDir (dl_cfg (newDeployer ''t'' demo_cfg)) @ ''/'' @
      show_int (dp_gid demo_deploy) @ ''_'' @ show_int (dp_version demo_deploy) @ ''.tar.gz'' \<and>
    ''/o/1_2'' = c_GameDir (dl_cfg (newDeployer ''t'' demo_cfg)) @ ''/'' @
      show_int (dp_gid demo_deploy) @ ''_'' @ show_int (dp_version demo_deploy)"
    unfolding g by (simp add: demo_cfg_def demo_deploy_def i)
  have k: "dp_fileType demo_deploy = DeployGameData" by (simp add: demo_deploy_def deploy_kinds)
  have r: "resolve demo_os ''/o/1_2'' = [''o'', ''1_2'']" "resolve demo_os ''/n/1_2.tar.gz'' = [''n'', ''1_2.tar.gz'']"
    "dotdot \<notin> set (pieces ''/o/1_2'')" "dotdot \<notin> set (os_path demo_os ''/n/1_2.tar.gz'')"
    by (simp_all add: resolve_def os_path_def demo_os_def dot_def dotdot_def)
  have l: "locate demo_os demo_deploy_fs ''/n/1_2.tar.gz'' = Some [''n'', ''1_2.tar.gz'']"
    by (simp add: locate_def os_path_def step_to_def fs_isDir_def demo_deploy_fs_def dot_def dotdot_def)
  have c: "command_ok (\<lambda>args fs. (fs, True)) args P" for args P by (simp add: command_ok_def)
  have f: "free_below demo_deploy_fs [''o'', ''1_2''] ''s''"
    by (auto simp: free_below_def demo_deploy_fs_def fs_isFile_def prefix_Cons)
  have "fis_at demo_fis [''d'', ''b''] = Some (Node_File 384 True [3])" by (simp add: demo_fis_def)
  moreover have "demo_deploy_fs [''n'', ''1_2.tar.gz''] = Some (FS_File 420 0 0 [1])"
    by (simp add: demo_deploy_fs_def)
  moreover have "c_UserID demo_cfg = 7" "c_GroupID demo_cfg = 8" by (simp_all add: demo_cfg_def)
  ultimately show ?thesis
    using deploy_game_data [OF k p, of demo_os "\<lambda>args fs. (fs, True)" demo_fis "''/s''" demo_deploy_fs ?dec "[1]" 493]
      r c f l demo_good demo_paths
    by (simp add: g) fastforce
qed

end
