(* ===== verification/ArchiveMgnt.thy ===== *)
theory ArchiveMgnt
  imports TaskMgnt ArchiveProps
begin

text \<open>
  \<open>server/archivemgnt.go\<close>: one archive task on the server.  One goroutine owns it: it packs the
  source at once, and then serves stop, compare and query requests.  \<open>ca_out\<close> is the sequence of
  answers and cache calls it has made.  The result \<open>Panics\<close> is the end of the server process: the
  goroutine recovers from nothing.
\<close>

section \<open>Data (api.go, archivemgnt.go)\<close>

record start_archive =
  sa_ID :: string
  sa_FileType :: int
  sa_Gid :: int
  sa_Version :: int
  sa_StorageDir :: string
  sa_ArchiveDirPath :: string
  sa_DestFilePath :: string

record archive_info =
  ai_ID :: string
  ai_Status :: string
  ai_StartedAt :: int
  ai_FinishedAt :: "int option"

datatype arch_action = Arch_Cache_Replace "int option" | Arch_Reply_Cmp bool | Arch_Reply_Query archive_info

record archive_mgr =
  ca_id :: string
  ca_archiveDirPath :: string
  ca_destFilePath :: string
  ca_ti :: archive_info
  ca_succCount :: int
  ca_failCount :: int
  ca_allCount :: int
  ca_ended :: bool
  ca_out :: "arch_action list"

text \<open>
  \<open>aw_src\<close> is what the operating system shows at a path that is read; \<open>aw_statFails\<close> are the
  paths where \<open>Stat\<close> fails for another reason than that nothing is there.
\<close>

record arch_world =
  aw_now :: int
  aw_env :: os_env
  aw_enc :: "tar_entry list \<times> bool \<Rightarrow> bytes"
  aw_src :: "string \<Rightarrow> node option"
  aw_statFails :: "string \<Rightarrow> bool"

definition newArchiveInfo :: "int \<Rightarrow> start_archive \<Rightarrow> archive_info" where
  "newArchiveInfo now t = \<lparr>ai_ID = sa_ID t, ai_Status = status_String TaskInit, ai_StartedAt = now,
     ai_FinishedAt = None\<rparr>"

definition NewCachedArchiveInfo :: "int \<Rightarrow> start_archive \<Rightarrow> archive_mgr" where
  "NewCachedArchiveInfo now t = \<lparr>ca_id = sa_ID t, ca_archiveDirPath = sa_ArchiveDirPath t,
     ca_destFilePath = sa_DestFilePath t, ca_ti = newArchiveInfo now t, ca_succCount = 0, ca_failCount = 0,
     ca_allCount = 0, ca_ended = False, ca_out = []\<rparr>"

section \<open>Operations\<close>

definition arch_emit :: "arch_action list \<Rightarrow> archive_mgr \<Rightarrow> archive_mgr" where
  "arch_emit as ca = ca\<lparr>ca_out := ca_out ca @ as\<rparr>"

definition endArchive :: "arch_world \<Rightarrow> task_status \<Rightarrow> archive_mgr \<Rightarrow> archive_mgr" where
  "endArchive w ts ca = arch_emit [Arch_Cache_Replace (Some (seconds_of (5 * 60)))]
     (ca\<lparr>ca_ti := (ca_ti ca)\<lparr>ai_Status := status_String ts, ai_FinishedAt := Some (aw_now w)\<rparr>\<rparr>)"

definition arch_createTask ::
  "arch_world \<Rightarrow> file_system \<Rightarrow> archive_mgr \<Rightarrow> (file_system \<times> archive_mgr \<times> task_status) run" where
  "arch_createTask w fs ca =
     (if aw_src w (ca_archiveDirPath ca) = None \<and> \<not> aw_statFails w (ca_archiveDirPath ca)
      then Ret (fs, ca, TaskFileNotExist)
      else run_bind (TarGz (aw_enc w) (aw_env w)
          (if aw_statFails w (ca_archiveDirPath ca) then None else aw_src w (ca_archiveDirPath ca))
          fs (ca_archiveDirPath ca) (ca_destFilePath ca))
        (\<lambda>fs. Ret (fs, ca\<lparr>ca_allCount := 1, ca_succCount := 1, ca_failCount := 0,
           ca_ti := (ca_ti ca)\<lparr>ai_Status := status_String TaskInProgress\<rparr>\<rparr>, TaskCompleted)))"

text \<open>What \<open>Start\<close> does first, and again when a failed archive is asked for once more.\<close>

definition arch_begin :: "arch_world \<Rightarrow> file_system \<Rightarrow> archive_mgr \<Rightarrow> (file_system \<times> archive_mgr) run" where
  "arch_begin w fs ca = run_bind (arch_createTask w fs ca) (\<lambda>(fs, ca, ts).
     Ret (fs, if ts \<noteq> TaskInProgress then endArchive w ts ca else ca))"

definition arch_cmp ::
  "arch_world \<Rightarrow> file_system \<Rightarrow> start_archive \<Rightarrow> bool \<Rightarrow> archive_mgr \<Rightarrow> (file_system \<times> archive_mgr) run" where
  "arch_cmp w fs t shut ca =
     (let same = (sa_ArchiveDirPath t = ca_archiveDirPath ca \<and> sa_DestFilePath t = ca_destFilePath ca);
          ca1 = (if same then ca else arch_emit [Arch_Reply_Cmp False] ca)
      in if \<not> same \<and> shut then Panics
         else (let ca2 = arch_emit [Arch_Reply_Cmp True] ca1 in
           if ai_Status (ca_ti ca2) = status_String TaskFailed
           then arch_begin w fs (arch_emit [Arch_Cache_Replace None] ca2) else Ret (fs, ca2)))"

text \<open>\<open>Arch_Cmp t shut\<close>: as for a distribution task, the caller takes one answer and closes its
  channel, before the second answer when \<open>shut\<close> holds.\<close>

datatype arch_event = Arch_Quit | Arch_Stop | Arch_Cmp start_archive bool | Arch_Query

fun arch_step :: "arch_world \<Rightarrow> file_system \<Rightarrow> archive_mgr \<Rightarrow> arch_event \<Rightarrow> (file_system \<times> archive_mgr) run" where
  "arch_step w fs ca Arch_Quit = Ret (fs, ca\<lparr>ca_ended := True\<rparr>)"
| "arch_step w fs ca Arch_Stop = Ret (fs, endArchive w TaskFailed ca)"
| "arch_step w fs ca (Arch_Cmp t shut) = arch_cmp w fs t shut ca"
| "arch_step w fs ca Arch_Query = Ret (fs, arch_emit [Arch_Reply_Query (ca_ti ca)] ca)"

text \<open>The goroutine: \<open>Start\<close> on the events it receives, each in the world of its time.\<close>

fun arch_run ::
  "file_system \<Rightarrow> archive_mgr \<Rightarrow> (arch_world \<times> arch_event) list \<Rightarrow> (file_system \<times> archive_mgr) run" where
  "arch_run fs ca [] = Ret (fs, ca)"
| "arch_run fs ca ((w, ev) # evs) =
     (if ca_ended ca then Ret (fs, ca)
      else run_bind (arch_step w fs ca ev) (\<lambda>(fs, ca). arch_run fs ca evs))"

definition arch_Start ::
  "arch_world \<Rightarrow> file_system \<Rightarrow> archive_mgr \<Rightarrow> (arch_world \<times> arch_event) list \<Rightarrow> (file_system \<times> archive_mgr) run" where
  "arch_Start w fs ca evs = run_bind (arch_begin w fs ca) (\<lambda>(fs, ca). arch_run fs ca evs)"

section \<open>What is shown\<close>

text \<open>Without a stop request the status is final, and a request changes no file.\<close>

definition arch_done :: "string \<Rightarrow> archive_mgr \<Rightarrow> bool" where
  "arch_done st ca \<longleftrightarrow> ai_Status (ca_ti ca) = st \<and> st \<noteq> status_String TaskFailed"

fun calm :: "arch_event \<Rightarrow> bool" where
  "calm Arch_Stop = False"
| "calm (Arch_Cmp t shut) = (\<not> shut)"
| "calm _ = True"

lemma arch_step_calm:
  "calm ev \<Longrightarrow> arch_done st ca \<Longrightarrow> \<exists>ca'. arch_step w fs ca ev = Ret (fs, ca') \<and> arch_done st ca' \<and>
     ca_archiveDirPath ca' = ca_archiveDirPath ca \<and> ca_destFilePath ca' = ca_destFilePath ca \<and> ca_ti ca' = ca_ti ca"
  by (cases ev) (auto simp: arch_cmp_def Let_def arch_done_def arch_emit_def)

lemma arch_run_calm:
  "\<forall>(w, ev) \<in> set evs. calm ev \<Longrightarrow> arch_done st ca \<Longrightarrow> \<exists>ca'. arch_run fs ca evs = Ret (fs, ca') \<and> arch_done st ca' \<and>
     ca_ti ca' = ca_ti ca"
proof (induction evs arbitrary: ca)
  case (Cons x evs)
  obtain w ev where x: "x = (w, ev)" by (cases x)
  obtain ca1 where s: "arch_step w fs ca ev = Ret (fs, ca1)" "arch_done st ca1" "ca_ti ca1 = ca_ti ca"
    using arch_step_calm [of ev st ca w fs] Cons.prems x by auto
  then show ?case using Cons.IH [of ca1] Cons.prems x by auto
qed auto

text \<open>C38: an archive task.  With nothing at the source path it ends as FILE_NOT_EXISTED and no file
  changes.  With a directory of readable files and a destination that can be created, it ends as
  COMPLETED and the destination holds the archive of the directory.  A source that is there and cannot
  be opened brings the server down.  The status stays as it is whatever is compared and queried, as
  long as nobody stops the archive and no caller closes its answer channel early.\<close>

theorem archive_task_spec:
  assumes "\<forall>(w', ev) \<in> set evs. calm ev" "ca = NewCachedArchiveInfo now t"
  shows "(aw_src w (sa_ArchiveDirPath t) = None \<and> \<not> aw_statFails w (sa_ArchiveDirPath t) \<longrightarrow>
      (\<exists>ca'. arch_Start w fs ca evs = Ret (fs, ca') \<and> ai_Status (ca_ti ca') = ''FILE_NOT_EXISTED'' \<and>
        ai_FinishedAt (ca_ti ca') = Some (aw_now w))) \<and>
    (aw_src w (sa_ArchiveDirPath t) = Some (Node_Dir m True fis) \<and> \<not> aw_statFails w (sa_ArchiveDirPath t) \<and>
      good_fis fis \<and> snd (os_Create (aw_env w) fs (sa_DestFilePath t) []) \<longrightarrow>
      (\<exists>fs' ca' q p u g. arch_Start w fs ca evs = Ret (fs', ca') \<and> ai_Status (ca_ti ca') = ''COMPLETED'' \<and>
        ai_FinishedAt (ca_ti ca') = Some (aw_now w) \<and> locate (aw_env w) fs (sa_DestFilePath t) = Some q \<and>
        fs' q = Some (FS_File p u g (aw_enc w (tar_of (sa_ArchiveDirPath t) (Node_Dir m True fis), True))))) \<and>
    (aw_statFails w (sa_ArchiveDirPath t) \<or> aw_src w (sa_ArchiveDirPath t) = Some (Node_Dir m False fis) \<longrightarrow>
      arch_Start w fs ca evs = Panics)"
proof -
  have run: "\<exists>ca'. arch_run fs' (endArchive w ts c) evs = Ret (fs', ca') \<and> ai_Status (ca_ti ca') = status_String ts \<and>
      ai_FinishedAt (ca_ti ca') = Some (aw_now w)" if "ts \<noteq> TaskFailed" for fs' ts c
  proof -
    have "status_String ts \<noteq> status_String TaskFailed" using that by (cases ts) simp_all
    then have "arch_done (status_String ts) (endArchive w ts c)"
      by (simp add: arch_done_def endArchive_def arch_emit_def)
    then obtain ca' where "arch_run fs' (endArchive w ts c) evs = Ret (fs', ca')" "arch_done (status_String ts) ca'"
      "ca_ti ca' = ca_ti (endArchive w ts c)"
      using arch_run_calm [OF assms(1)] by blast
    then show ?thesis by (simp add: arch_done_def endArchive_def arch_emit_def)
  qed
  note d = arch_Start_def arch_begin_def arch_createTask_def assms(2) NewCachedArchiveInfo_def
  have A: "\<exists>ca'. arch_Start w fs ca evs = Ret (fs, ca') \<and> ai_Status (ca_ti ca') = ''FILE_NOT_EXISTED'' \<and>
        ai_FinishedAt (ca_ti ca') = Some (aw_now w)"
    if "aw_src w (sa_ArchiveDirPath t) = None \<and> \<not> aw_statFails w (sa_ArchiveDirPath t)"
    using that run [of TaskFileNotExist] by (simp add: d)
  have C: "arch_Start w fs ca evs = Panics"
    if "aw_statFails w (sa_ArchiveDirPath t) \<or> aw_src w (sa_ArchiveDirPath t) = Some (Node_Dir m False fis)"
    using that by (auto simp: d TarGz_def split_beta)
  have B: "\<exists>fs' ca' q p u g. arch_Start w fs ca evs = Ret (fs', ca') \<and> ai_Status (ca_ti ca') = ''COMPLETED'' \<and>
        ai_FinishedAt (ca_ti ca') = Some (aw_now w) \<and> locate (aw_env w) fs (sa_DestFilePath t) = Some q \<and>
        fs' q = Some (FS_File p u g (aw_enc w (tar_of (sa_ArchiveDirPath t) (Node_Dir m True fis), True)))"
    if a: "aw_src w (sa_ArchiveDirPath t) = Some (Node_Dir m True fis) \<and> \<not> aw_statFails w (sa_ArchiveDirPath t) \<and>
      good_fis fis \<and> snd (os_Create (aw_env w) fs (sa_DestFilePath t) [])"
  proof -
    have "good_fis fis" using a by blast
    then obtain fs' q p u g where "TarGz (aw_enc w) (aw_env w) (Some (Node_Dir m True fis)) fs (sa_ArchiveDirPath t)
        (sa_DestFilePath t) = Ret fs'"
      "locate (aw_env w) fs (sa_DestFilePath t) = Some q"
      "fs' q = Some (FS_File p u g (aw_enc w (tar_of (sa_ArchiveDirPath t) (Node_Dir m True fis), True)))"
      using TarGz_dir a by blast
    moreover obtain c where "arch_Start w fs ca evs = arch_run fs' (endArchive w TaskCompleted c) evs"
      using a calculation(1) by (simp add: d)
    moreover obtain ca' where "arch_run fs' (endArchive w TaskCompleted c) evs = Ret (fs', ca')"
      "ai_Status (ca_ti ca') = ''COMPLETED''" "ai_FinishedAt (ca_ti ca') = Some (aw_now w)"
      using run [of TaskCompleted fs' c] by auto
    ultimately show ?thesis by auto
  qed
  show ?thesis using A B C by blast
qed

text \<open>A destination that cannot be created is not noticed.\<close>

lemma unwritten_archive_completes:
  assumes "aw_src w (sa_ArchiveDirPath t) = Some (Node_Dir m True fis)" "\<not> aw_statFails w (sa_ArchiveDirPath t)"
    "os_Create (aw_env w) fs (sa_DestFilePath t) [] = (fs, False)"
  shows "\<exists>ca. arch_Start w fs (NewCachedArchiveInfo now t) [] = Ret (fs, ca) \<and> ai_Status (ca_ti ca) = ''COMPLETED''"
proof -
  have "fst (os_Create (aw_env w) fs (sa_DestFilePath t) c) = fs" for c
    using assms(3) by (auto simp: os_Create_def create_at_def split: if_splits option.splits fs_entry.splits)
  then show ?thesis using assms
    by (simp add: arch_Start_def arch_begin_def arch_createTask_def NewCachedArchiveInfo_def TarGz_def
      endArchive_def arch_emit_def)
qed

definition demo_archive :: start_archive where
  "demo_archive = \<lparr>sa_ID = ''x'', sa_FileType = 1, sa_Gid = 1, sa_Version = 1, sa_StorageDir = [],
     sa_ArchiveDirPath = ''/s'', sa_DestFilePath = ''/n''\<rparr>"

definition demo_arch_world :: arch_world where
  "demo_arch_world = \<lparr>aw_now = 5, aw_env = demo_os, aw_enc = (\<lambda>_. [1]),
     aw_src = (\<lambda>p. if p = ''/s'' then Some (Node_Dir 493 True demo_fis) else None), aw_statFails = (\<lambda>_. False)\<rparr>"

lemma archive_task_spec_witness:
  "\<exists>fs' ca' p u g. arch_Start demo_arch_world demo_fs (NewCachedArchiveInfo 4 demo_archive)
      [(demo_arch_world, Arch_Query), (demo_arch_world, Arch_Cmp demo_archive False)] = Ret (fs', ca') \<and>
    ai_Status (ca_ti ca') = ''COMPLETED'' \<and> fs' [''n''] = Some (FS_File p u g [1])"
proof -
  let ?evs = "[(demo_arch_world, Arch_Query), (demo_arch_world, Arch_Cmp demo_archive False)]"
  have "\<forall>(w', ev) \<in> set ?evs. calm ev" by simp
  note s = archive_task_spec [OF this refl, of demo_arch_world demo_archive demo_fs 4 493 demo_fis]
  show ?thesis using s demo_good(1) demo_paths demo_Create
    by (simp add: demo_arch_world_def demo_archive_def) metis
qed

end
