(* ===== verification/Handler.thy ===== *)
theory Handler
  imports Service ArchiveMgnt SessMgnt
begin

text \<open>
  The HTTP interfaces: \<open>server/server.go\<close>, \<open>server/handler.go\<close>, \<open>agent/agent.go\<close>,
  \<open>agent/handler.go\<close>.  The server's cache (gcache) is third-party code and is a record of its
  operations; it maps ids to references to task and archive objects, which are goroutines of their
  own.  A handler that needs an answer of a goroutine waits until that goroutine serves, so the
  model lets the goroutine take its turn within the handler, and \<open>Blocks\<close> is a wait.  A panic in
  a handler is caught by \<open>net/http\<close> and aborts the request (\<open>Aborted\<close>); a panic elsewhere ends the
  process (\<open>Panics\<close>).  A body that cannot be decoded is \<open>None\<close>.
\<close>

section \<open>The server (server.go)\<close>

datatype cached = Task_Ref nat | Archive_Ref nat

text \<open>The two functions the handlers register with \<open>OnEvicted\<close>.\<close>

datatype evict_fun = Quit_Task_Of | Quit_Archive_Of

record 'c gcache =
  gc_Get :: "'c \<Rightarrow> string \<Rightarrow> cached option"
  gc_Set :: "'c \<Rightarrow> string \<Rightarrow> cached \<Rightarrow> 'c"
  gc_OnEvicted :: "'c \<Rightarrow> evict_fun \<Rightarrow> 'c"
  gc_evicted :: "'c \<Rightarrow> evict_fun option"

datatype response = Text int string | Json_Text int string | Json_Task int task_info
  | Json_Archive int archive_info | Bad_Body | Aborted

record 'c server =
  sv_cfg :: config
  sv_cache :: 'c
  sv_tasks :: "task_mgr list"
  sv_archives :: "archive_mgr list"
  sv_reports :: "nat \<Rightarrow> status_report list" \<comment> \<open>\<open>reportChan\<close> of each task, which holds ten\<close>
  sv_fs :: file_system

definition server_routes :: "(string \<times> string) list" where
  "server_routes = [(''POST'', ''/api/v1/server/tasks''), (''DELETE'', ''/api/v1/server/tasks/:id''),
     (''GET'', ''/api/v1/server/tasks/:id''), (''POST'', ''/api/v1/server/tasks/status''),
     (''POST'', ''/api/v1/server/archive''), (''GET'', ''/api/v1/server/archive/:id'')]"

definition upd_task :: "'c server \<Rightarrow> nat \<Rightarrow> task_mgr \<Rightarrow> 'c server" where
  "upd_task sv i ct = sv\<lparr>sv_tasks := (sv_tasks sv)[i := ct]\<rparr>"

definition upd_archive :: "'c server \<Rightarrow> nat \<Rightarrow> file_system \<times> archive_mgr \<Rightarrow> 'c server" where
  "upd_archive sv i r = sv\<lparr>sv_archives := (sv_archives sv)[i := snd r], sv_fs := fst r\<rparr>"

section \<open>Its handlers (handler.go)\<close>

text \<open>A turn of the goroutine of task \<open>i\<close>, or of archive \<open>i\<close>, while a handler waits for it.\<close>

definition task_turn :: "task_world \<Rightarrow> 'c server \<Rightarrow> nat \<Rightarrow> ct_event \<Rightarrow> 'c server run" where
  "task_turn w sv i ev =
     (if ct_phase (sv_tasks sv ! i) \<noteq> Serving then Blocks
      else run_bind (run_of (ct_step w (sv_tasks sv ! i) ev)) (\<lambda>ct. Ret (upd_task sv i ct)))"

definition archive_turn :: "arch_world \<Rightarrow> 'c server \<Rightarrow> nat \<Rightarrow> arch_event \<Rightarrow> 'c server run" where
  "archive_turn w sv i ev =
     (if ca_ended (sv_archives sv ! i) then Blocks
      else run_bind (arch_step w (sv_fs sv) (sv_archives sv ! i) ev) (\<lambda>r. Ret (upd_archive sv i r)))"

text \<open>\<open>EqualCmp\<close>: the first answer counts.\<close>

definition task_EqualCmp :: "create_task \<Rightarrow> task_mgr \<Rightarrow> bool" where
  "task_EqualCmp t ct \<longleftrightarrow>
     equalSlice (cr_DestIPs t) (ct_destIPs ct) \<and> equalSlice (cr_DispatchFiles t) (ct_dispatchFiles ct)"

definition archive_EqualCmp :: "start_archive \<Rightarrow> archive_mgr \<Rightarrow> bool" where
  "archive_EqualCmp t ca \<longleftrightarrow>
     sa_ArchiveDirPath t = ca_archiveDirPath ca \<and> sa_DestFilePath t = ca_destFilePath ca"

definition CreateTask ::
  "'c gcache \<Rightarrow> task_world \<Rightarrow> bool \<Rightarrow> 'c server \<Rightarrow> create_task option \<Rightarrow> ('c server \<times> response) run" where
  "CreateTask g w shut sv req =
     (case req of
        None \<Rightarrow> Ret (sv, Bad_Body)
      | Some t \<Rightarrow>
          (case gc_Get g (sv_cache sv) (cr_ID t) of
             Some (Task_Ref i) \<Rightarrow>
               run_bind (task_turn w sv i (Cmp t shut)) (\<lambda>sv'. Ret (sv',
                 if task_EqualCmp t (sv_tasks sv ! i) then Text 202 [] else Text 400 (status_String TaskExist)))
           | Some (Archive_Ref _) \<Rightarrow> Ret (sv, Aborted)
           | None \<Rightarrow>
               run_bind (run_of (TaskMgnt.createTask w (NewCachedTaskInfo (sv_cfg sv) (tw_now w) t))) (\<lambda>ct.
                 Ret (sv\<lparr>sv_cache := gc_OnEvicted g (gc_Set g (sv_cache sv) (cr_ID t) (Task_Ref (length (sv_tasks sv))))
                        Quit_Task_Of, sv_tasks := sv_tasks sv @ [ct]\<rparr>, Text 202 []))))"

definition CancelTask :: "'c gcache \<Rightarrow> task_world \<Rightarrow> 'c server \<Rightarrow> string \<Rightarrow> ('c server \<times> response) run" where
  "CancelTask g w sv i =
     (case gc_Get g (sv_cache sv) i of
        None \<Rightarrow> Ret (sv, Text 400 (status_String TaskNotExist))
      | Some (Archive_Ref _) \<Rightarrow> Ret (sv, Aborted)
      | Some (Task_Ref j) \<Rightarrow> run_bind (task_turn w sv j Stop_Task) (\<lambda>sv. Ret (sv, Json_Text 202 [])))"

definition QueryTask :: "'c gcache \<Rightarrow> task_world \<Rightarrow> 'c server \<Rightarrow> string \<Rightarrow> ('c server \<times> response) run" where
  "QueryTask g w sv i =
     (case gc_Get g (sv_cache sv) i of
        None \<Rightarrow> Ret (sv, Text 400 (status_String TaskNotExist))
      | Some (Archive_Ref _) \<Rightarrow> Ret (sv, Aborted)
      | Some (Task_Ref j) \<Rightarrow> run_bind (task_turn w sv j Query_Task) (\<lambda>sv'.
          Ret (sv', Json_Task 200 (ct_ti (sv_tasks sv ! j)))))"

text \<open>A report is put into the channel of the task; the goroutine takes it in a turn of its own.\<close>

definition ReportTask :: "'c gcache \<Rightarrow> 'c server \<Rightarrow> status_report option \<Rightarrow> ('c server \<times> response) run" where
  "ReportTask g sv req =
     (case req of
        None \<Rightarrow> Ret (sv, Bad_Body)
      | Some csr \<Rightarrow>
          (case gc_Get g (sv_cache sv) (sr_TaskID csr) of
             None \<Rightarrow> Ret (sv, Text 200 [])
           | Some (Archive_Ref _) \<Rightarrow> Ret (sv, Aborted)
           | Some (Task_Ref j) \<Rightarrow> run_bind (chan_send 10 False (sv_reports sv j) csr)
               (\<lambda>q. Ret (sv\<lparr>sv_reports := (sv_reports sv)(j := q)\<rparr>, Text 200 []))))"

definition take_report :: "task_world \<Rightarrow> 'c server \<Rightarrow> nat \<Rightarrow> 'c server run" where
  "take_report w sv j =
     (case sv_reports sv j of
        [] \<Rightarrow> Blocks
      | csr # q \<Rightarrow> task_turn w (sv\<lparr>sv_reports := (sv_reports sv)(j := q)\<rparr>) j (Report csr))"

definition StartArchive ::
  "'c gcache \<Rightarrow> arch_world \<Rightarrow> bool \<Rightarrow> 'c server \<Rightarrow> start_archive option \<Rightarrow> ('c server \<times> response) run" where
  "StartArchive g w shut sv req =
     (case req of
        None \<Rightarrow> Ret (sv, Bad_Body)
      | Some a \<Rightarrow>
          (case gc_Get g (sv_cache sv) (sa_ID a) of
             Some (Archive_Ref i) \<Rightarrow>
               run_bind (archive_turn w sv i (Arch_Cmp a shut)) (\<lambda>sv'. Ret (sv',
                 if archive_EqualCmp a (sv_archives sv ! i) then Text 202 [] else Text 400 (status_String TaskExist)))
           | Some (Task_Ref _) \<Rightarrow> Ret (sv, Aborted)
           | None \<Rightarrow>
               run_bind (arch_begin w (sv_fs sv) (NewCachedArchiveInfo (aw_now w) a)) (\<lambda>(fs, ca).
                 Ret (sv\<lparr>sv_cache := gc_OnEvicted g (gc_Set g (sv_cache sv) (sa_ID a) (Archive_Ref (length (sv_archives sv))))
                        Quit_Archive_Of, sv_archives := sv_archives sv @ [ca], sv_fs := fs\<rparr>, Text 200 []))))"

definition QueryArchiveTask :: "'c gcache \<Rightarrow> arch_world \<Rightarrow> 'c server \<Rightarrow> string \<Rightarrow> ('c server \<times> response) run" where
  "QueryArchiveTask g w sv i =
     (case gc_Get g (sv_cache sv) i of
        None \<Rightarrow> Ret (sv, Text 400 (status_String TaskNotExist))
      | Some (Task_Ref _) \<Rightarrow> Ret (sv, Aborted)
      | Some (Archive_Ref j) \<Rightarrow> run_bind (archive_turn w sv j Arch_Query) (\<lambda>sv'.
          Ret (sv', Json_Archive 200 (ca_ti (sv_archives sv ! j)))))"

text \<open>The cache drops an entry: it calls the registered function, outside any request.\<close>

definition evict :: "'c gcache \<Rightarrow> task_world \<Rightarrow> arch_world \<Rightarrow> 'c server \<Rightarrow> string \<Rightarrow> 'c server run" where
  "evict g tw aw sv i =
     (case (gc_evicted g (sv_cache sv), gc_Get g (sv_cache sv) i) of
        (Some Quit_Task_Of, Some (Task_Ref j)) \<Rightarrow> task_turn tw sv j Quit_Task
      | (Some Quit_Archive_Of, Some (Archive_Ref j)) \<Rightarrow> archive_turn aw sv j Arch_Quit
      | (Some _, Some _) \<Rightarrow> Panics
      | _ \<Rightarrow> Ret sv)"

definition NewServer :: "'c \<Rightarrow> config \<Rightarrow> file_system \<Rightarrow> 'c server" where
  "NewServer c cfg fs = \<lparr>sv_cfg = cfg, sv_cache = c, sv_tasks = [], sv_archives = [], sv_reports = (\<lambda>_. []),
     sv_fs = fs\<rparr>"

section \<open>The agent (agent.go, handler.go)\<close>

text \<open>
  Each request starts a goroutine that waits to hand its message to the session manager:
  \<open>ag_pending\<close> are those that wait.  The manager takes them in any order.
\<close>

record agent =
  ag_cfg :: config
  ag_mgr :: sess_mgr
  ag_pending :: "mgr_event list"

definition agent_routes :: "(string \<times> string) list" where
  "agent_routes = [(''POST'', ''/api/v1/agent/tasks''), (''POST'', ''/api/v1/agent/tasks/start''),
     (''DELETE'', ''/api/v1/agent/tasks/:id'')]"

definition NewAgent :: "config \<Rightarrow> disk \<Rightarrow> agent option" where
  "NewAgent cfg d = map_option (\<lambda>m. \<lparr>ag_cfg = cfg, ag_mgr = m, ag_pending = []\<rparr>) (NewSessionMgnt cfg d)"

definition agent_CreateTask :: "agent \<Rightarrow> dispatch_task option \<Rightarrow> agent \<times> response" where
  "agent_CreateTask a req = (case req of None \<Rightarrow> (a, Bad_Body)
     | Some dt \<Rightarrow> (a\<lparr>ag_pending := ag_pending a @ [Recv_Create dt]\<rparr>, Text 200 []))"

definition agent_StartTask :: "agent \<Rightarrow> start_task option \<Rightarrow> agent \<times> response" where
  "agent_StartTask a req = (case req of None \<Rightarrow> (a, Bad_Body)
     | Some st \<Rightarrow> (a\<lparr>ag_pending := ag_pending a @ [Recv_Start st]\<rparr>, Text 200 []))"

definition agent_CancelTask :: "agent \<Rightarrow> string \<Rightarrow> agent \<times> response" where
  "agent_CancelTask a i = (a\<lparr>ag_pending := ag_pending a @ [Api_Stop i]\<rparr>, Text 200 [])"

text \<open>The manager takes the \<open>k\<close>-th waiting message.\<close>

definition agent_deliver :: "world \<Rightarrow> agent \<Rightarrow> nat \<Rightarrow> agent option" where
  "agent_deliver w a k =
     (if k < length (ag_pending a) \<and> mgr_ok (ag_mgr a) (ag_pending a ! k)
      then map_option (\<lambda>m. a\<lparr>ag_mgr := m, ag_pending := take k (ag_pending a) @ drop (Suc k) (ag_pending a)\<rparr>)
        (mgr_step w (ag_mgr a) (ag_pending a ! k))
      else None)"

end
