(* ===== verification/HandlerProps.thy ===== *)
theory HandlerProps
  imports Handler TaskProps
begin

text \<open>
  What the interface of the server answers, under the documented behaviour of the cache: a value is
  found under its key until it is dropped, and the function registered last is called then.
\<close>

definition gcache_ok :: "'c gcache \<Rightarrow> bool" where
  "gcache_ok g \<longleftrightarrow>
     (\<forall>c k v k'. gc_Get g (gc_Set g c k v) k' = (if k' = k then Some v else gc_Get g c k')) \<and>
     (\<forall>c f k. gc_Get g (gc_OnEvicted g c f) k = gc_Get g c k) \<and>
     (\<forall>c f. gc_evicted g (gc_OnEvicted g c f) = Some f) \<and>
     (\<forall>c k v. gc_evicted g (gc_Set g c k v) = gc_evicted g c)"

lemma gcache_simps:
  assumes "gcache_ok g"
  shows "gc_Get g (gc_Set g c k v) k' = (if k' = k then Some v else gc_Get g c k')"
    "gc_Get g (gc_OnEvicted g c f) k = gc_Get g c k" "gc_evicted g (gc_OnEvicted g c f) = Some f"
    "gc_evicted g (gc_Set g c k v) = gc_evicted g c"
  using assms by (simp_all add: gcache_ok_def)

text \<open>Every reference in the cache has its object.\<close>

definition refs_ok :: "'c gcache \<Rightarrow> 'c server \<Rightarrow> bool" where
  "refs_ok g sv \<longleftrightarrow> (\<forall>k. case gc_Get g (sv_cache sv) k of
     None \<Rightarrow> True | Some (Task_Ref i) \<Rightarrow> i < length (sv_tasks sv) | Some (Archive_Ref i) \<Rightarrow> i < length (sv_archives sv))"

lemma CreateTask_new:
  assumes "gc_Get g (sv_cache sv) (cr_ID t) = None"
  shows "CreateTask g w shut sv (Some t) =
    (case TaskMgnt.createTask w (NewCachedTaskInfo (sv_cfg sv) (tw_now w) t) of
       None \<Rightarrow> Panics
     | Some ct \<Rightarrow> Ret (sv\<lparr>sv_cache := gc_OnEvicted g (gc_Set g (sv_cache sv) (cr_ID t) (Task_Ref (length (sv_tasks sv))))
          Quit_Task_Of, sv_tasks := sv_tasks sv @ [ct]\<rparr>, Text 202 []))"
  using assms by (simp add: CreateTask_def split: option.split)

lemma StartArchive_new:
  assumes "gc_Get g (sv_cache sv) (sa_ID a) = None"
  shows "StartArchive g w shut sv (Some a) =
    (case arch_begin w (sv_fs sv) (NewCachedArchiveInfo (aw_now w) a) of
       Panics \<Rightarrow> Panics | Blocks \<Rightarrow> Blocks
     | Ret (fs, ca) \<Rightarrow> Ret (sv\<lparr>sv_cache := gc_OnEvicted g (gc_Set g (sv_cache sv) (sa_ID a)
           (Archive_Ref (length (sv_archives sv)))) Quit_Archive_Of, sv_archives := sv_archives sv @ [ca], sv_fs := fs\<rparr>,
         Text 200 []))"
  using assms by (simp add: StartArchive_def split: run.split prod.split)

text \<open>What the comparison of a repeated create looks at: both pairs of lists, through \<open>equalSlice\<close>.\<close>

definition same_lists :: "create_task \<Rightarrow> create_task \<Rightarrow> bool" where
  "same_lists t' t \<longleftrightarrow>
     equalSlice (cr_DestIPs t') (cr_DestIPs t) \<and> equalSlice (cr_DispatchFiles t') (cr_DispatchFiles t)"

text \<open>C37: the life of a task at the interface.  A create with an id that is not cached is accepted,
  and from then on the id answers: in whatever state the task is when it serves requests, a query
  returns that state, and no further create with the id makes a second task.  Whether such a
  create is accepted is decided by equalSlice alone: it is accepted when the destinations and
  the files pass that comparison, and otherwise refused, so lists with two different entries are
  refused even when they are the same lists.  A refused create takes the server down
  when the handler has closed its channel before the second answer; without that, and for an
  accepted one, the reply is given whenever the task has not failed (a failed task is started
  again first).  A request for the id at the archive interface is aborted, an id that is not cached
  is refused, and what other ids refer to does not change.\<close>

theorem task_requests:
  assumes g: "gcache_ok g" and new: "gc_Get g (sv_cache sv) (cr_ID t) = None"
    and ct: "TaskMgnt.createTask w (NewCachedTaskInfo (sv_cfg sv) (tw_now w) t) = Some ct"
    and hosts: "\<forall>ip \<in> set (cr_DestIPs t). plain_host ip" "distinct (cr_DestIPs t)"
    and run: "ct_runs ct ct2" "ct_phase ct2 = Serving"
  shows "QueryTask g w' sv (cr_ID t) = Ret (sv, Text 400 ''TASK_NOT_EXISTED'') \<and>
    (\<exists>sv'. CreateTask g w shut sv (Some t) = Ret (sv', Text 202 []) \<and>
      sv_tasks sv' = sv_tasks sv @ [ct] \<and>
      (\<forall>k. k \<noteq> cr_ID t \<longrightarrow> gc_Get g (sv_cache sv') k = gc_Get g (sv_cache sv) k) \<and>
      (let sv2 = upd_task sv' (length (sv_tasks sv)) ct2 in
        QueryArchiveTask g aw sv2 (cr_ID t) = Ret (sv2, Aborted) \<and>
        (\<exists>sv''. QueryTask g w' sv2 (cr_ID t) = Ret (sv'', Json_Task 200 (ct_ti ct2))) \<and>
        (\<forall>t' b'. cr_ID t' = cr_ID t \<longrightarrow>
          (\<not> same_lists t' t \<and> b' \<longrightarrow> CreateTask g w' b' sv2 (Some t') = Panics) \<and>
          (\<forall>sv'' r. CreateTask g w' b' sv2 (Some t') = Ret (sv'', r) \<longrightarrow>
            length (sv_tasks sv'') = length (sv_tasks sv2) \<and> sv_cache sv'' = sv_cache sv2 \<and>
            r = (if same_lists t' t then Text 202 [] else Text 400 ''TASK_EXISTED'')) \<and>
          ((same_lists t' t \<or> \<not> b') \<and> ti_Status (ct_ti ct2) \<noteq> ''FAILED'' \<longrightarrow>
            (\<exists>sv'' r. CreateTask g w' b' sv2 (Some t') = Ret (sv'', r))))))"
proof -
  define n where "n = length (sv_tasks sv)"
  define sv' where "sv' = sv\<lparr>sv_cache := gc_OnEvicted g (gc_Set g (sv_cache sv) (cr_ID t) (Task_Ref n)) Quit_Task_Of,
    sv_tasks := sv_tasks sv @ [ct]\<rparr>"
  define sv2 where "sv2 = upd_task sv' n ct2"
  have get: "gc_Get g (sv_cache sv') k = (if k = cr_ID t then Some (Task_Ref n) else gc_Get g (sv_cache sv) k)" for k
    by (simp add: sv'_def gcache_simps [OF g])
  have get2: "gc_Get g (sv_cache sv2) (cr_ID t) = Some (Task_Ref n)" by (simp add: sv2_def upd_task_def get)
  have nth: "sv_tasks sv2 ! n = ct2" by (simp add: sv2_def upd_task_def sv'_def n_def)
  have "fixed ct2 = (sv_cfg sv, cr_ID t, cr_DestIPs t, cr_DispatchFiles t)"
    using task_run_inv(3) [OF ct run(1) hosts] by (simp add: fixed_def)
  then have l: "ct_destIPs ct2 = cr_DestIPs t" "ct_dispatchFiles ct2 = cr_DispatchFiles t"
    by (simp_all add: fixed_def)
  have q0: "QueryTask g w' sv (cr_ID t) = Ret (sv, Text 400 ''TASK_NOT_EXISTED'')" using new by (simp add: QueryTask_def)
  have c0: "CreateTask g w shut sv (Some t) = Ret (sv', Text 202 [])"
    by (simp add: CreateTask_new [where g = g, OF new] ct sv'_def n_def)
  have a0: "QueryArchiveTask g aw sv2 (cr_ID t) = Ret (sv2, Aborted)" by (simp add: QueryArchiveTask_def get2)
  have q1: "\<exists>sv''. QueryTask g w' sv2 (cr_ID t) = Ret (sv'', Json_Task 200 (ct_ti ct2))"
    by (simp add: QueryTask_def get2 nth task_turn_def run(2))
  have again: "(\<not> same_lists t' t \<and> b' \<longrightarrow> CreateTask g w' b' sv2 (Some t') = Panics) \<and>
      (\<forall>sv'' r. CreateTask g w' b' sv2 (Some t') = Ret (sv'', r) \<longrightarrow>
        length (sv_tasks sv'') = length (sv_tasks sv2) \<and> sv_cache sv'' = sv_cache sv2 \<and>
        r = (if same_lists t' t then Text 202 [] else Text 400 ''TASK_EXISTED'')) \<and>
      ((same_lists t' t \<or> \<not> b') \<and> ti_Status (ct_ti ct2) \<noteq> ''FAILED'' \<longrightarrow>
        (\<exists>sv'' r. CreateTask g w' b' sv2 (Some t') = Ret (sv'', r)))"
    if id: "cr_ID t' = cr_ID t" for t' b'
  proof -
    have c: "CreateTask g w' b' sv2 (Some t') = (case cmpTask w' t' b' ct2 of
        None \<Rightarrow> Panics
      | Some ct3 \<Rightarrow> Ret (upd_task sv2 n ct3, if same_lists t' t then Text 202 [] else Text 400 ''TASK_EXISTED''))"
      by (simp add: CreateTask_def id get2 nth task_turn_def run(2) task_EqualCmp_def same_lists_def l split: option.split)
    have p: "cmpTask w' t' b' ct2 = None" if "\<not> same_lists t' t" "b'"
      using that by (simp add: cmpTask_def same_lists_def l Let_def)
    have e: "cmpTask w' t' b' ct2 \<noteq> None" if "same_lists t' t \<or> \<not> b'" "ti_Status (ct_ti ct2) \<noteq> ''FAILED''"
      using that by (simp add: cmpTask_def same_lists_def l Let_def emit_def)
    define x where "x = CreateTask g w' b' sv2 (Some t')"
    show ?thesis
    proof (cases "cmpTask w' t' b' ct2")
      case None
      then have "x = Panics" "\<not> ((same_lists t' t \<or> \<not> b') \<and> ti_Status (ct_ti ct2) \<noteq> ''FAILED'')"
        using c e by (simp add: x_def, blast)
      then show ?thesis unfolding x_def [symmetric] by auto
    next
      case (Some ct3)
      then have "x = Ret (upd_task sv2 n ct3, if same_lists t' t then Text 202 [] else Text 400 ''TASK_EXISTED'')"
        "same_lists t' t \<or> \<not> b'" using c p by (simp add: x_def, fastforce)
      then show ?thesis unfolding x_def [symmetric] by (auto simp: upd_task_def)
    qed
  qed
  have ts: "sv_tasks sv' = sv_tasks sv @ [ct]" by (simp add: sv'_def)
  have fr: "\<forall>k. k \<noteq> cr_ID t \<longrightarrow> gc_Get g (sv_cache sv') k = gc_Get g (sv_cache sv) k" by (simp add: get)
  show ?thesis
    unfolding n_def [symmetric] Let_def
    by (rule conjI [OF q0], rule exI [of _ sv'], fold sv2_def, rule conjI [OF c0], rule conjI [OF ts],
      rule conjI [OF fr], rule conjI [OF a0], rule conjI [OF q1], intro allI impI, erule again)
qed

text \<open>C40: one function is registered with the cache for tasks and archives alike, and it expects the
  kind that was created last.  After a task and then an archive were created, the server goes down
  when the task's entry is dropped; after an archive and then a task, when the archive's entry
  is.\<close>

theorem cross_kind_eviction:
  assumes g: "gcache_ok g" and ids: "cr_ID t \<noteq> sa_ID a"
    and new: "gc_Get g (sv_cache sv) (cr_ID t) = None" "gc_Get g (sv_cache sv) (sa_ID a) = None"
  shows "(\<forall>sv1 sv2 r1 r2. CreateTask g w b1 sv (Some t) = Ret (sv1, r1) \<and> StartArchive g aw b2 sv1 (Some a) = Ret (sv2, r2)
      \<longrightarrow> evict g w' aw' sv2 (cr_ID t) = Panics) \<and>
    (\<forall>sv1 sv2 r1 r2. StartArchive g aw b2 sv (Some a) = Ret (sv1, r1) \<and> CreateTask g w b1 sv1 (Some t) = Ret (sv2, r2)
      \<longrightarrow> evict g w' aw' sv2 (sa_ID a) = Panics)"
proof -
  have c: "gc_Get g (sv_cache s1) k = (if k = cr_ID t then Some (Task_Ref (length (sv_tasks s))) else gc_Get g (sv_cache s) k)"
    "gc_evicted g (sv_cache s1) = Some Quit_Task_Of"
    if "CreateTask g w b1 s (Some t) = Ret (s1, r)" "gc_Get g (sv_cache s) (cr_ID t) = None" for s s1 r k
    using that(1) unfolding CreateTask_new [where g = g, OF that(2)]
    by (auto simp: gcache_simps [OF g] split: option.splits)
  have d: "gc_Get g (sv_cache s1) k = (if k = sa_ID a then Some (Archive_Ref (length (sv_archives s))) else gc_Get g (sv_cache s) k)"
    "gc_evicted g (sv_cache s1) = Some Quit_Archive_Of"
    if "StartArchive g aw b2 s (Some a) = Ret (s1, r)" "gc_Get g (sv_cache s) (sa_ID a) = None" for s s1 r k
    using that(1) unfolding StartArchive_new [where g = g, OF that(2)]
    by (auto simp: gcache_simps [OF g] split: run.splits prod.splits)
  have "evict g w' aw' sv2 (cr_ID t) = Panics"
    if "CreateTask g w b1 sv (Some t) = Ret (sv1, r1)" "StartArchive g aw b2 sv1 (Some a) = Ret (sv2, r2)" for sv1 sv2 r1 r2
  proof -
    have "gc_Get g (sv_cache sv1) (sa_ID a) = None" using c(1) [OF that(1) new(1), of "sa_ID a"] ids new(2) by simp
    then show ?thesis
      using d [OF that(2)] c(1) [OF that(1) new(1), of "cr_ID t"] ids by (simp add: evict_def)
  qed
  moreover have "evict g w' aw' sv2 (sa_ID a) = Panics"
    if "StartArchive g aw b2 sv (Some a) = Ret (sv1, r1)" "CreateTask g w b1 sv1 (Some t) = Ret (sv2, r2)" for sv1 sv2 r1 r2
  proof -
    have "gc_Get g (sv_cache sv1) (cr_ID t) = None" using d(1) [OF that(1) new(2), of "cr_ID t"] ids new(1) by simp
    then show ?thesis
      using c [OF that(2)] d(1) [OF that(1) new(2), of "sa_ID a"] ids by (simp add: evict_def)
  qed
  ultimately show ?thesis by blast
qed

section \<open>Instances\<close>

text \<open>A cache that is a list of its entries and the registered function.\<close>

definition list_cache :: "((string \<times> cached) list \<times> evict_fun option) gcache" where
  "list_cache = \<lparr>gc_Get = (\<lambda>c. map_of (fst c)), gc_Set = (\<lambda>c k v. ((k, v) # fst c, snd c)),
     gc_OnEvicted = (\<lambda>c f. (fst c, Some f)), gc_evicted = snd\<rparr>"

lemma list_cache_ok: "gcache_ok list_cache"
  by (simp add: gcache_ok_def list_cache_def)

lemma archive_begins: "\<exists>fs ca. arch_begin demo_arch_world demo_fs (NewCachedArchiveInfo 5 demo_archive) = Ret (fs, ca)"
proof -
  show ?thesis using TarGz_dir [OF demo_good(1) demo_Create(2), of "\<lambda>_. [1]" 493 "''/s''"]
    by (auto simp: arch_begin_def arch_createTask_def demo_arch_world_def demo_archive_def NewCachedArchiveInfo_def)
qed

lemma task_requests_witness:
  "\<exists>ct ct2. TaskMgnt.createTask ex_tw (NewCachedTaskInfo ex_server_cfg 5 ex_create) = Some ct \<and> ct_runs ct ct2 \<and>
    (\<exists>sv' sv''. CreateTask list_cache ex_tw False (NewServer ([], None) ex_server_cfg demo_fs) (Some ex_create) =
        Ret (sv', Text 202 []) \<and>
      QueryTask list_cache ex_tw (upd_task sv' 0 ct2) (cr_ID ex_create) = Ret (sv'', Json_Task 200 (ct_ti ct2)))"
proof -
  obtain ct where c: "TaskMgnt.createTask ex_tw (NewCachedTaskInfo ex_server_cfg 5 ex_create) = Some ct"
    and p: "ct_phase ct = In_Create" "ct_succCount ct = 0" using ex_createTask by blast
  define ct2 where "ct2 = created ex_tw TaskFailed ct"
  have "ct_next ct ct2" unfolding ct2_def
    by (rule ct_next.event [of ct Rsp_Timeout ex_tw]) (simp_all add: p)
  then have r: "ct_runs ct ct2" "ct_phase ct2 = Serving" using created_phase by (simp_all add: ct2_def)
  have h: "\<forall>ip \<in> set (cr_DestIPs ex_create). plain_host ip" "distinct (cr_DestIPs ex_create)"
    by (simp_all add: ex_create_def plain_host_def)
  have n: "gc_Get list_cache (sv_cache (NewServer ([], None) ex_server_cfg demo_fs)) (cr_ID ex_create) = None"
    by (simp add: list_cache_def NewServer_def)
  have t: "TaskMgnt.createTask ex_tw (NewCachedTaskInfo (sv_cfg (NewServer ([], None) ex_server_cfg demo_fs))
      (tw_now ex_tw) ex_create) = Some ct" using c by (simp add: NewServer_def ex_tw_def)
  show ?thesis
    using task_requests [OF list_cache_ok n t h r, of ex_tw False demo_arch_world] c r
    by (auto simp: Let_def NewServer_def)
qed

lemma cross_kind_eviction_witness:
  "\<exists>sv1 sv2. CreateTask list_cache ex_tw False (NewServer ([], None) ex_server_cfg demo_fs) (Some ex_create) =
      Ret (sv1, Text 202 []) \<and>
    StartArchive list_cache demo_arch_world False sv1 (Some demo_archive) = Ret (sv2, Text 200 []) \<and>
    evict list_cache ex_tw demo_arch_world sv2 (cr_ID ex_create) = Panics"
proof -
  let ?sv = "NewServer ([], None) ex_server_cfg demo_fs"
  obtain ct where c: "TaskMgnt.createTask ex_tw (NewCachedTaskInfo ex_server_cfg 5 ex_create) = Some ct"
    using ex_createTask by blast
  have ids: "cr_ID ex_create \<noteq> sa_ID demo_archive" by (simp add: ex_create_def demo_archive_def)
  have n: "gc_Get list_cache (sv_cache ?sv) k = None" for k by (simp add: list_cache_def NewServer_def)
  obtain sv1 where s1: "CreateTask list_cache ex_tw False ?sv (Some ex_create) = Ret (sv1, Text 202 [])"
    "gc_Get list_cache (sv_cache sv1) (sa_ID demo_archive) = None" "sv_fs sv1 = demo_fs"
    using CreateTask_new [where g = list_cache, OF n, of ex_tw False] c ids
    by (auto simp: NewServer_def ex_tw_def list_cache_def)
  obtain fs ca where "arch_begin demo_arch_world demo_fs (NewCachedArchiveInfo 5 demo_archive) = Ret (fs, ca)"
    using archive_begins by blast
  then obtain sv2 where s2: "StartArchive list_cache demo_arch_world False sv1 (Some demo_archive) = Ret (sv2, Text 200 [])"
    using StartArchive_new [where g = list_cache, OF s1(2), of demo_arch_world False] s1(3)
    by (simp add: demo_arch_world_def)
  show ?thesis
    using cross_kind_eviction [OF list_cache_ok ids n n, of ex_tw False demo_arch_world False ex_tw demo_arch_world]
      s1(1) s2 by blast
qed

end
