(* ===== verification/CacheProvider.thy ===== *)
theory CacheProvider
  imports Cache Flowctrl "HOL-Library.AList"
begin

text \<open>
  \<open>p2p/cache.go\<close>: the provider that shares its capacity among the caches of all tasks.  The map of
  caches is a list in the order Go visits it, which only the sum in floating point can notice;
  \<open>sq\<close> is \<open>math.Sqrt\<close>.
\<close>

record cache_provider =
  cp_capacity :: int
  cp_caches :: "(string \<times> ramcache) list"

definition NewRAMCacheProvider :: "int \<Rightarrow> cache_provider" where
  "NewRAMCacheProvider capacity = \<lparr>cp_capacity = capacity, cp_caches = []\<rparr>"

text \<open>The share of one cache.  With only empty tasks, or pieces of size 0, the quotient is infinite or
  not a number; like every value out of range it converts to the least \<open>int\<close> (on amd64).\<close>

definition newCap :: "rat \<Rightarrow> rat \<Rightarrow> rat \<Rightarrow> int \<Rightarrow> int" where
  "newCap capBytes scalingTotal rt pieceSize =
     (let c = (if scalingTotal = 0 \<or> pieceSize = 0 then - (2 ^ 63)
          else int64_of \<lfloor>f64 (f64 (f64 (capBytes / scalingTotal) * rt) / f64 (of_int pieceSize))\<rfloor>)
      in if c = 0 then 1 else c)"

fun trimAll :: "(string \<times> ramcache) list \<Rightarrow> (string \<times> ramcache) list run" where
  "trimAll [] = Ret []"
| "trimAll ((i, r) # rs) = run_bind (trimCommitted r) (\<lambda>(r, _). run_bind (trimAll rs) (\<lambda>rs. Ret ((i, r) # rs)))"

definition rebalance :: "(rat \<Rightarrow> rat) \<Rightarrow> bool \<Rightarrow> cache_provider \<Rightarrow> cache_provider run" where
  "rebalance sq shouldTrim p =
     (let roots = map (\<lambda>(i, r). sq (f64 (of_int (rc_torrentLength r)))) (cp_caches p);
          scalingTotal = foldl (\<lambda>s x. f64 (s + x)) 0 roots;
          capBytes = f64 (of_int (cp_capacity p * 1024 * 1024));
          caches = map (\<lambda>(rt, i, r). (i, setCapacity r (newCap capBytes scalingTotal rt (rc_pieceSize r))))
            (zip roots (cp_caches p))
      in if shouldTrim then run_bind (trimAll caches) (\<lambda>cs. Ret (p\<lparr>cp_caches := cs\<rparr>))
         else Ret (p\<lparr>cp_caches := caches\<rparr>))"

definition NewCache :: "(rat \<Rightarrow> rat) \<Rightarrow> cache_provider \<Rightarrow> string \<Rightarrow> int \<Rightarrow> int \<Rightarrow> int \<Rightarrow> cache_provider run" where
  "NewCache sq p infohash numPieces pieceSize torrentLength =
     run_bind (run_of (NewRAMCache infohash numPieces pieceSize torrentLength)) (\<lambda>rc.
       rebalance sq True (p\<lparr>cp_caches := AList.update infohash rc (cp_caches p)\<rparr>))"

definition cacheClosed :: "(rat \<Rightarrow> rat) \<Rightarrow> cache_provider \<Rightarrow> string \<Rightarrow> cache_provider run" where
  "cacheClosed sq p infohash = rebalance sq False (p\<lparr>cp_caches := AList.delete infohash (cp_caches p)\<rparr>)"

definition RAMCache_Close :: "(rat \<Rightarrow> rat) \<Rightarrow> cache_provider \<Rightarrow> ramcache \<Rightarrow> cache_provider run" where
  "RAMCache_Close sq p r = cacheClosed sq p (rc_infohash r)"

text \<open>The share of a cache is never nothing; a rebalance that does not trim keeps the caches there are.\<close>

lemma newCap_ne: "newCap a b c d \<noteq> 0"
  by (simp add: newCap_def Let_def)

lemma rebalance_keys:
  "rebalance sq False p = Ret p' \<Longrightarrow> map fst (cp_caches p') = map fst (cp_caches p)"
  by (auto simp: rebalance_def Let_def split_beta comp_def intro!: nth_equalityI)

text \<open>
  A write that leaves more boxes than the capacity never returns: \<open>writeAt\<close> holds the mutex and
  \<open>trimCommitted\<close> locks it again.
\<close>

lemma copyBox_locked: "copyBox clk r p i boxI boxOff = Some (r', k) \<Longrightarrow> rc_locked r' = rc_locked r"
  unfolding copyBox_def
  by (auto split: Option.bind_split_asm prod.split_asm)

lemma markBox_locked: "markBox r boxI boxOff k = Some r' \<Longrightarrow> rc_locked r' = rc_locked r"
  unfolding markBox_def by (auto split: Option.bind_split_asm if_split_asm)

lemma writeBoxes_locked: "writeBoxes clk r p i boxI boxOff = Some r' \<Longrightarrow> rc_locked r' = rc_locked r"
proof (induction clk r p i boxI boxOff rule: writeBoxes.induct)
  case (1 clk r p i boxI boxOff)
  note w = 1(2) [unfolded writeBoxes.simps [of clk r p i boxI boxOff]]
  show ?case
  proof (cases "i < int (length p)")
    case True
    then obtain r1 k r2 where "copyBox clk r p i boxI boxOff = Some (r1, k)" "markBox r1 boxI boxOff k = Some r2"
      "writeBoxes clk r2 p (i + k) (boxI + 1) 0 = Some r'"
      using w by (auto split: option.split_asm prod.split_asm)
    then show ?thesis using 1(1) [OF True _ refl] copyBox_locked markBox_locked by metis
  qed (use w in simp)
qed

lemma overflow_blocks:
  assumes "\<not> rc_locked r" "0 < rc_pieceSize r" "0 \<le> off"
    "writeBoxes clk (r\<lparr>rc_locked := True\<rparr>) p 0 (off div rc_pieceSize r) (off mod rc_pieceSize r) = Some r'"
    "rc_actualUsage r' > getCapacity r'"
  shows "cache_writeAt srt clk r p off = Blocks"
  using assms writeBoxes_locked [OF assms(4)]
  by (simp add: cache_writeAt_def go_div_nonneg go_mod_nonneg trim_def trimCommitted_def)

end
