(* ===== verification/Spec2Isabelle.thy ===== *)
theory Spec2Isabelle
  imports Download SessMgntProps TaskProps FlowProps Deploy HandlerProps CacheProvider
begin

text \<open>
  gofd: distribution of files from a server through a chain of agents.

  \<^bold>\<open>The program.\<close>  A server is asked over HTTP to distribute files to a list of nodes
  (\<open>server/handler.go\<close>).  One goroutine per task (\<open>server/taskmgnt.go\<close>) makes the metadata of the
  files (\<open>p2p/meta.go\<close>), creates a session for the task on its own node, asks every agent to create
  one, waits for their answers, and then starts the session of everyone in the chain.  On each node
  a session manager (\<open>p2p/sessionmgnt.go\<close>) owns the sessions; a session (\<open>p2p/session.go\<close>) talks to
  its peers (\<open>p2p/peer.go\<close>, \<open>p2p/listen.go\<close>) with a BitTorrent-like protocol, keeps a map of the
  pieces it has (\<open>p2p/bitset.go\<close>), reads and writes them through the file store
  (\<open>p2p/file.go\<close>, \<open>p2p/osfile.go\<close>, \<open>p2p/cache.go\<close>), checks their SHA-1 sums (\<open>p2p/piece.go\<close>),
  reports its progress to the server (\<open>p2p/report.go\<close>) and, when done, unpacks the archive it got
  (\<open>p2p/deploy.go\<close>, \<open>common/archive.go\<close>).  The transfer rate is limited by \<open>flowctrl\<close>.

  \<^bold>\<open>The theories.\<close>
  \<^item> \<open>Prelude\<close>: Go slices, integer division and panics (an operation that can panic returns an
    option, one that can also block a \<open>run\<close>), windows of byte lists, and the interface \<open>machine\<close>: an
    invariant and a preorder carried along a step relation.
  \<^item> \<open>Bitset\<close> (\<open>p2p/bitset.go\<close>): the record \<open>bitset\<close>, every method, and the interface \<open>bit_vector\<close>
    that refines it to a set of numbers.
  \<^item> \<open>Wire\<close>, \<open>Peer\<close>, \<open>Listen\<close> (\<open>p2p/utils.go\<close>, \<open>peer.go\<close>, \<open>listen.go\<close>): 32-bit integers and
    frames, each an instance of the interface \<open>codec\<close>; the record \<open>peer\<close> with its sends; the header
    of a connection and its authentication.
  \<^item> \<open>Paths\<close>, \<open>Config\<close> (\<open>common/config.go\<close>): lexical paths, validation and defaults.
  \<^item> \<open>Cache\<close>, \<open>CacheProvider\<close> (\<open>p2p/cache.go\<close>): the RAM cache with its mutex, and the split of the
    capacity over the tasks.
  \<^item> \<open>FileStore\<close> (\<open>p2p/file.go\<close>, \<open>osfile.go\<close>): files as one sequence of bytes on a disk that maps
    paths to contents; interfaces \<open>file_system\<close> (what opening promises) and \<open>byte_store\<close> (what reads
    return after writes).
  \<^item> \<open>Sha1\<close>, \<open>Piece\<close> (\<open>p2p/piece.go\<close>): sums of pieces, their check, blocks of an active piece.
  \<^item> \<open>Float32\<close>: the roundings of \<open>float32\<close> and \<open>float64\<close> that percentages and rates use.
  \<^item> \<open>Session\<close> (\<open>p2p/session.go\<close>): the record \<open>session\<close> and one definition per handler; \<open>sess_step\<close> is
    one turn of the event loop on an event, \<open>sess_next\<close> the step relation.
  \<^item> \<open>SessionInv\<close>, \<open>SessionProps\<close>, \<open>SessionRequest\<close>, \<open>SessionData\<close>, \<open>SessionClaims\<close>, \<open>SessFrame\<close>:
    what a turn keeps, what it asks and answers, where bytes go, what it leaves alone.
  \<^item> \<open>Download\<close>: two sessions run against each other until the download is complete.
  \<^item> \<open>SessMgnt\<close>, \<open>SessMgntInv\<close>, \<open>SessMgntProps\<close> (\<open>p2p/sessionmgnt.go\<close>): the sessions of a node as
    objects on one disk, with the manager's calls into them and the channels between them.
  \<^item> \<open>Meta\<close> (\<open>p2p/meta.go\<close>): metadata and piece length.
  \<^item> \<open>TaskMgnt\<close>, \<open>TaskInv\<close>, \<open>TaskProps\<close> (\<open>server/taskmgnt.go\<close>): the goroutine of one task;
    \<open>ct_step\<close> is one turn, \<open>ct_out\<close> the messages sent, in order.
  \<^item> \<open>Archive\<close>, \<open>ArchiveProps\<close>, \<open>ArchiveMgnt\<close> (\<open>common/archive.go\<close>, \<open>server/archivemgnt.go\<close>): packing,
    unpacking and the goroutine of an archive task, on a file system whose paths are looked up name
    after name, as the operating system does (\<open>locate\<close>).
  \<^item> \<open>Flowctrl\<close>, \<open>FlowProps\<close> (\<open>flowctrl\<close>): monitor, limit, limited reader and writer.
  \<^item> \<open>Service\<close> (\<open>common/base.go\<close>, \<open>common/http.go\<close>, \<open>p2p/report.go\<close>), \<open>Deploy\<close> (\<open>p2p/deploy.go\<close>),
    \<open>Handler\<close>, \<open>HandlerProps\<close> (\<open>server\<close>, \<open>agent\<close>): the services around the sessions.

  \<^bold>\<open>State and operations.\<close>  A Go structure is a record whose fields carry the source's names behind a
  prefix (\<open>s_\<close> session, \<open>p_\<close> peer, \<open>bs_\<close> bitset, \<open>rc_\<close> cache, \<open>fs_\<close> file store, \<open>ct_\<close> task, \<open>sm_\<close>
  manager, \<open>m_\<close> monitor); a method is a function from the record to the updated record, with a
  value and an error where it returns them.  Pointers shared by two structures are indices into the
  list of objects (peers of a session, sessions of a manager, tasks of a server).  A message sent
  and a channel written are entries of an output list.  A \<open>select\<close> loop is a step function on an
  event type; theorems speak of every sequence of events.  What a goroutine chooses or the runtime
  decides (random numbers, map order, clock, order of worker results) is an argument.

  \<^bold>\<open>What is shown.\<close>  For a client, whatever its peers send, the pieces counted as present have the sums
  of the metadata and never change again, and a session that counts all pieces has files whose sums
  are exactly those of the metadata; a block travels unchanged from request to file; a message can only write inside
  the piece it names; two nodes finish a download after as many
  rounds as pieces are missing.  Sessions of one node do
  not disturb each other's files, and the manager routes by task id.  A task on the server keeps its
  nodes and its status, completes only when every node is done, and its waits for agents end.
  Refinements: the piece map to a set, the files to one byte sequence, the parallel hashing to the
  sequential sums.  Round trips: integers, frames, bit maps, metadata, archives.  The limited writer
  returns, writes what it is given and stays within the rate between any two moments.  The theorems of kind \<open>error\<close> state
  what the code does where it does not do what it means to; the manifest lists these as findings.

  \<^bold>\<open>Bounds and fuel.\<close>  Loops over slices are structural or have a measure.  The three loops that wait
  for time to pass (\<open>waitLoop\<close>, \<open>limitLoop\<close>, \<open>writeLoop\<close>) are partial functions, \<open>None\<close> being a loop
  that does not end, and \<open>FlowProps\<close> shows that they return for a clock that advances.  \<open>Download\<close> runs
  the two nodes for as many rounds as pieces are missing.  Words
  are 8, 32 or 64 bits where the code masks, shifts or sends them; other integers are \<open>int\<close>, as the
  lengths of files and the numbers of pieces do not come near \<open>2^63\<close>.

  \<^bold>\<open>Not modelled.\<close>  \<open>cmd/main.go\<close> (flags, signals) and logging.  The formats and libraries of others are
  arguments of the definitions that use them, with documented behaviour as hypotheses: YAML, JSON,
  tar and gzip, the echo server, the expiring cache \<open>gcache\<close>, the cipher, the external commands of a
  deployment, \<open>math.Sqrt\<close> and \<open>math.Exp\<close>.  SHA-1 is defined in full; the theorems speak of sums, and none
  assumes that collisions are absent.  Symbolic links are left out of the file systems.  The
  goroutines of a node interleave at the turns of their loops and at the calls between them; the
  reader and writer goroutines of one connection are the queue between two sessions.
\<close>

end
